(* ===== verification/Prelude.thy ===== *)
theory Prelude
  imports "HOL-Library.Word"
begin

text \<open>
  What every component shares: names for the machine integers of the source, the
  state-and-error programs in which the hart's operations are written, the contract
  "every run of this program moves the state along a preorder", and little-endian bytes.

  The integers \<open>u8\<close> to \<open>u128\<close> keep their width; \<open>+\<close>, \<open>-\<close>, \<open>*\<close> and the shifts wrap
  and truncate as they do in the release build that \<^verbatim>\<open>make build\<close> produces.
\<close>

unbundle bit_operations_syntax

type_synonym u8 = "8 word"
type_synonym u16 = "16 word"
type_synonym u32 = "32 word"
type_synonym u64 = "64 word"
type_synonym u128 = "128 word"

named_theorems word_bits \<open>rewrite rules that turn a word equation into a statement about bits\<close>

section \<open>Words\<close>

lemma bit_numeral_small [simp]:
  "bit (1 :: 'a::len word) n \<longleftrightarrow> n = 0"
  by (simp add: bit_1_iff)

lemma word_numeral_compare_1 [simp]:
  "(numeral k :: 'a::len word) \<le> 1 \<longleftrightarrow> unat (numeral k :: 'a word) \<le> 1"
  "(1 :: 'a::len word) < numeral k \<longleftrightarrow> 1 < unat (numeral k :: 'a word)"
  "(numeral k :: 'a::len word) < 1 \<longleftrightarrow> unat (numeral k :: 'a word) = 0"
  "(1 :: 'a::len word) \<le> numeral k \<longleftrightarrow> 0 < unat (numeral k :: 'a word)"
  by (auto simp: word_le_nat_alt word_less_nat_alt)

lemma and_mask_take_bit: "(v :: 'a::len word) AND (push_bit n 1 - 1) = take_bit n v"
  by (simp add: take_bit_eq_mask mask_eq_exp_minus_1 push_bit_eq_mult)

lemma and_mask_exp_take_bit: "(v :: 'a::len word) AND (2 ^ n - 1) = take_bit n v"
  by (simp add: take_bit_eq_mask mask_eq_exp_minus_1)

lemma take_bit_eq_self_iff_less:
  "n < LENGTH('a) \<Longrightarrow> take_bit n (v :: 'a::len word) = v \<longleftrightarrow> v < 2 ^ n"
  by (metis less_mask_eq take_bit_eq_mask and_mask_less_size word_size)

lemma unat_take_bit_less: "unat (take_bit n (v :: 'a::len word)) < 2 ^ n"
  by (metis take_bit_nat_less_exp unsigned_take_bit_eq)

lemma ucast_byte [simp]: "(ucast (ucast (b :: u8) :: u64) :: u8) = b"
  by (rule bit_word_eqI) (simp add: bit_simps)

lemma take_bit_and_mask_absorb: "m \<le> n \<Longrightarrow> take_bit m (take_bit n (v :: 'a::len word)) = take_bit m v"
  by (simp add: min_absorb1)

lemma and_disjoint_not:
  assumes "m AND k = 0"
  shows "NOT m AND k = (k :: 'a::len word)"
proof (rule bit_word_eqI)
  fix n assume "n < LENGTH('a)"
  moreover have "\<not> bit (m AND k) n" using assms by simp
  ultimately show "bit (NOT m AND k) n \<longleftrightarrow> bit k n" by (auto simp: bit_simps)
qed

lemma and_bit_cases: "(w :: 'a::len word) AND push_bit n 1 = 0 \<or> w AND push_bit n 1 = push_bit n 1"
  by (cases "bit w n") (auto simp: and_exp_eq_0_iff_not_bit push_bit_eq_mult intro!: bit_word_eqI simp: bit_simps)

text \<open>
  An equation between 32-bit words, bit by bit: the encodings of instructions are compared
  this way, with every shift and mask evaluated at a known position.
\<close>

lemma and_numeral_take_bit:
  "(v :: 'a::len word) AND 0x3 = take_bit 2 v"
  "v AND 0x7 = take_bit 3 v"
  "v AND 0xf = take_bit 4 v"
  "v AND 0x1f = take_bit 5 v"
  "v AND 0x3f = take_bit 6 v"
  "v AND 0x7f = take_bit 7 v"
  "v AND 0xff = take_bit 8 v"
  "v AND 0x3ff = take_bit 10 v"
  "v AND 0xfff = take_bit 12 v"
  "v AND 1 = take_bit 1 v"
  by (simp_all add: take_bit_eq_mask mask_eq_exp_minus_1)

lemma less_32_cases: "(n::nat) < 32 \<longleftrightarrow> n \<in> {0,1,2,3,4,5,6,7,8,9,10,11,12,13,14,15,16,17,18,19,20,21,22,23,24,25,26,27,28,29,30,31}"
  by (simp only: insert_iff empty_iff) presburger

lemma word32_eq_bits: "(a :: u32) = b \<longleftrightarrow> (\<forall>n \<in> {0,1,2,3,4,5,6,7,8,9,10,11,12,13,14,15,16,17,18,19,20,21,22,23,24,25,26,27,28,29,30,31}. bit a n \<longleftrightarrow> bit b n)"
  unfolding Ball_def less_32_cases [symmetric] by (auto intro: bit_word_eqI)

lemma bit_less_exp: "v < 2 ^ n \<Longrightarrow> n < LENGTH('a) \<Longrightarrow> bit (v :: 'a::len word) k \<Longrightarrow> k < n"
  by (metis bit_take_bit_iff take_bit_eq_self_iff_less)

lemma take_bit_less_exp: "n < LENGTH('a) \<Longrightarrow> take_bit n (v :: 'a::len word) < 2 ^ n"
  using take_bit_eq_self_iff_less [of n "take_bit n v"] by simp

lemma small_numerals: "Suc (Suc 0) = 2" "Suc (Suc (Suc 0)) = 3"
  by simp_all

lemmas eval_bits = bit_simps small_numerals bit_iff_odd_drop_bit [symmetric]

text \<open>
  A shift by a run-time amount: the release build masks the amount to the width of the
  operand, as \<^verbatim>\<open>wrapping_shl\<close> and \<^verbatim>\<open>wrapping_shr\<close> do.
\<close>

definition shl64 :: "u64 \<Rightarrow> u64 \<Rightarrow> u64" where
  "shl64 v s = push_bit (unat (s AND 63)) v"

definition shr64 :: "u64 \<Rightarrow> u64 \<Rightarrow> u64" where
  "shr64 v s = drop_bit (unat (s AND 63)) v"

section \<open>Programs over a state that can fail\<close>

text \<open>
  A method of the source that takes \<open>&mut self\<close> and returns a \<open>Result\<close> is a function from
  the state to the result and the state it leaves behind. An early return with an error
  keeps the effects made before it, so the error carries a state too.
\<close>

type_synonym ('s, 'e, 'a) prog = "'s \<Rightarrow> ('e + 'a) \<times> 's"

definition ret :: "'a \<Rightarrow> ('s, 'e, 'a) prog" where
  "ret x s = (Inr x, s)"

definition raise :: "'e \<Rightarrow> ('s, 'e, 'a) prog" where
  "raise e s = (Inl e, s)"

definition bindE :: "('s, 'e, 'a) prog \<Rightarrow> ('a \<Rightarrow> ('s, 'e, 'b) prog) \<Rightarrow> ('s, 'e, 'b) prog" where
  "bindE m k s = (case m s of (Inl e, s') \<Rightarrow> (Inl e, s') | (Inr x, s') \<Rightarrow> k x s')"

definition update :: "('s \<Rightarrow> 's) \<Rightarrow> ('s, 'e, unit) prog" where
  "update f s = (Inr (), f s)"

definition map_err :: "('d \<Rightarrow> 'e) \<Rightarrow> ('s, 'd, 'a) prog \<Rightarrow> ('s, 'e, 'a) prog" where
  "map_err f m s = (case m s of (Inl d, s') \<Rightarrow> (Inl (f d), s') | (Inr x, s') \<Rightarrow> (Inr x, s'))"

named_theorems prog_simps \<open>running the primitive programs\<close>

lemma ret_run [prog_simps, simp]: "ret x s = (Inr x, s)"
  by (simp add: ret_def)

lemma raise_run [prog_simps, simp]: "raise e s = (Inl e, s)"
  by (simp add: raise_def)

lemma update_run [prog_simps, simp]: "update f s = (Inr (), f s)"
  by (simp add: update_def)

lemma bindE_ret [simp]: "bindE (ret x) k = k x"
  by (rule ext) (simp add: bindE_def)

lemma bindE_raise [simp]: "bindE (raise e) k = raise e"
  by (rule ext) (simp add: bindE_def)

text \<open>The simplifier contracts \<open>ret x\<close> and \<open>raise e\<close> to their pairs.\<close>

lemma bindE_Pair [simp]:
  "bindE (Pair (Inr x)) k = k x"
  "bindE (Pair (Inl e)) k = Pair (Inl e)"
  by (rule ext, simp add: bindE_def)+

lemma bindE_ret_right [simp]: "bindE m ret = m"
  by (rule ext) (auto simp: bindE_def split: prod.splits sum.splits)

lemma bindE_assoc: "bindE (bindE m k) h = bindE m (\<lambda>x. bindE (k x) h)"
  by (rule ext) (auto simp: bindE_def split: prod.splits sum.splits)

lemma bindE_Inr: "m s = (Inr x, s') \<Longrightarrow> bindE m k s = k x s'"
  by (simp add: bindE_def)

lemma bindE_Inl: "m s = (Inl e, s') \<Longrightarrow> bindE m k s = (Inl e, s')"
  by (simp add: bindE_def)

lemma bindE_eq_Inr_iff:
  "bindE m k s = (Inr y, t) \<longleftrightarrow> (\<exists>x s'. m s = (Inr x, s') \<and> k x s' = (Inr y, t))"
  by (auto simp: bindE_def split: prod.splits sum.splits)

lemma bindE_eq_Inl_iff:
  "bindE m k s = (Inl e, t) \<longleftrightarrow>
     m s = (Inl e, t) \<or> (\<exists>x s'. m s = (Inr x, s') \<and> k x s' = (Inl e, t))"
  by (auto simp: bindE_def split: prod.splits sum.splits)

lemma map_err_eq_Inr_iff [simp]: "map_err f m s = (Inr x, t) \<longleftrightarrow> m s = (Inr x, t)"
  by (auto simp: map_err_def split: prod.splits sum.splits)

lemma map_err_eq_Inl_iff:
  "map_err f m s = (Inl e, t) \<longleftrightarrow> (\<exists>d. m s = (Inl d, t) \<and> e = f d)"
  by (auto simp: map_err_def split: prod.splits sum.splits)

lemma snd_map_err [simp]: "snd (map_err f m s) = snd (m s)"
  by (auto simp: map_err_def split: prod.splits sum.splits)

section \<open>The contract of an operation on the state\<close>

text \<open>
  Most guarantees of the hart have one form: whatever an operation does and however it
  ends, the state it leaves stands in a given preorder to the state it started from
  (an invariant is kept, a field is unchanged, the privilege has not grown). The locale
  states the contract once for any preorder; the components interpret it.
\<close>

definition keeps :: "('s \<Rightarrow> 's \<Rightarrow> bool) \<Rightarrow> ('s, 'e, 'a) prog \<Rightarrow> bool" where
  "keeps R m \<longleftrightarrow> (\<forall>s. R s (snd (m s)))"

named_theorems keeps_intros \<open>rules that establish the contract of a composed operation\<close>

lemma keepsD: "keeps R m \<Longrightarrow> R s (snd (m s))"
  by (simp add: keeps_def)

lemma keeps_run: "keeps R m \<Longrightarrow> m s = (r, t) \<Longrightarrow> R s t"
  by (metis keepsD snd_conv)

locale state_contract =
  fixes R :: "'s \<Rightarrow> 's \<Rightarrow> bool"
  assumes refl: "R s s"
    and trans: "R s t \<Longrightarrow> R t u \<Longrightarrow> R s u"
begin

lemma keeps_ret: "keeps R (ret x)"
  by (simp add: keeps_def refl)

lemma keeps_raise: "keeps R (raise e)"
  by (simp add: keeps_def refl)

lemma keeps_Pair: "keeps R (Pair r)"
  by (simp add: keeps_def refl)

lemma keeps_map_err: "keeps R m \<Longrightarrow> keeps R (map_err f m)"
  by (simp add: keeps_def)

lemma keeps_bindE:
  assumes "keeps R m" and "\<And>x. keeps R (k x)"
  shows "keeps R (bindE m k)"
  unfolding keeps_def
proof
  fix s
  obtain r t where run: "m s = (r, t)" by (cases "m s")
  then have st: "R s t" using assms(1) by (rule keeps_run [rotated])
  show "R s (snd (bindE m k s))"
  proof (cases r)
    case (Inl e)
    with run st show ?thesis by (simp add: bindE_def)
  next
    case (Inr x)
    with run have "snd (bindE m k s) = snd (k x t)" by (simp add: bindE_def)
    with st assms(2) [THEN keepsD, of t x] show ?thesis by (auto intro: trans)
  qed
qed

lemma keeps_update: "(\<And>s. R s (f s)) \<Longrightarrow> keeps R (update f)"
  by (simp add: keeps_def)

lemma keeps_read_state: "(\<And>s. keeps R (m s)) \<Longrightarrow> keeps R (\<lambda>s. m s s)"
  by (simp add: keeps_def)

lemmas keeps_rules = keeps_ret keeps_raise keeps_Pair keeps_map_err keeps_bindE keeps_update

end

section \<open>Little-endian bytes\<close>

text \<open>
  \<open>to_le n v\<close> is the first \<open>n\<close> bytes of \<open>v.to_le_bytes()\<close>, and \<open>from_le\<close> is
  \<open>from_le_bytes\<close> followed by the widening to \<open>u64\<close>.
\<close>

definition to_le :: "nat \<Rightarrow> u64 \<Rightarrow> u8 list" where
  "to_le n v = map (\<lambda>k. ucast (drop_bit (8 * k) v)) [0..<n]"

fun from_le :: "u8 list \<Rightarrow> u64" where
  "from_le [] = 0"
| "from_le (b # bs) = ucast b OR push_bit 8 (from_le bs)"

lemma length_to_le [simp]: "length (to_le n v) = n"
  by (simp add: to_le_def)

lemma to_le_0 [simp]: "to_le 0 v = []"
  by (simp add: to_le_def)

lemma to_le_Suc: "to_le (Suc n) v = ucast v # to_le n (drop_bit 8 v)"
  unfolding to_le_def by (simp add: upt_conv_Cons map_Suc_upt [symmetric] add.commute del: upt_Suc)

lemma from_le_to_le: "from_le (to_le n v) = take_bit (8 * n) v"
proof (induction n arbitrary: v)
  case 0
  then show ?case by simp
next
  case (Suc n)
  show ?case
    by (rule bit_word_eqI) (auto simp: to_le_Suc Suc.IH bit_simps)
qed

lemma from_le_bound: "length bs \<le> 8 \<Longrightarrow> take_bit (8 * length bs) (from_le bs) = from_le bs"
proof (induction bs)
  case Nil
  then show ?case by simp
next
  case (Cons b bs)
  then have IH: "take_bit (8 * length bs) (from_le bs) = from_le bs" by simp
  show ?case
    by (rule bit_word_eqI, subst (1 2) from_le.simps, subst (1 2) IH [symmetric])
       (auto simp: bit_simps dest: bit_imp_le_length)
qed

section \<open>Slices of a byte array\<close>

text \<open>\<open>splice i bs d\<close> is \<^verbatim>\<open>d[i..i + bs.len()].copy_from_slice(bs)\<close> for a range inside \<open>d\<close>.\<close>

definition splice :: "nat \<Rightarrow> 'a list \<Rightarrow> 'a list \<Rightarrow> 'a list" where
  "splice i bs d = take i d @ bs @ drop (i + length bs) d"

definition slice_of :: "nat \<Rightarrow> nat \<Rightarrow> 'a list \<Rightarrow> 'a list" where
  "slice_of i n d = take n (drop i d)"

lemma length_splice [simp]: "i + length bs \<le> length d \<Longrightarrow> length (splice i bs d) = length d"
  by (simp add: splice_def)

lemma length_slice_of [simp]: "i + n \<le> length d \<Longrightarrow> length (slice_of i n d) = n"
  by (simp add: slice_of_def)

lemma slice_of_splice_same [simp]:
  "i + length bs \<le> length d \<Longrightarrow> n = length bs \<Longrightarrow> slice_of i n (splice i bs d) = bs"
  by (simp add: splice_def slice_of_def)

lemma nth_splice:
  assumes "i + length bs \<le> length d" and "k < length d"
  shows "splice i bs d ! k = (if i \<le> k \<and> k < i + length bs then bs ! (k - i) else d ! k)"
  using assms by (auto simp: splice_def nth_append not_less min_def)

lemma slice_of_splice_disjoint:
  assumes "i + length bs \<le> length d" and "j + n \<le> length d"
    and "j + n \<le> i \<or> i + length bs \<le> j"
  shows "slice_of j n (splice i bs d) = slice_of j n d"
  using assms by (intro nth_equalityI) (auto simp: slice_of_def nth_splice)

lemma splice_slice_same: "i + n \<le> length d \<Longrightarrow> splice i (slice_of i n d) d = d"
  by (simp add: splice_def slice_of_def) (metis append_take_drop_id add.commute drop_drop)

end
