(* ===== verification/Plic.thy ===== *)
theory Plic
  imports Prelude
begin

text \<open>
  The platform-level interrupt controller, \<^verbatim>\<open>emu/src/plic.rs\<close>. The fixed-size arrays are
  functions on \<open>nat\<close>; \<open>best\<close> is the arbitration loop over the sources 1 to 31 with its two
  local variables as the accumulator.
\<close>

abbreviation PLIC_BASE :: u64 where "PLIC_BASE \<equiv> 0x0C000000"
abbreviation PLIC_SIZE :: u64 where "PLIC_SIZE \<equiv> 0x04000000"
abbreviation MAX_SOURCES :: nat where "MAX_SOURCES \<equiv> 32"
abbreviation CONTEXTS :: nat where "CONTEXTS \<equiv> 2"
abbreviation CONTEXT_MACHINE :: nat where "CONTEXT_MACHINE \<equiv> 0"
abbreviation CONTEXT_SUPERVISOR :: nat where "CONTEXT_SUPERVISOR \<equiv> 1"
abbreviation PENDING_BASE :: u64 where "PENDING_BASE \<equiv> 0x1000"
abbreviation ENABLE_BASE :: u64 where "ENABLE_BASE \<equiv> 0x2000"
abbreviation ENABLE_STRIDE :: u64 where "ENABLE_STRIDE \<equiv> 0x80"
abbreviation CONTEXT_CONTROL_BASE :: u64 where "CONTEXT_CONTROL_BASE \<equiv> 0x200000"
abbreviation CONTEXT_STRIDE :: u64 where "CONTEXT_STRIDE \<equiv> 0x1000"

record plic =
  priority :: "nat \<Rightarrow> u32"
  levels :: u32
  claimed :: u32
  enable :: "nat \<Rightarrow> u32"
  threshold :: "nat \<Rightarrow> u32"

definition plic_default :: plic where
  "plic_default = \<lparr>priority = (\<lambda>_. 0), levels = 0, claimed = 0, enable = (\<lambda>_. 0), threshold = (\<lambda>_. 0)\<rparr>"

definition set_level :: "u32 \<Rightarrow> bool \<Rightarrow> plic \<Rightarrow> plic" where
  "set_level source asserted p =
    (if source = 0 \<or> source \<ge> 32 then p
     else if asserted then p\<lparr>levels := levels p OR push_bit (unat source) 1\<rparr>
     else p\<lparr>levels := levels p AND NOT (push_bit (unat source) 1)\<rparr>)"

definition pending :: "plic \<Rightarrow> u32" where
  "pending p = levels p AND NOT (claimed p)"

fun best_loop :: "plic \<Rightarrow> u32 \<Rightarrow> nat list \<Rightarrow> nat \<times> u32 \<Rightarrow> nat" where
  "best_loop p candidates [] (b, bp) = b"
| "best_loop p candidates (source # rest) (b, bp) =
     (if candidates AND push_bit source 1 = 0 then best_loop p candidates rest (b, bp)
      else if priority p source > bp then best_loop p candidates rest (source, priority p source)
      else best_loop p candidates rest (b, bp))"

definition best :: "plic \<Rightarrow> nat \<Rightarrow> nat" where
  "best p ctx =
    best_loop p (pending p AND enable p ctx) [1..<MAX_SOURCES] (0, threshold p ctx)"

definition is_pending :: "plic \<Rightarrow> nat \<Rightarrow> bool" where
  "is_pending p ctx \<longleftrightarrow> best p ctx \<noteq> 0"

definition claim :: "nat \<Rightarrow> plic \<Rightarrow> nat \<times> plic" where
  "claim ctx p =
    (let source = best p ctx
     in if source \<noteq> 0 then (source, p\<lparr>claimed := claimed p OR push_bit source 1\<rparr>) else (source, p))"

definition complete :: "u32 \<Rightarrow> plic \<Rightarrow> plic" where
  "complete source p =
    (if source < 32 then p\<lparr>claimed := claimed p AND NOT (push_bit (unat source) 1)\<rparr> else p)"

definition plic_read :: "u64 \<Rightarrow> plic \<Rightarrow> u64 \<times> plic" where
  "plic_read off p =
    (if off < PENDING_BASE then
       (let source = unat (off div 4)
        in ((if source < MAX_SOURCES then ucast (priority p source) else 0), p))
     else if PENDING_BASE \<le> off \<and> off < ENABLE_BASE then
       ((if off = PENDING_BASE then ucast (pending p) else 0), p)
     else if ENABLE_BASE \<le> off \<and> off < CONTEXT_CONTROL_BASE then
       (let ctx = unat ((off - ENABLE_BASE) div ENABLE_STRIDE);
            word = (off - ENABLE_BASE) mod ENABLE_STRIDE
        in ((if word = 0 \<and> ctx < CONTEXTS then ucast (enable p ctx) else 0), p))
     else
       (let ctx = unat ((off - CONTEXT_CONTROL_BASE) div CONTEXT_STRIDE);
            field = (off - CONTEXT_CONTROL_BASE) mod CONTEXT_STRIDE
        in if ctx \<ge> CONTEXTS then (0, p)
           else if field = 0 then (ucast (threshold p ctx), p)
           else if field = 4 then (let (source, p') = claim ctx p in (of_nat source, p'))
           else (0, p)))"

definition plic_write :: "u64 \<Rightarrow> u64 \<Rightarrow> plic \<Rightarrow> plic" where
  "plic_write off value64 p =
    (let value = ucast value64 :: u32
     in if off < PENDING_BASE then
          (let source = unat (off div 4)
           in if source > 0 \<and> source < MAX_SOURCES
              then p\<lparr>priority := (priority p)(source := value)\<rparr> else p)
        else if PENDING_BASE \<le> off \<and> off < ENABLE_BASE then p
        else if ENABLE_BASE \<le> off \<and> off < CONTEXT_CONTROL_BASE then
          (let ctx = unat ((off - ENABLE_BASE) div ENABLE_STRIDE);
               word = (off - ENABLE_BASE) mod ENABLE_STRIDE
           in if word = 0 \<and> ctx < CONTEXTS
              then p\<lparr>enable := (enable p)(ctx := value AND NOT 1)\<rparr> else p)
        else
          (let ctx = unat ((off - CONTEXT_CONTROL_BASE) div CONTEXT_STRIDE);
               field = (off - CONTEXT_CONTROL_BASE) mod CONTEXT_STRIDE
           in if ctx \<ge> CONTEXTS then p
              else if field = 0 then p\<lparr>threshold := (threshold p)(ctx := value)\<rparr>
              else if field = 4 then complete value p
              else p))"

section \<open>Arbitration\<close>

text \<open>A source that a context may take: asserted, not in service, enabled, above the threshold.\<close>

definition eligible :: "plic \<Rightarrow> nat \<Rightarrow> nat \<Rightarrow> bool" where
  "eligible p ctx s \<longleftrightarrow>
     1 \<le> s \<and> s < MAX_SOURCES \<and> bit (levels p) s \<and> \<not> bit (claimed p) s \<and> bit (enable p ctx) s
     \<and> threshold p ctx < priority p s"

definition top_of :: "plic \<Rightarrow> nat set \<Rightarrow> nat \<Rightarrow> bool" where
  "top_of p E r \<longleftrightarrow>
     r \<in> E \<and> (\<forall>t \<in> E. priority p t < priority p r \<or> priority p t = priority p r \<and> r \<le> t)"

lemma top_step:
  assumes E: "E = insert x {s \<in> set xs. bit cand s \<and> bp < priority p s}"
    and F: "F = {s \<in> set xs. bit cand s \<and> priority p x < priority p s}"
    and x: "bp < priority p x" "\<forall>t \<in> set xs. x \<le> t"
    and r: "F = {} \<Longrightarrow> r = x" "F \<noteq> {} \<Longrightarrow> top_of p F r"
  shows "top_of p E r"
proof (cases "F = {}")
  case True
  have "t = x \<or> t \<in> set xs \<and> priority p t \<le> priority p x" if "t \<in> E" for t
    using that True E F by (auto simp: not_less)
  then show ?thesis using r(1) True x E by (auto simp: top_of_def le_less)
next
  case False
  then have top: "r \<in> F" "\<forall>t \<in> F. priority p t < priority p r \<or> priority p t = priority p r \<and> r \<le> t"
    using r(2) by (auto simp: top_of_def)
  have "t \<in> F \<or> priority p t \<le> priority p x" if "t \<in> E" for t
    using that E F by (auto simp: not_less)
  moreover have "priority p x < priority p r" "r \<in> E" using top(1) E F x(1) by auto
  ultimately show ?thesis using top(2) unfolding top_of_def by (meson le_less_trans)
qed

lemma best_loop_top:
  assumes "sorted xs" and "distinct xs" and "E = {s \<in> set xs. bit cand s \<and> bp < priority p s}"
  shows "(E = {} \<longrightarrow> best_loop p cand xs (b, bp) = b)
         \<and> (E \<noteq> {} \<longrightarrow> top_of p E (best_loop p cand xs (b, bp)))"
  using assms
proof (induction xs arbitrary: b bp E)
  case (Cons x xs)
  show ?case
  proof (cases "bit cand x \<and> bp < priority p x")
    case True
    let ?F = "{s \<in> set xs. bit cand s \<and> priority p x < priority p s}"
    define r where "r = best_loop p cand xs (x, priority p x)"
    have run: "best_loop p cand (x # xs) (b, bp) = r"
      using True by (simp add: r_def and_exp_eq_0_iff_not_bit)
    have IH: "(?F = {} \<longrightarrow> r = x) \<and> (?F \<noteq> {} \<longrightarrow> top_of p ?F r)"
      unfolding r_def by (rule Cons.IH) (use Cons.prems in simp_all)
    have E: "E = insert x {s \<in> set xs. bit cand s \<and> bp < priority p s}"
      using Cons.prems(3) True by auto
    have "top_of p E r"
      by (rule top_step [OF E HOL.refl]) (use True Cons.prems(1) IH in auto)
    then show ?thesis using E unfolding run by blast
  next
    case False
    have "best_loop p cand (x # xs) (b, bp) = best_loop p cand xs (b, bp)"
      using False by (auto simp: and_exp_eq_0_iff_not_bit)
    moreover have "E = {s \<in> set xs. bit cand s \<and> bp < priority p s}"
      using Cons.prems False by auto
    ultimately show ?thesis
      using Cons.IH [of E bp b] Cons.prems by simp
  qed
qed simp

lemma best_top:
  "if best p ctx = 0 then \<forall>s. \<not> eligible p ctx s
   else eligible p ctx (best p ctx) \<and> top_of p {s. eligible p ctx s} (best p ctx)"
proof -
  define xs where "xs = [1..<MAX_SOURCES]"
  define E where "E = {s \<in> set xs. bit (pending p AND enable p ctx) s \<and> threshold p ctx < priority p s}"
  have xs: "sorted xs" "distinct xs" "set xs = {1..<32}"
    by (simp_all only: xs_def sorted_upt distinct_upt set_upt)
  have E: "s \<in> E \<longleftrightarrow> eligible p ctx s" for s
    by (auto simp: E_def xs eligible_def pending_def bit_simps)
  have "(E = {} \<longrightarrow> best p ctx = 0) \<and> (E \<noteq> {} \<longrightarrow> top_of p E (best p ctx))"
    unfolding best_def xs_def [symmetric] by (rule best_loop_top [OF xs(1,2) E_def])
  moreover have "\<not> eligible p ctx 0" by (simp add: eligible_def)
  ultimately show ?thesis
    using E by (cases "E = {}") (auto simp: top_of_def)
qed

text \<open>
  C34. Arbitration hands a context the eligible source of highest priority, the lowest number
  among equals, and reports none exactly when none is eligible.
\<close>

theorem best_is_highest:
  "if best p ctx = 0 then \<forall>s. \<not> eligible p ctx s
   else eligible p ctx (best p ctx)
        \<and> (\<forall>t. eligible p ctx t \<longrightarrow>
              priority p t < priority p (best p ctx)
              \<or> priority p t = priority p (best p ctx) \<and> best p ctx \<le> t)"
  using best_top [of p ctx] by (auto simp: top_of_def)

section \<open>Claim and complete\<close>

text \<open>
  C35. A claim takes an eligible source out of service and nothing else; until it is completed
  no context can claim that source again, and completing it restores the controller exactly.
\<close>

theorem claim_handshake:
  assumes "claim ctx p = (s, p')" and "s \<noteq> 0"
  shows "eligible p ctx s \<and> pending p' = pending p AND NOT (push_bit s 1)
         \<and> (\<forall>ctx'. fst (claim ctx' p') \<noteq> s) \<and> complete (of_nat s) p' = p"
proof -
  have s: "s = best p ctx" and p': "p' = p\<lparr>claimed := claimed p OR push_bit s 1\<rparr>"
    using assms by (auto simp: claim_def Let_def split: if_splits)
  have e: "eligible p ctx s" using best_top [of p ctx] s assms(2) by simp
  then have small: "s < 32" and free: "\<not> bit (claimed p) s" by (auto simp: eligible_def)
  have "pending p' = pending p AND NOT (push_bit s 1)"
    unfolding pending_def p' by (rule bit_word_eqI) (auto simp: bit_simps)
  moreover have "fst (claim ctx' p') \<noteq> s" for ctx'
  proof
    assume "fst (claim ctx' p') = s"
    then have "best p' ctx' = s" by (simp add: claim_def Let_def split: if_splits)
    then have "eligible p' ctx' s" using best_top [of p' ctx'] assms(2) by simp
    then show False using small by (simp add: eligible_def p' bit_simps)
  qed
  moreover have "complete (of_nat s) p' = p"
  proof -
    have "(claimed p OR push_bit s 1) AND NOT (push_bit s 1) = claimed p"
      using free by (intro bit_word_eqI) (auto simp: bit_simps)
    moreover have "unat (of_nat s :: u32) = s" "(of_nat s :: u32) < 32"
      using small by (simp_all add: word_less_nat_alt unat_of_nat)
    ultimately show ?thesis by (simp add: complete_def p')
  qed
  ultimately show ?thesis using e by simp
qed

text \<open>A controller with the UART's line asserted and enabled for both contexts.\<close>

definition uart_asserted :: plic where
  "uart_asserted = plic_default\<lparr>levels := 0x400, priority := (\<lambda>_. 1), enable := (\<lambda>_. 0x400)\<rparr>"

lemma uart_asserted_claim:
  "claim CONTEXT_SUPERVISOR uart_asserted = (10, uart_asserted\<lparr>claimed := 0x400\<rparr>)"
  by (simp add: claim_def best_def pending_def uart_asserted_def plic_default_def upt_rec)

theorem claim_handshake_witness:
  "fst (claim CONTEXT_MACHINE (uart_asserted\<lparr>claimed := 0x400\<rparr>)) \<noteq> 10
   \<and> complete 10 (uart_asserted\<lparr>claimed := 0x400\<rparr>) = uart_asserted"
  using claim_handshake [OF uart_asserted_claim] by simp

theorem best_is_highest_witness:
  "eligible uart_asserted CONTEXT_SUPERVISOR 10 \<and> priority uart_asserted 10 = 1
   \<and> \<not> (\<exists>t. eligible uart_asserted CONTEXT_SUPERVISOR t \<and> 1 < priority uart_asserted t)"
proof -
  have best: "best uart_asserted CONTEXT_SUPERVISOR = 10"
    by (simp add: best_def pending_def uart_asserted_def plic_default_def upt_rec)
  have one: "priority uart_asserted t = 1" for t by (simp add: uart_asserted_def)
  show ?thesis
    using best_is_highest [of uart_asserted CONTEXT_SUPERVISOR] unfolding best one by auto
qed

end
