(* ===== verification/Uart.thy ===== *)
theory Uart
  imports Prelude
begin

text \<open>
  The NS16550a console, \<^verbatim>\<open>emu/src/uart.rs\<close>. The receive queue and the transmit log are byte
  lists, oldest byte first. \<^verbatim>\<open>putchar\<close> also writes the byte to the host's standard output when
  \<open>echo\<close> is set, which no state of the emulator depends on and the model leaves out.
\<close>

abbreviation UART_BASE :: u64 where "UART_BASE \<equiv> 0x10000000"
abbreviation UART_SIZE :: u64 where "UART_SIZE \<equiv> 0x100"
abbreviation UART_IRQ :: u32 where "UART_IRQ \<equiv> 10"

abbreviation RBR_THR :: u64 where "RBR_THR \<equiv> 0"
abbreviation IER :: u64 where "IER \<equiv> 1"
abbreviation IIR_FCR :: u64 where "IIR_FCR \<equiv> 2"
abbreviation LCR :: u64 where "LCR \<equiv> 3"
abbreviation MCR :: u64 where "MCR \<equiv> 4"
abbreviation LSR :: u64 where "LSR \<equiv> 5"
abbreviation MSR :: u64 where "MSR \<equiv> 6"
abbreviation SCR :: u64 where "SCR \<equiv> 7"

abbreviation LSR_DATA_READY :: u8 where "LSR_DATA_READY \<equiv> 0x01"
abbreviation LSR_THR_EMPTY :: u8 where "LSR_THR_EMPTY \<equiv> 0x20"
abbreviation LSR_TRANSMITTER_EMPTY :: u8 where "LSR_TRANSMITTER_EMPTY \<equiv> 0x40"
abbreviation IER_RX :: u8 where "IER_RX \<equiv> 0x01"
abbreviation IER_THR :: u8 where "IER_THR \<equiv> 0x02"
abbreviation LCR_DLAB :: u8 where "LCR_DLAB \<equiv> 0x80"
abbreviation FIFO_ENABLED :: u8 where "FIFO_ENABLED \<equiv> 0xC0"

record uart =
  rx :: "u8 list"
  tx :: "u8 list"
  echo :: bool
  ier :: u8
  fcr :: u8
  lcr :: u8
  mcr :: u8
  scr :: u8
  divisor_low :: u8
  divisor_high :: u8

definition uart_default :: uart where
  "uart_default = \<lparr>rx = [], tx = [], echo = False, ier = 0, fcr = 0, lcr = 0, mcr = 0, scr = 0,
                   divisor_low = 0, divisor_high = 0\<rparr>"

definition push_input :: "u8 list \<Rightarrow> uart \<Rightarrow> uart" where
  "push_input bytes u = u\<lparr>rx := rx u @ bytes\<rparr>"

definition has_input :: "uart \<Rightarrow> bool" where
  "has_input u \<longleftrightarrow> rx u \<noteq> []"

definition take_input :: "uart \<Rightarrow> u8 option \<times> uart" where
  "take_input u = (case rx u of [] \<Rightarrow> (None, u) | b # bs \<Rightarrow> (Some b, u\<lparr>rx := bs\<rparr>))"

definition line_status :: "uart \<Rightarrow> u8" where
  "line_status u =
    (let s = LSR_THR_EMPTY OR LSR_TRANSMITTER_EMPTY
     in if rx u \<noteq> [] then s OR LSR_DATA_READY else s)"

definition is_interrupting :: "uart \<Rightarrow> bool" where
  "is_interrupting u \<longleftrightarrow> (ier u AND IER_RX \<noteq> 0 \<and> rx u \<noteq> []) \<or> ier u AND IER_THR \<noteq> 0"

definition iir :: "uart \<Rightarrow> u8" where
  "iir u =
    (if ier u AND IER_RX \<noteq> 0 \<and> rx u \<noteq> [] then FIFO_ENABLED OR 0x04
     else if ier u AND IER_THR \<noteq> 0 then FIFO_ENABLED OR 0x02
     else FIFO_ENABLED OR 0x01)"

definition uart_read :: "u64 \<Rightarrow> uart \<Rightarrow> u64 \<times> uart" where
  "uart_read off u =
    (let dlab = (lcr u AND LCR_DLAB \<noteq> 0);
         (v, u') =
           (if off = RBR_THR \<and> dlab then (divisor_low u, u)
            else if off = RBR_THR then
              (case take_input u of (Some b, u') \<Rightarrow> (b, u') | (None, u') \<Rightarrow> (0, u'))
            else if off = IER \<and> dlab then (divisor_high u, u)
            else if off = IER then (ier u, u)
            else if off = IIR_FCR then (iir u, u)
            else if off = LCR then (lcr u, u)
            else if off = MCR then (mcr u, u)
            else if off = LSR then (line_status u, u)
            else if off = MSR then (0xB0, u)
            else if off = SCR then (scr u, u)
            else (0, u))
     in (ucast v, u'))"

definition putchar :: "u8 \<Rightarrow> uart \<Rightarrow> uart" where
  "putchar byte u = u\<lparr>tx := tx u @ [byte]\<rparr>"

definition uart_write :: "u64 \<Rightarrow> u64 \<Rightarrow> uart \<Rightarrow> uart" where
  "uart_write off value64 u =
    (let value = ucast value64 :: u8; dlab = (lcr u AND LCR_DLAB \<noteq> 0)
     in if off = RBR_THR \<and> dlab then u\<lparr>divisor_low := value\<rparr>
        else if off = RBR_THR then putchar value u
        else if off = IER \<and> dlab then u\<lparr>divisor_high := value\<rparr>
        else if off = IER then u\<lparr>ier := value\<rparr>
        else if off = IIR_FCR then u\<lparr>fcr := value\<rparr>
        else if off = LCR then u\<lparr>lcr := value\<rparr>
        else if off = MCR then u\<lparr>mcr := value\<rparr>
        else if off = SCR then u\<lparr>scr := value\<rparr>
        else u)"

section \<open>The console as a queue\<close>

text \<open>Reading \<open>n\<close> times from a source of bytes, keeping what it delivers.\<close>

fun drain :: "('s \<Rightarrow> u8 option \<times> 's) \<Rightarrow> nat \<Rightarrow> 's \<Rightarrow> u8 list \<times> 's" where
  "drain get 0 s = ([], s)"
| "drain get (Suc n) s =
     (case get s of
        (None, s') \<Rightarrow> drain get n s'
      | (Some b, s') \<Rightarrow> (let (bs, s'') = drain get n s' in (b # bs, s'')))"

text \<open>
  The contract of a source: \<open>waiting\<close> is what it will deliver, oldest first, and \<open>get\<close> delivers
  the next byte, or nothing and no change when none is waiting. Reading a number of bytes then
  delivers a prefix of what waits.
\<close>

locale byte_source =
  fixes waiting :: "'s \<Rightarrow> u8 list" and get :: "'s \<Rightarrow> u8 option \<times> 's" and ok :: "'s \<Rightarrow> bool"
  assumes get_empty: "ok s \<Longrightarrow> waiting s = [] \<Longrightarrow> get s = (None, s)"
    and get_next: "ok s \<Longrightarrow> waiting s = b # bs \<Longrightarrow> fst (get s) = Some b \<and> waiting (snd (get s)) = bs"
    and get_ok: "ok s \<Longrightarrow> ok (snd (get s))"
begin

lemma drain_prefix:
  "ok s \<Longrightarrow>
     fst (drain get n s) = take n (waiting s) \<and> waiting (snd (drain get n s)) = drop n (waiting s)"
proof (induction n arbitrary: s)
  case (Suc n)
  show ?case
  proof (cases "waiting s")
    case Nil
    then show ?thesis using Suc get_empty by simp
  next
    case (Cons b bs)
    obtain s' where g: "get s = (Some b, s')" using get_next [OF Suc.prems Cons] by (cases "get s") auto
    then show ?thesis
      using Suc.IH [of s'] get_next [OF Suc.prems Cons] get_ok [OF Suc.prems] Cons
      by (auto split: prod.split)
  qed
qed simp

end

interpretation console: byte_source rx take_input "\<lambda>_. True"
  by unfold_locales (auto simp: take_input_def split: list.split)

text \<open>
  The guest's side: a driver looks at the line status and reads the receive buffer when a byte
  is ready. It is a source of the same bytes as long as the divisor latch is not selected.
\<close>

definition poll :: "uart \<Rightarrow> u8 option \<times> uart" where
  "poll u =
    (let (status, u1) = uart_read LSR u
     in if status AND 1 \<noteq> 0 then (let (v, u2) = uart_read RBR_THR u1 in (Some (ucast v), u2))
        else (None, u1))"

lemma poll_take_input: "lcr u AND LCR_DLAB = 0 \<Longrightarrow> poll u = take_input u"
  by (auto simp: poll_def uart_read_def line_status_def take_input_def Let_def split: list.split)

lemma take_input_lcr: "lcr (snd (take_input u)) = lcr u"
  by (auto simp: take_input_def split: list.split)

interpretation polled: byte_source rx poll "\<lambda>u. lcr u AND LCR_DLAB = 0"
proof unfold_locales
  fix u b bs
  show "lcr u AND LCR_DLAB = 0 \<Longrightarrow> rx u = [] \<Longrightarrow> poll u = (None, u)"
    using console.get_empty [of u] by (simp add: poll_take_input)
  show "lcr u AND LCR_DLAB = 0 \<Longrightarrow> rx u = b # bs \<Longrightarrow>
          fst (poll u) = Some b \<and> rx (snd (poll u)) = bs"
    using console.get_next [of u b bs] by (simp add: poll_take_input)
  show "lcr u AND LCR_DLAB = 0 \<Longrightarrow> lcr (snd (poll u)) AND LCR_DLAB = 0"
    by (simp add: poll_take_input take_input_lcr)
qed

text \<open>
  C36. A guest that polls the line status and the receive buffer reads the bytes the host has
  queued, each once and in order, and what it has not read yet stays queued.
\<close>

theorem polled_console_is_fifo:
  assumes "lcr u AND LCR_DLAB = 0"
  shows "fst (drain poll n (push_input bs u)) = take n (rx u @ bs)
         \<and> rx (snd (drain poll n (push_input bs u))) = drop n (rx u @ bs)"
  using polled.drain_prefix [of "push_input bs u" n] assms by (simp add: push_input_def)

theorem polled_console_is_fifo_witness:
  "fst (drain poll 2 (push_input [0x68, 0x69, 0x21] uart_default)) = [0x68, 0x69]"
  using polled_console_is_fifo [of uart_default 2 "[0x68, 0x69, 0x21]"]
  by (simp add: uart_default_def)

text \<open>
  The status registers tell the truth: line status reports data exactly when a byte is
  queued, interrupt identification reports an interrupt exactly when the device asserts its
  line, received data first, and reading either changes nothing.
\<close>

theorem uart_status_agrees:
  "uart_read LSR u = (ucast (line_status u), u) \<and> uart_read IIR_FCR u = (ucast (iir u), u)
   \<and> (line_status u AND LSR_DATA_READY \<noteq> 0 \<longleftrightarrow> has_input u)
   \<and> (iir u AND 1 = 0 \<longleftrightarrow> is_interrupting u)
   \<and> (iir u AND 0x0f = 0x04 \<longleftrightarrow> ier u AND IER_RX \<noteq> 0 \<and> has_input u)"
  by (auto simp: uart_read_def line_status_def iir_def is_interrupting_def has_input_def Let_def)

end
