(* ===== verification/Memory.thy ===== *)
theory Memory
  imports Plic Uart
begin

text \<open>
  Physical memory and the memory map, \<^verbatim>\<open>emu/src/memory.rs\<close>: DRAM at \<open>DRAM_BASE\<close>, the CLINT,
  the PLIC and the UART below it, and the \<open>tohost\<close> handshake. DRAM is the byte list behind
  \<^verbatim>\<open>Vec<u8>\<close>. A read takes the memory to a new memory because device reads have effects; an
  unmapped access still marks the devices dirty, so the error carries the new memory too.
\<close>

datatype unmapped = Unmapped

abbreviation DRAM_BASE :: u64 where "DRAM_BASE \<equiv> 0x80000000"
abbreviation CLINT_BASE :: u64 where "CLINT_BASE \<equiv> 0x02000000"
abbreviation CLINT_END :: u64 where "CLINT_END \<equiv> 0x0200C000"
abbreviation CLINT_MSIP :: u64 where "CLINT_MSIP \<equiv> 0x02000000"
abbreviation CLINT_MTIMECMP :: u64 where "CLINT_MTIMECMP \<equiv> 0x02004000"
abbreviation CLINT_MTIME :: u64 where "CLINT_MTIME \<equiv> 0x0200BFF8"

record clint =
  msip :: u32
  mtimecmp :: u64
  mtime :: u64

definition clint_default :: clint where
  "clint_default = \<lparr>msip = 0, mtimecmp = 0, mtime = 0\<rparr>"

record memory =
  dram :: "u8 list"
  clint :: clint
  plic :: plic
  uart :: uart
  tohost :: "u64 option"
  tohost_value :: "u64 option"
  devices_dirty :: bool

definition mem_new :: "nat \<Rightarrow> memory" where
  "mem_new n = \<lparr>dram = replicate n 0, clint = clint_default, plic = plic_default,
                uart = uart_default, tohost = None, tohost_value = None, devices_dirty = True\<rparr>"

text \<open>\<^verbatim>\<open>load\<close> panics when the image is longer than the DRAM: the result is then \<open>None\<close>.\<close>

definition mem_load :: "u8 list \<Rightarrow> memory \<Rightarrow> memory option" where
  "mem_load img m =
    (if length img \<le> length (dram m) then Some (m\<lparr>dram := splice 0 img (dram m)\<rparr>) else None)"

definition mem_index :: "memory \<Rightarrow> u64 \<Rightarrow> nat \<Rightarrow> nat option" where
  "mem_index m addr sz =
    (if addr < DRAM_BASE then None
     else let off = addr - DRAM_BASE
          in if unat off + sz \<ge> 2 ^ 64 then None
             else if unat off + sz > length (dram m) then None
             else Some (unat off))"

definition load_at :: "u64 \<Rightarrow> u8 list \<Rightarrow> (memory, unmapped, unit) prog" where
  "load_at addr data m =
    (case mem_index m addr (length data) of
       None \<Rightarrow> (Inl Unmapped, m)
     | Some i \<Rightarrow> (Inr (), m\<lparr>dram := splice i data (dram m)\<rparr>))"

definition mem_zero :: "u64 \<Rightarrow> u64 \<Rightarrow> (memory, unmapped, unit) prog" where
  "mem_zero addr len m =
    (case mem_index m addr (unat len) of
       None \<Rightarrow> (Inl Unmapped, m)
     | Some i \<Rightarrow> (Inr (), m\<lparr>dram := splice i (replicate (unat len) 0) (dram m)\<rparr>))"

section \<open>The CLINT\<close>

definition clint_field :: "clint \<Rightarrow> u64 \<Rightarrow> u64 \<times> u64" where
  "clint_field c addr =
    (if addr \<ge> CLINT_MTIME then (CLINT_MTIME, mtime c)
     else if addr \<ge> CLINT_MTIMECMP then (CLINT_MTIMECMP, mtimecmp c)
     else (CLINT_MSIP, ucast (msip c)))"

definition clint_read :: "clint \<Rightarrow> u64 \<Rightarrow> nat \<Rightarrow> u64" where
  "clint_read c addr sz =
    (let (base, full) = clint_field c addr;
         shift = (addr - base) * 8;
         v = shr64 full shift
     in if sz \<ge> 8 then v else v AND (push_bit (sz * 8) 1 - 1))"

definition clint_write :: "u64 \<Rightarrow> nat \<Rightarrow> u64 \<Rightarrow> clint \<Rightarrow> clint" where
  "clint_write addr sz value c =
    (let (base, full) = clint_field c addr;
         shift = (addr - base) * 8;
         msk = (if sz \<ge> 8 then - 1 else shl64 (push_bit (sz * 8) 1 - 1) shift);
         merged = (full AND NOT msk) OR (shl64 value shift AND msk)
     in if base = CLINT_MSIP then c\<lparr>msip := ucast merged AND 1\<rparr>
        else if base = CLINT_MTIMECMP then c\<lparr>mtimecmp := merged\<rparr>
        else c\<lparr>mtime := merged\<rparr>)"

section \<open>Reads and writes\<close>

definition mem_read :: "u64 \<Rightarrow> nat \<Rightarrow> (memory, unmapped, u64) prog" where
  "mem_read addr sz m =
    (if addr \<ge> DRAM_BASE then
       (case mem_index m addr sz of
          None \<Rightarrow> (Inl Unmapped, m)
        | Some i \<Rightarrow>
            if sz = 1 \<or> sz = 2 \<or> sz = 4 \<or> sz = 8
            then (Inr (from_le (slice_of i sz (dram m))), m)
            else (Inl Unmapped, m))
     else
       (let m' = m\<lparr>devices_dirty := True\<rparr>
        in if CLINT_BASE \<le> addr \<and> addr < CLINT_END then (Inr (clint_read (clint m') addr sz), m')
           else if PLIC_BASE \<le> addr \<and> addr < PLIC_BASE + PLIC_SIZE then
             (let (v, p) = plic_read (addr - PLIC_BASE) (plic m') in (Inr v, m'\<lparr>plic := p\<rparr>))
           else if UART_BASE \<le> addr \<and> addr < UART_BASE + UART_SIZE then
             (let (v, u) = uart_read (addr - UART_BASE) (uart m') in (Inr v, m'\<lparr>uart := u\<rparr>))
           else (Inl Unmapped, m')))"

definition mem_write :: "u64 \<Rightarrow> nat \<Rightarrow> u64 \<Rightarrow> (memory, unmapped, unit) prog" where
  "mem_write addr sz value m =
    (if addr \<ge> DRAM_BASE then
       (case mem_index m addr sz of
          None \<Rightarrow> (Inl Unmapped, m)
        | Some i \<Rightarrow>
            if sz = 1 \<or> sz = 2 \<or> sz = 4 \<or> sz = 8
            then (let m' = m\<lparr>dram := splice i (to_le sz value) (dram m)\<rparr>
                  in (Inr (), if tohost m = Some addr \<and> value \<noteq> 0
                              then m'\<lparr>tohost_value := Some value\<rparr> else m'))
            else (Inl Unmapped, m))
     else
       (let m' = m\<lparr>devices_dirty := True\<rparr>
        in if CLINT_BASE \<le> addr \<and> addr < CLINT_END then
             (Inr (), m'\<lparr>clint := clint_write addr sz value (clint m')\<rparr>)
           else if PLIC_BASE \<le> addr \<and> addr < PLIC_BASE + PLIC_SIZE then
             (Inr (), m'\<lparr>plic := plic_write (addr - PLIC_BASE) value (plic m')\<rparr>)
           else if UART_BASE \<le> addr \<and> addr < UART_BASE + UART_SIZE then
             (Inr (), m'\<lparr>uart := uart_write (addr - UART_BASE) value (uart m')\<rparr>)
           else (Inl Unmapped, m')))"

section \<open>What accesses leave alone\<close>

lemma mem_index_bound: "mem_index m a n = Some i \<Longrightarrow> i + n \<le> length (dram m)"
  by (auto simp: mem_index_def Let_def split: if_splits)

lemma mem_read_keeps [simp]:
  "dram (snd (mem_read a n m)) = dram m"
  "tohost (snd (mem_read a n m)) = tohost m"
  "tohost_value (snd (mem_read a n m)) = tohost_value m"
  "clint (snd (mem_read a n m)) = clint m"
  by (auto simp: mem_read_def Let_def split: option.split prod.split)

lemma mem_write_length [simp]: "length (dram (snd (mem_write a n v m))) = length (dram m)"
  by (auto simp: mem_write_def Let_def split: option.split dest: mem_index_bound)

lemma mem_write_tohost [simp]: "tohost (snd (mem_write a n v m)) = tohost m"
  by (auto simp: mem_write_def Let_def split: option.split)

section \<open>DRAM as a byte store\<close>

definition in_dram :: "memory \<Rightarrow> u64 \<Rightarrow> nat \<Rightarrow> bool" where
  "in_dram m a n \<longleftrightarrow> DRAM_BASE \<le> a \<and> unat (a - DRAM_BASE) + n \<le> length (dram m) \<and> n \<in> {1, 2, 4, 8}"

definition addressable :: "memory \<Rightarrow> bool" where
  "addressable m \<longleftrightarrow> length (dram m) < 2 ^ 63"

lemma mem_index_in_dram:
  "in_dram m a n \<Longrightarrow> addressable m \<Longrightarrow> mem_index m a n = Some (unat (a - DRAM_BASE))"
  by (auto simp: mem_index_def in_dram_def addressable_def Let_def)

lemma dram_read:
  assumes "in_dram m a n" and "addressable m"
  shows "mem_read a n m = (Inr (from_le (slice_of (unat (a - DRAM_BASE)) n (dram m))), m)"
  using assms mem_index_in_dram [OF assms] by (auto simp: mem_read_def in_dram_def)

lemma dram_write:
  assumes "in_dram m a n" and "addressable m"
  shows "\<exists>tv. mem_write a n v m =
           (Inr (), m\<lparr>dram := splice (unat (a - DRAM_BASE)) (to_le n v) (dram m), tohost_value := tv\<rparr>)"
proof -
  let ?tv = "if tohost m = Some a \<and> v \<noteq> 0 then Some v else tohost_value m"
  have "mem_write a n v m =
          (Inr (), m\<lparr>dram := splice (unat (a - DRAM_BASE)) (to_le n v) (dram m), tohost_value := ?tv\<rparr>)"
    using assms mem_index_in_dram [OF assms] by (auto simp: mem_write_def in_dram_def Let_def)
  then show ?thesis by blast
qed

text \<open>
  The contract of a byte store: what a client of physical memory may rely on. Addresses that
  are \<open>backed\<close> read without effect, a write reads back, and it is seen nowhere else.
\<close>

locale byte_store =
  fixes load :: "u64 \<Rightarrow> nat \<Rightarrow> 's \<Rightarrow> ('e + u64) \<times> 's"
    and store :: "u64 \<Rightarrow> nat \<Rightarrow> u64 \<Rightarrow> 's \<Rightarrow> ('e + unit) \<times> 's"
    and backed :: "'s \<Rightarrow> u64 \<Rightarrow> nat \<Rightarrow> bool"
  assumes load_pure: "backed s a n \<Longrightarrow> \<exists>v. load a n s = (Inr v, s)"
    and store_ok: "backed s a n \<Longrightarrow> \<exists>t. store a n v s = (Inr (), t) \<and> (\<forall>b k. backed t b k \<longleftrightarrow> backed s b k)"
    and load_back: "backed s a n \<Longrightarrow> fst (load a n (snd (store a n v s))) = Inr (take_bit (8 * n) v)"
    and load_apart: "backed s a n \<Longrightarrow> backed s b k \<Longrightarrow> unat a + n \<le> unat b \<or> unat b + k \<le> unat a \<Longrightarrow>
                       fst (load b k (snd (store a n v s))) = fst (load b k s)"
begin

lemma backed_store: "backed s a n \<Longrightarrow> backed (snd (store a n v s)) b k \<longleftrightarrow> backed s b k"
  using store_ok [of s a n v] by force

lemma last_store_wins:
  "backed s a n \<Longrightarrow> fst (load a n (snd (store a n w (snd (store a n v s))))) = Inr (take_bit (8 * n) w)"
  by (simp add: load_back backed_store)

lemma two_stores:
  fixes v w :: u64
  assumes "backed s a n" and "backed s b k" and "unat a + n \<le> unat b \<or> unat b + k \<le> unat a"
  defines "t \<equiv> snd (store b k w (snd (store a n v s)))"
  shows "fst (load a n t) = Inr (take_bit (8 * n) v) \<and> fst (load b k t) = Inr (take_bit (8 * k) w)"
proof -
  have "fst (load a n t) = fst (load a n (snd (store a n v s)))"
    unfolding t_def using assms(1-3) by (intro load_apart) (auto simp: backed_store)
  then show ?thesis
    using assms(1,2) by (simp add: t_def load_back backed_store)
qed

end

interpretation dram: byte_store mem_read mem_write "\<lambda>m a n. addressable m \<and> in_dram m a n"
proof unfold_locales
  fix m :: memory and a n v
  assume ok: "addressable m \<and> in_dram m a n"
  then obtain tv where w: "mem_write a n v m =
      (Inr (), m\<lparr>dram := splice (unat (a - DRAM_BASE)) (to_le n v) (dram m), tohost_value := tv\<rparr>)"
    using dram_write by blast
  let ?t = "m\<lparr>dram := splice (unat (a - DRAM_BASE)) (to_le n v) (dram m), tohost_value := tv\<rparr>"
  have len: "length (dram ?t) = length (dram m)" using ok by (simp add: in_dram_def)
  have same: "addressable ?t \<and> in_dram ?t b k \<longleftrightarrow> addressable m \<and> in_dram m b k" for b k
    unfolding addressable_def in_dram_def len by simp
  show "\<exists>v. mem_read a n m = (Inr v, m)" using ok dram_read by blast
  show "\<exists>t. mem_write a n v m = (Inr (), t) \<and> 
          (\<forall>b k. addressable t \<and> in_dram t b k \<longleftrightarrow> addressable m \<and> in_dram m b k)"
    using w same by blast
  show "fst (mem_read a n (snd (mem_write a n v m))) = Inr (take_bit (8 * n) v)"
    using ok same [of a n] by (simp add: w dram_read from_le_to_le in_dram_def)
  fix b k
  assume b: "addressable m \<and> in_dram m b k" and apart: "unat a + n \<le> unat b \<or> unat b + k \<le> unat a"
  have "unat (a - DRAM_BASE) = unat a - unat DRAM_BASE" "unat (b - DRAM_BASE) = unat b - unat DRAM_BASE"
     "unat DRAM_BASE \<le> unat a" "unat DRAM_BASE \<le> unat b"
    using ok b by (simp_all add: in_dram_def unat_sub word_le_nat_alt)
  then have "slice_of (unat (b - DRAM_BASE)) k (dram ?t) = slice_of (unat (b - DRAM_BASE)) k (dram m)"
    using ok b apart by (auto simp: in_dram_def intro!: slice_of_splice_disjoint)
  then show "fst (mem_read b k (snd (mem_write a n v m))) = fst (mem_read b k m)"
    using b same [of b k] by (simp add: w dram_read)
qed

text \<open>
  DRAM is memory: of two stores of any sizes to places that do not overlap, each reads back
  as it was stored, cut to its size, whatever the DRAM held; little-endian bytes and the bounds
  of the array are the code's.
\<close>

theorem dram_stores_read_back:
  assumes "addressable m" and "in_dram m a n" and "in_dram m b k"
    and "unat a + n \<le> unat b \<or> unat b + k \<le> unat a"
  shows "let t = snd (mem_write b k w (snd (mem_write a n v m)))
         in fst (mem_read a n t) = Inr (take_bit (8 * n) v) \<and> fst (mem_read b k t) = Inr (take_bit (8 * k) w)"
  using dram.two_stores [of m a n b k w v] assms by (simp add: Let_def)

theorem dram_stores_read_back_witness:
  "let t = snd (mem_write 0x80000004 2 0x12345 (snd (mem_write 0x80000000 4 0xdeadbeef (mem_new 16))))
   in fst (mem_read 0x80000000 4 t) = Inr 0xdeadbeef \<and> fst (mem_read 0x80000004 2 t) = Inr 0x2345"
  using dram_stores_read_back [of "mem_new 16" "0x80000000" 4 "0x80000004" 2 "0x12345" "0xdeadbeef"]
  by (simp add: addressable_def in_dram_def mem_new_def)

section \<open>The CLINT in halves\<close>

lemma low_mask: "push_bit (4 * 8) 1 - 1 = (mask 32 :: u64)"
  by (simp add: mask_eq_exp_minus_1)

lemma shl64_const: "shl64 v 0 = v" "shl64 v 32 = push_bit 32 v" "shr64 v 0 = v" "shr64 v 32 = drop_bit 32 v"
  by (simp_all add: shl64_def shr64_def)

lemma merge_low: "(old AND NOT (mask 32)) OR (v AND mask 32) = push_bit 32 (drop_bit 32 old) OR take_bit 32 (v :: u64)"
  by (rule bit_word_eqI) (auto simp: bit_simps)

lemma merge_high: "(old AND NOT (push_bit 32 (mask 32))) OR (push_bit 32 v AND push_bit 32 (mask 32)) = push_bit 32 v OR take_bit 32 (old :: u64)"
  by (rule bit_word_eqI) (auto simp: bit_simps)

lemma halves_merge: "push_bit 32 hi OR take_bit 32 (push_bit 32 (drop_bit 32 old) OR take_bit 32 lo) = push_bit 32 hi OR take_bit 32 (lo :: u64)"
  by (rule bit_word_eqI) (auto simp: bit_simps)

lemma halves_read: "take_bit 32 (push_bit 32 hi OR take_bit 32 lo) = take_bit 32 (lo :: u64)"
   "drop_bit 32 (push_bit 32 hi OR take_bit 32 lo) = take_bit 32 (hi :: u64)"
  by (rule bit_word_eqI, auto simp: bit_simps)+

lemma clint_write_low:
  "clint_write CLINT_MTIMECMP 4 v c = c\<lparr>mtimecmp := push_bit 32 (drop_bit 32 (mtimecmp c)) OR take_bit 32 v\<rparr>"
  "clint_write CLINT_MTIME 4 v c = c\<lparr>mtime := push_bit 32 (drop_bit 32 (mtime c)) OR take_bit 32 v\<rparr>"
  unfolding clint_write_def clint_field_def low_mask by (simp_all add: shl64_const merge_low Let_def del: mask_numeral)

lemma clint_write_high:
  "clint_write (CLINT_MTIMECMP + 4) 4 v c = c\<lparr>mtimecmp := push_bit 32 v OR take_bit 32 (mtimecmp c)\<rparr>"
  "clint_write (CLINT_MTIME + 4) 4 v c = c\<lparr>mtime := push_bit 32 v OR take_bit 32 (mtime c)\<rparr>"
  unfolding clint_write_def clint_field_def low_mask by (simp_all add: shl64_const merge_high Let_def del: mask_numeral)

lemma clint_reads:
  "clint_read c CLINT_MTIMECMP 8 = mtimecmp c" "clint_read c CLINT_MTIME 8 = mtime c" 
  "clint_read c CLINT_MTIMECMP 4 = take_bit 32 (mtimecmp c)" "clint_read c CLINT_MTIME 4 = take_bit 32 (mtime c)"
  "clint_read c (CLINT_MTIMECMP + 4) 4 = take_bit 32 (drop_bit 32 (mtimecmp c))" "clint_read c (CLINT_MTIME + 4) 4 = take_bit 32 (drop_bit 32 (mtime c))" 
  unfolding clint_read_def clint_field_def and_mask_take_bit by (simp_all add: shl64_const Let_def)

text \<open>
  RV32 software reaches the 64-bit timer registers in two halves: writing them one after the
  other sets the whole register and no other, whatever it held, and the halves and the whole
  read back.
\<close>

theorem clint_register_halves:
  assumes "r = CLINT_MTIMECMP \<or> r = CLINT_MTIME"
  shows "let c' = clint_write (r + 4) 4 hi (clint_write r 4 lo c); w = push_bit 32 hi OR take_bit 32 lo
     in c' = (if r = CLINT_MTIME then c\<lparr>mtime := w\<rparr> else c\<lparr>mtimecmp := w\<rparr>)
      \<and> clint_read c' r 8 = w \<and> clint_read c' r 4 = take_bit 32 lo \<and> clint_read c' (r + 4) 4 = take_bit 32 hi"
  using assms unfolding Let_def
  by (elim disjE; simp only: clint_write_low clint_write_high clint_reads) (simp_all add: halves_merge halves_read del: take_bit_or drop_bit_or)

theorem clint_register_halves_witness:
  "clint_read (clint_write (CLINT_MTIMECMP + 4) 4 7 (clint_write CLINT_MTIMECMP 4 9 clint_default)) CLINT_MTIMECMP 8
     = 0x700000009"
  using clint_register_halves [of CLINT_MTIMECMP 7 9 clint_default] by (simp add: Let_def clint_reads)

text \<open>
  The registers have no bounds of their own: a store in the hole after \<open>msip\<close> shifts by the
  distance modulo the word and lands on \<open>msip\<close> (a debug build panics on the shift instead).
\<close>

lemma clint_hole_aliases_msip: "clint_write (CLINT_BASE + 8) 4 1 c = c\<lparr>msip := 1\<rparr>"
proof -
  have "(ucast (push_bit 32 x OR 1 :: u64) :: u32) AND 1 = 1" for x
    by (rule bit_word_eqI) (auto simp: bit_simps)
  then show ?thesis
    unfolding clint_write_def clint_field_def low_mask
    by (simp add: shl64_def merge_low Let_def del: mask_numeral)
qed

end
