(* ===== verification/Widths.thy ===== *)
theory Widths
  imports Prelude
begin

text \<open>
  The two register widths and the width-parameterised sign extension and truncation of
  \<^verbatim>\<open>emu/src/cpu.rs\<close>, on which the integer unit is built.
\<close>

datatype xlen = Rv32 | Rv64

definition xlen_bits :: "xlen \<Rightarrow> nat" where
  "xlen_bits x = (case x of Rv32 \<Rightarrow> 32 | Rv64 \<Rightarrow> 64)"

lemma xlen_bits_simps [simp]: "xlen_bits Rv32 = 32" "xlen_bits Rv64 = 64"
  by (simp_all add: xlen_bits_def)

lemma xlen_bits_range: "0 < xlen_bits x" "xlen_bits x \<le> 64"
  by (cases x; simp)+

definition sext :: "u64 \<Rightarrow> nat \<Rightarrow> u64" where
  "sext v width =
     (if width \<ge> 64 then v
      else let shift = 64 - width in signed_drop_bit shift (push_bit shift v))"

definition trunc :: "u64 \<Rightarrow> nat \<Rightarrow> u64" where
  "trunc v width = (if width \<ge> 64 then v else v AND (push_bit width 1 - 1))"

lemma trunc_take_bit: "trunc v width = take_bit width v"
  by (auto simp: trunc_def and_mask_exp_take_bit take_bit_word_eq_self)

lemma bit_sext_iff:
  assumes "0 < width"
  shows "bit (sext v width) n \<longleftrightarrow> n < 64 \<and> bit v (if n < width then n else width - 1)"
proof (cases "width \<ge> 64")
  case True
  then show ?thesis by (auto simp: sext_def dest: bit_imp_le_length)
next
  case False
  then show ?thesis using assms
    by (auto simp: sext_def Let_def bit_simps dest: bit_imp_le_length)
qed

lemma bit_trunc_iff: "bit (trunc v width) n \<longleftrightarrow> n < width \<and> bit v n"
  by (simp add: trunc_take_bit bit_simps)

lemma trunc_64 [simp]: "trunc v 64 = v"
  by (simp add: trunc_def)

lemma sext_64 [simp]: "sext v 64 = v"
  by (simp add: sext_def)

lemma trunc_idem [simp]: "trunc (trunc v w) w = trunc v w"
  by (simp add: trunc_take_bit)

lemma trunc_sext [simp]: "0 < w \<Longrightarrow> trunc (sext v w) w = trunc v w"
  by (rule bit_word_eqI) (auto simp: bit_trunc_iff bit_sext_iff)

lemma sext_trunc [simp]: "0 < w \<Longrightarrow> sext (trunc v w) w = sext v w"
  by (rule bit_word_eqI) (auto simp: bit_trunc_iff bit_sext_iff)

lemma sext_sext [simp]: "0 < w \<Longrightarrow> sext (sext v w) w = sext v w"
  by (rule bit_word_eqI) (auto simp: bit_sext_iff)

lemma trunc_0 [simp]: "trunc 0 w = 0"
  by (simp add: trunc_take_bit)

text \<open>At 32 bits the two are the conversions through a \<open>32 word\<close>.\<close>

lemma sext_32: "sext v 32 = scast (ucast v :: u32)"
  by (rule bit_word_eqI) (auto simp: bit_sext_iff bit_simps)

lemma trunc_32: "trunc v 32 = ucast (ucast v :: u32)"
  by (rule bit_word_eqI) (auto simp: bit_trunc_iff bit_simps)

end
