(* ===== verification/Trap.thy ===== *)
theory Trap
  imports Prelude
begin

text \<open>
  Privilege modes, exceptions and interrupt causes, \<^verbatim>\<open>emu/src/trap.rs\<close>. The derived
  ordering of \<^verbatim>\<open>Priv\<close> is the class instance below, so "at least as privileged as" is
  \<open>\<le>\<close> here too.
\<close>

section \<open>Privilege\<close>

datatype priv = User | Supervisor | Machine

definition priv_bits :: "priv \<Rightarrow> u64" where
  "priv_bits p = (case p of User \<Rightarrow> 0 | Supervisor \<Rightarrow> 1 | Machine \<Rightarrow> 3)"

definition priv_from_bits :: "u64 \<Rightarrow> priv" where
  "priv_from_bits v =
     (if v AND 0x3 = 0 then User else if v AND 0x3 = 1 then Supervisor else Machine)"

lemma priv_bits_simps [simp]:
  "priv_bits User = 0" "priv_bits Supervisor = 1" "priv_bits Machine = 3"
  by (simp_all add: priv_bits_def)

lemma priv_bits_inject [simp]: "priv_bits p = priv_bits q \<longleftrightarrow> p = q"
  by (cases p; cases q) simp_all

lemma priv_from_bits_priv_bits [simp]: "priv_from_bits (priv_bits p) = p"
  by (cases p) (simp_all add: priv_from_bits_def)

instantiation priv :: linorder
begin

definition less_eq_priv :: "priv \<Rightarrow> priv \<Rightarrow> bool" where
  "p \<le> q \<longleftrightarrow> priv_bits p \<le> priv_bits q"

definition less_priv :: "priv \<Rightarrow> priv \<Rightarrow> bool" where
  "p < q \<longleftrightarrow> priv_bits p < priv_bits q"

instance
  by standard (auto simp: less_eq_priv_def less_priv_def less_le)

end

lemma priv_le_simps [simp]:
  "User \<le> p" "p \<le> Machine"
  "Supervisor \<le> p \<longleftrightarrow> p \<noteq> User" "Machine \<le> p \<longleftrightarrow> p = Machine"
  "p \<le> User \<longleftrightarrow> p = User" "p \<le> Supervisor \<longleftrightarrow> p \<noteq> Machine"
  by (simp_all add: less_eq_priv_def priv_bits_def split: priv.split)

lemma priv_less_simps [simp]:
  "\<not> p < User" "\<not> Machine < p"
  "p < Supervisor \<longleftrightarrow> p = User" "p < Machine \<longleftrightarrow> p \<noteq> Machine"
  "User < p \<longleftrightarrow> p \<noteq> User" "Supervisor < p \<longleftrightarrow> p = Machine"
  by (simp_all add: less_priv_def priv_bits_def split: priv.split)

section \<open>Accesses and exceptions\<close>

datatype access = Fetch | Load | Store

datatype exception =
    InstructionAddressMisaligned u64
  | InstructionAccessFault u64
  | IllegalInstruction u32
  | Breakpoint
  | LoadAddressMisaligned u64
  | LoadAccessFault u64
  | StoreAddressMisaligned u64
  | StoreAccessFault u64
  | EnvironmentCall
  | InstructionPageFault u64
  | LoadPageFault u64
  | StorePageFault u64

fun cause :: "exception \<Rightarrow> priv \<Rightarrow> u64" where
  "cause (InstructionAddressMisaligned _) from = 0"
| "cause (InstructionAccessFault _) from = 1"
| "cause (IllegalInstruction _) from = 2"
| "cause Breakpoint from = 3"
| "cause (LoadAddressMisaligned _) from = 4"
| "cause (LoadAccessFault _) from = 5"
| "cause (StoreAddressMisaligned _) from = 6"
| "cause (StoreAccessFault _) from = 7"
| "cause EnvironmentCall from =
     (case from of User \<Rightarrow> 8 | Supervisor \<Rightarrow> 9 | Machine \<Rightarrow> 11)"
| "cause (InstructionPageFault _) from = 12"
| "cause (LoadPageFault _) from = 13"
| "cause (StorePageFault _) from = 15"

fun tval :: "exception \<Rightarrow> u64" where
  "tval (InstructionAddressMisaligned a) = a"
| "tval (InstructionAccessFault a) = a"
| "tval (LoadAddressMisaligned a) = a"
| "tval (LoadAccessFault a) = a"
| "tval (StoreAddressMisaligned a) = a"
| "tval (StoreAccessFault a) = a"
| "tval (InstructionPageFault a) = a"
| "tval (LoadPageFault a) = a"
| "tval (StorePageFault a) = a"
| "tval (IllegalInstruction i) = ucast i"
| "tval Breakpoint = 0"
| "tval EnvironmentCall = 0"

definition access_fault :: "access \<Rightarrow> u64 \<Rightarrow> exception" where
  "access_fault acc addr = (case acc of
       Fetch \<Rightarrow> InstructionAccessFault addr
     | Load \<Rightarrow> LoadAccessFault addr
     | Store \<Rightarrow> StoreAccessFault addr)"

definition page_fault :: "access \<Rightarrow> u64 \<Rightarrow> exception" where
  "page_fault acc addr = (case acc of
       Fetch \<Rightarrow> InstructionPageFault addr
     | Load \<Rightarrow> LoadPageFault addr
     | Store \<Rightarrow> StorePageFault addr)"

text \<open>Every cause number fits the sixteen bits that the delegation masks describe.\<close>

lemma cause_le_15: "cause e p \<le> 15"
  by (cases e) (simp_all split: priv.split)

lemma cause_less_16: "cause e p < 16"
  using cause_le_15 [of e p] by (simp add: word_le_nat_alt word_less_nat_alt)

text \<open>The cause numbers identify the kind of exception, and the caller's mode for an ecall.\<close>

lemma ecall_cause_iff: "cause e p = cause EnvironmentCall p \<longleftrightarrow> e = EnvironmentCall"
  by (cases e; cases p) simp_all

lemma page_fault_neq_ecall [simp]: "page_fault acc a \<noteq> EnvironmentCall"
  by (simp add: page_fault_def split: access.split)

section \<open>Interrupt causes\<close>

abbreviation SUPERVISOR_SOFTWARE :: u64 where "SUPERVISOR_SOFTWARE \<equiv> 1"
abbreviation MACHINE_SOFTWARE :: u64 where "MACHINE_SOFTWARE \<equiv> 3"
abbreviation SUPERVISOR_TIMER :: u64 where "SUPERVISOR_TIMER \<equiv> 5"
abbreviation MACHINE_TIMER :: u64 where "MACHINE_TIMER \<equiv> 7"
abbreviation SUPERVISOR_EXTERNAL :: u64 where "SUPERVISOR_EXTERNAL \<equiv> 9"
abbreviation MACHINE_EXTERNAL :: u64 where "MACHINE_EXTERNAL \<equiv> 11"

end
