(* ===== verification/Csr.thy ===== *)
theory Csr
  imports Widths Trap
begin

text \<open>
  Control and status registers, \<^verbatim>\<open>emu/src/csr.rs\<close>. The 4096-entry array is a function on
  \<open>u16\<close>; every address that reaches it is below 4096 (\<^verbatim>\<open>csr_in_range\<close> in Decode).
  \<open>csr_read\<close> and \<open>csr_write\<close> resolve the supervisor windows and the WARL masks, arm by arm
  as the source's \<^verbatim>\<open>match\<close> does; \<open>csr_force\<close>, \<open>csr_set_bits\<close> and \<open>csr_clear_bits\<close> are the
  hart's own unmasked updates.
\<close>

section \<open>Addresses\<close>

abbreviation FFLAGS :: u16 where "FFLAGS \<equiv> 0x001"
abbreviation FRM :: u16 where "FRM \<equiv> 0x002"
abbreviation FCSR :: u16 where "FCSR \<equiv> 0x003"
abbreviation CYCLE :: u16 where "CYCLE \<equiv> 0xC00"
abbreviation TIME :: u16 where "TIME \<equiv> 0xC01"
abbreviation INSTRET :: u16 where "INSTRET \<equiv> 0xC02"
abbreviation CYCLEH :: u16 where "CYCLEH \<equiv> 0xC80"
abbreviation TIMEH :: u16 where "TIMEH \<equiv> 0xC81"
abbreviation INSTRETH :: u16 where "INSTRETH \<equiv> 0xC82"
abbreviation SSTATUS :: u16 where "SSTATUS \<equiv> 0x100"
abbreviation SIE :: u16 where "SIE \<equiv> 0x104"
abbreviation STVEC :: u16 where "STVEC \<equiv> 0x105"
abbreviation SCOUNTEREN :: u16 where "SCOUNTEREN \<equiv> 0x106"
abbreviation SSCRATCH :: u16 where "SSCRATCH \<equiv> 0x140"
abbreviation SEPC :: u16 where "SEPC \<equiv> 0x141"
abbreviation SCAUSE :: u16 where "SCAUSE \<equiv> 0x142"
abbreviation STVAL :: u16 where "STVAL \<equiv> 0x143"
abbreviation SIP :: u16 where "SIP \<equiv> 0x144"
abbreviation SATP :: u16 where "SATP \<equiv> 0x180"
abbreviation MVENDORID :: u16 where "MVENDORID \<equiv> 0xF11"
abbreviation MARCHID :: u16 where "MARCHID \<equiv> 0xF12"
abbreviation MIMPID :: u16 where "MIMPID \<equiv> 0xF13"
abbreviation MHARTID :: u16 where "MHARTID \<equiv> 0xF14"
abbreviation MSTATUS :: u16 where "MSTATUS \<equiv> 0x300"
abbreviation MISA :: u16 where "MISA \<equiv> 0x301"
abbreviation MEDELEG :: u16 where "MEDELEG \<equiv> 0x302"
abbreviation MIDELEG :: u16 where "MIDELEG \<equiv> 0x303"
abbreviation MIE :: u16 where "MIE \<equiv> 0x304"
abbreviation MTVEC :: u16 where "MTVEC \<equiv> 0x305"
abbreviation MCOUNTEREN :: u16 where "MCOUNTEREN \<equiv> 0x306"
abbreviation MSTATUSH :: u16 where "MSTATUSH \<equiv> 0x310"
abbreviation MCOUNTINHIBIT :: u16 where "MCOUNTINHIBIT \<equiv> 0x320"
abbreviation MSCRATCH :: u16 where "MSCRATCH \<equiv> 0x340"
abbreviation MEPC :: u16 where "MEPC \<equiv> 0x341"
abbreviation MCAUSE :: u16 where "MCAUSE \<equiv> 0x342"
abbreviation MTVAL :: u16 where "MTVAL \<equiv> 0x343"
abbreviation MIP :: u16 where "MIP \<equiv> 0x344"
abbreviation MCYCLE :: u16 where "MCYCLE \<equiv> 0xB00"
abbreviation MINSTRET :: u16 where "MINSTRET \<equiv> 0xB02"
abbreviation MCYCLEH :: u16 where "MCYCLEH \<equiv> 0xB80"
abbreviation MINSTRETH :: u16 where "MINSTRETH \<equiv> 0xB82"

section \<open>Fields of mstatus, fcsr and the interrupt registers\<close>

abbreviation ST_SIE :: u64 where "ST_SIE \<equiv> 0x2"
abbreviation ST_MIE :: u64 where "ST_MIE \<equiv> 0x8"
abbreviation ST_SPIE :: u64 where "ST_SPIE \<equiv> 0x20"
abbreviation ST_MPIE :: u64 where "ST_MPIE \<equiv> 0x80"
abbreviation ST_SPP :: u64 where "ST_SPP \<equiv> 0x100"
abbreviation ST_MPP :: u64 where "ST_MPP \<equiv> 0x1800"
abbreviation ST_FS :: u64 where "ST_FS \<equiv> 0x6000"
abbreviation ST_XS :: u64 where "ST_XS \<equiv> 0x18000"
abbreviation ST_MPRV :: u64 where "ST_MPRV \<equiv> 0x20000"
abbreviation ST_SUM :: u64 where "ST_SUM \<equiv> 0x40000"
abbreviation ST_MXR :: u64 where "ST_MXR \<equiv> 0x80000"
abbreviation ST_TVM :: u64 where "ST_TVM \<equiv> 0x100000"
abbreviation ST_TW :: u64 where "ST_TW \<equiv> 0x200000"
abbreviation ST_TSR :: u64 where "ST_TSR \<equiv> 0x400000"
abbreviation ST_UXL :: u64 where "ST_UXL \<equiv> 0x300000000"
abbreviation ST_SXL :: u64 where "ST_SXL \<equiv> 0xC00000000"
abbreviation ST_SD :: u64 where "ST_SD \<equiv> 0x8000000000000000"

abbreviation MPP_SHIFT :: nat where "MPP_SHIFT \<equiv> 11"

definition ST_WRITABLE :: u64 where
  "ST_WRITABLE = ST_SIE OR ST_MIE OR ST_SPIE OR ST_MPIE OR ST_SPP OR ST_MPP OR ST_FS
     OR ST_MPRV OR ST_SUM OR ST_MXR OR ST_TVM OR ST_TW OR ST_TSR"

definition ST_S_VISIBLE :: u64 where
  "ST_S_VISIBLE = ST_SIE OR ST_SPIE OR ST_SPP OR ST_FS OR ST_XS OR ST_SUM OR ST_MXR
     OR ST_UXL OR ST_SD"

abbreviation FCSR_FLAGS :: u64 where "FCSR_FLAGS \<equiv> 0x1f"
abbreviation RM_SHIFT :: nat where "RM_SHIFT \<equiv> 5"
abbreviation FCSR_RM :: u64 where "FCSR_RM \<equiv> 0xe0"

definition FCSR_WRITABLE :: u64 where
  "FCSR_WRITABLE = FCSR_FLAGS OR FCSR_RM"

abbreviation SSIP :: u64 where "SSIP \<equiv> 0x2"
abbreviation MSIP :: u64 where "MSIP \<equiv> 0x8"
abbreviation STIP :: u64 where "STIP \<equiv> 0x20"
abbreviation MTIP :: u64 where "MTIP \<equiv> 0x80"
abbreviation SEIP :: u64 where "SEIP \<equiv> 0x200"
abbreviation MEIP :: u64 where "MEIP \<equiv> 0x800"

definition INT_S_VISIBLE :: u64 where
  "INT_S_VISIBLE = SSIP OR STIP OR SEIP"

definition INT_ALL :: u64 where
  "INT_ALL = SSIP OR MSIP OR STIP OR MTIP OR SEIP OR MEIP"

text \<open>The masks are spelled out in the source's terms and evaluate to these numbers.\<close>

lemma csr_masks:
  "ST_WRITABLE = 0x7e79aa" "ST_S_VISIBLE = 0x80000003000de122"
  "FCSR_WRITABLE = 0xff" "INT_S_VISIBLE = 0x222" "INT_ALL = 0xaaa"
  by (simp_all add: ST_WRITABLE_def ST_S_VISIBLE_def FCSR_WRITABLE_def INT_S_VISIBLE_def INT_ALL_def)

section \<open>The register file\<close>

record csrfile =
  csr_regs :: "u16 \<Rightarrow> u64"
  csr_xlen :: xlen

definition misa :: "xlen \<Rightarrow> u64" where
  "misa x =
    (let letters = push_bit 0 1 OR push_bit 2 1 OR push_bit 3 1 OR push_bit 5 1
                     OR push_bit 8 1 OR push_bit 12 1 OR push_bit 18 1 OR push_bit 20 1
     in case x of Rv32 \<Rightarrow> push_bit 30 1 OR letters | Rv64 \<Rightarrow> push_bit 62 2 OR letters)"

definition csr_new :: "xlen \<Rightarrow> csrfile" where
  "csr_new x =
    (let r = (\<lambda>_. 0)(MISA := misa x)
     in \<lparr>csr_regs = (if x = Rv64 then r(MSTATUS := push_bit 32 2 OR push_bit 34 2) else r),
         csr_xlen = x\<rparr>)"

definition set_xlen :: "xlen \<Rightarrow> csrfile \<Rightarrow> csrfile" where
  "set_xlen x f =
    (let r = (csr_regs f)(MISA := misa x);
         status = r MSTATUS AND NOT (ST_UXL OR ST_SXL)
     in \<lparr>csr_regs = r(MSTATUS := (case x of
                          Rv32 \<Rightarrow> status
                        | Rv64 \<Rightarrow> status OR push_bit 32 2 OR push_bit 34 2)),
         csr_xlen = x\<rparr>)"

definition csr_exists :: "csrfile \<Rightarrow> u16 \<Rightarrow> bool" where
  "csr_exists f addr \<longleftrightarrow>
     addr \<in> {FFLAGS, FRM, FCSR, CYCLE, TIME, INSTRET, SSTATUS, SIE, STVEC, SCOUNTEREN,
             SSCRATCH, SEPC, SCAUSE, STVAL, SIP, SATP, MVENDORID, MARCHID, MIMPID, MHARTID,
             MSTATUS, MISA, MEDELEG, MIDELEG, MIE, MTVEC, MCOUNTEREN, MCOUNTINHIBIT,
             MSCRATCH, MEPC, MCAUSE, MTVAL, MIP, MCYCLE, MINSTRET}
     \<or> (0x3A0 \<le> addr \<and> addr \<le> 0x3AF)
     \<or> (0x3B0 \<le> addr \<and> addr \<le> 0x3EF)
     \<or> (csr_xlen f = Rv32 \<and> addr \<in> {MSTATUSH, MCYCLEH, MINSTRETH, CYCLEH, TIMEH, INSTRETH})"

definition csr_accessible :: "u16 \<Rightarrow> priv \<Rightarrow> bool \<Rightarrow> bool" where
  "csr_accessible addr mode write \<longleftrightarrow>
    (let required = priv_from_bits (ucast (drop_bit 8 addr AND 0x3))
     in if mode < required then False
        else \<not> (write \<and> drop_bit 10 addr AND 0x3 = 0x3))"

definition csr_status :: "csrfile \<Rightarrow> u64" where
  "csr_status f =
    (let v = csr_regs f MSTATUS
     in if v AND ST_FS = ST_FS \<or> v AND ST_XS = ST_XS then v OR ST_SD else v AND NOT ST_SD)"

definition csr_read_value :: "csrfile \<Rightarrow> u16 \<Rightarrow> u64" where
  "csr_read_value f addr =
    (if addr = FFLAGS then csr_regs f FCSR AND FCSR_FLAGS
     else if addr = FRM then drop_bit RM_SHIFT (csr_regs f FCSR AND FCSR_RM)
     else if addr = SSTATUS then csr_status f AND ST_S_VISIBLE
     else if addr = MSTATUS then csr_status f
     else if addr = SIE then csr_regs f MIE AND INT_S_VISIBLE
     else if addr = SIP then csr_regs f MIP AND INT_S_VISIBLE
     else if addr = CYCLE then csr_regs f MCYCLE
     else if addr = INSTRET then csr_regs f MINSTRET
     else if addr = CYCLEH then drop_bit 32 (csr_regs f MCYCLE)
     else if addr = TIMEH then drop_bit 32 (csr_regs f TIME)
     else if addr = INSTRETH then drop_bit 32 (csr_regs f MINSTRET)
     else if addr = MCYCLEH then drop_bit 32 (csr_regs f MCYCLE)
     else if addr = MINSTRETH then drop_bit 32 (csr_regs f MINSTRET)
     else if addr = MSTATUSH then drop_bit 32 (csr_status f)
     else csr_regs f addr)"

definition csr_read :: "csrfile \<Rightarrow> u16 \<Rightarrow> u64" where
  "csr_read f addr =
    (let v = csr_read_value f addr
     in if csr_xlen f = Rv32 then v AND 0xffffffff else v)"

definition csr_force :: "u16 \<Rightarrow> u64 \<Rightarrow> csrfile \<Rightarrow> csrfile" where
  "csr_force addr value f = f\<lparr>csr_regs := (csr_regs f)(addr := value)\<rparr>"

definition csr_set_bits :: "u16 \<Rightarrow> u64 \<Rightarrow> csrfile \<Rightarrow> csrfile" where
  "csr_set_bits addr v f = f\<lparr>csr_regs := (csr_regs f)(addr := csr_regs f addr OR v)\<rparr>"

definition csr_clear_bits :: "u16 \<Rightarrow> u64 \<Rightarrow> csrfile \<Rightarrow> csrfile" where
  "csr_clear_bits addr v f = f\<lparr>csr_regs := (csr_regs f)(addr := csr_regs f addr AND NOT v)\<rparr>"

text \<open>\<open>masked_write old mask value\<close> is the source's \<^verbatim>\<open>(old & !mask) | (value & mask)\<close>.\<close>

abbreviation masked_write :: "u64 \<Rightarrow> u64 \<Rightarrow> u64 \<Rightarrow> u64" where
  "masked_write old m value \<equiv> (old AND NOT m) OR (value AND m)"

definition satp_supported :: "xlen \<Rightarrow> u64 \<Rightarrow> bool" where
  "satp_supported x value =
    (let mode = (case x of Rv32 \<Rightarrow> drop_bit 31 value | Rv64 \<Rightarrow> drop_bit 60 value AND 0xf)
     in case x of Rv32 \<Rightarrow> mode \<le> 1 | Rv64 \<Rightarrow> mode = 0 \<or> mode = 8)"

definition csr_write :: "u16 \<Rightarrow> u64 \<Rightarrow> csrfile \<Rightarrow> csrfile" where
  "csr_write addr value f =
    (let r = csr_regs f
     in if addr = FCSR then csr_force FCSR (value AND FCSR_WRITABLE) f
        else if addr = FFLAGS then csr_force FCSR (masked_write (r FCSR) FCSR_FLAGS value) f
        else if addr = FRM then
          csr_force FCSR ((r FCSR AND NOT FCSR_RM) OR (push_bit RM_SHIFT value AND FCSR_RM)) f
        else if addr = MSTATUS then
          csr_force MSTATUS (masked_write (r MSTATUS) ST_WRITABLE value) f
        else if addr = SSTATUS then
          csr_force MSTATUS (masked_write (r MSTATUS) (ST_WRITABLE AND ST_S_VISIBLE) value) f
        else if addr = SIE then csr_force MIE (masked_write (r MIE) INT_S_VISIBLE value) f
        else if addr = MIE then csr_force MIE (value AND INT_ALL) f
        else if addr = SIP then csr_force MIP (masked_write (r MIP) SSIP value) f
        else if addr = MIP then csr_force MIP (masked_write (r MIP) (SSIP OR MSIP OR STIP) value) f
        else if addr = MEPC \<or> addr = SEPC then csr_force addr (value AND NOT 1) f
        else if addr = MTVEC \<or> addr = STVEC then
          csr_force addr (if value AND 0x3 > 1 then value AND NOT 0x3 else value) f
        else if addr = MISA then f
        else if addr = SATP then
          (if satp_supported (csr_xlen f) value then csr_force SATP value f else f)
        else if addr = MCYCLEH then
          csr_force MCYCLE (push_bit 32 value OR (r MCYCLE AND 0xffffffff)) f
        else if addr = MINSTRETH then
          csr_force MINSTRET (push_bit 32 value OR (r MINSTRET AND 0xffffffff)) f
        else if addr = CYCLE then csr_force MCYCLE value f
        else if addr = INSTRET then csr_force MINSTRET value f
        else if addr = MSTATUSH then
          csr_force MSTATUS (push_bit 32 value OR (r MSTATUS AND 0xffffffff)) f
        else csr_force addr value f)"

section \<open>Reading back the hart's own updates\<close>

lemma csr_force_simps [simp]:
  "csr_regs (csr_force a v f) = (csr_regs f)(a := v)"
  "csr_xlen (csr_force a v f) = csr_xlen f"
  by (simp_all add: csr_force_def)

lemma csr_set_bits_simps [simp]:
  "csr_regs (csr_set_bits a v f) = (csr_regs f)(a := csr_regs f a OR v)"
  "csr_xlen (csr_set_bits a v f) = csr_xlen f"
  by (simp_all add: csr_set_bits_def)

lemma csr_clear_bits_simps [simp]:
  "csr_regs (csr_clear_bits a v f) = (csr_regs f)(a := csr_regs f a AND NOT v)"
  "csr_xlen (csr_clear_bits a v f) = csr_xlen f"
  by (simp_all add: csr_clear_bits_def)

lemma csr_write_xlen [simp]: "csr_xlen (csr_write a v f) = csr_xlen f"
  by (simp add: csr_write_def Let_def)

text \<open>Reading \<open>mstatus\<close> back changes none of its low bits, at either width.\<close>

lemma csr_read_status_low:
  assumes "k AND 0xffffffff = k"
  shows "csr_read f MSTATUS AND k = csr_regs f MSTATUS AND k"
proof -
  have "ST_SD AND k = 0"
    by (subst assms [symmetric]) (simp add: and.left_commute [of ST_SD])
  with and_disjoint_not [OF this] have "csr_status f AND k = csr_regs f MSTATUS AND k"
    by (simp add: csr_status_def Let_def word_ao_dist and.assoc)
  then show ?thesis
    using assms by (simp add: csr_read_def csr_read_value_def Let_def and.assoc and.commute [of k])
qed


lemma masked_write_and: "m AND k = 0 \<Longrightarrow> masked_write old m v AND k = old AND k"
  by (simp add: word_ao_dist and.assoc and_disjoint_not)

text \<open>An address without a window or a derived field reads as the array does, at the width.\<close>

lemma csr_read_plain:
  "a \<notin> {FFLAGS, FRM, SSTATUS, MSTATUS, SIE, SIP, CYCLE, INSTRET, CYCLEH, TIMEH, INSTRETH, MCYCLEH,
         MINSTRETH, MSTATUSH} \<Longrightarrow>
   csr_read f a = trunc (csr_regs f a) (xlen_bits (csr_xlen f))"
  by (cases "csr_xlen f") (simp_all add: csr_read_def csr_read_value_def trunc_def Let_def)

lemma status_fields:
  "csr_read f MSTATUS AND ST_SIE = csr_regs f MSTATUS AND ST_SIE"
  "csr_read f MSTATUS AND ST_MIE = csr_regs f MSTATUS AND ST_MIE"
  "csr_read f MSTATUS AND ST_SPIE = csr_regs f MSTATUS AND ST_SPIE"
  "csr_read f MSTATUS AND ST_MPIE = csr_regs f MSTATUS AND ST_MPIE"
  "csr_read f MSTATUS AND ST_SPP = csr_regs f MSTATUS AND ST_SPP"
  "csr_read f MSTATUS AND ST_MPP = csr_regs f MSTATUS AND ST_MPP"
  by (rule csr_read_status_low; simp)+

section \<open>Legal values\<close>

text \<open>
  What every WARL field of the file may hold: no flag or interrupt bit that does not exist, even
  return addresses, a vector mode that is direct or vectored, a paging mode the MMU can walk, and
  the \<open>misa\<close> of the width.
\<close>

definition paging_mode_exists :: "xlen \<Rightarrow> u64 \<Rightarrow> bool" where
  "paging_mode_exists x satp = (case x of Rv32 \<Rightarrow> satp < 2 ^ 32 | Rv64 \<Rightarrow> drop_bit 60 satp \<in> {0, 8})"

definition csr_legal :: "csrfile \<Rightarrow> bool" where
  "csr_legal f \<longleftrightarrow>
     csr_regs f FCSR AND NOT 0xff = 0 \<and> csr_regs f MIE AND NOT 0xaaa = 0
     \<and> csr_regs f MEPC AND 1 = 0 \<and> csr_regs f SEPC AND 1 = 0
     \<and> csr_regs f MTVEC AND 2 = 0 \<and> csr_regs f STVEC AND 2 = 0
     \<and> paging_mode_exists (csr_xlen f) (csr_regs f SATP)
     \<and> csr_regs f MISA = (case csr_xlen f of Rv32 \<Rightarrow> 0x4014112d | Rv64 \<Rightarrow> 0x800000000014112d)"

text \<open>
  The register a number writes, the bits of it that a write reaches, and how far the value is
  shifted to meet them. Every other bit keeps what it holds.
\<close>

definition csr_window :: "u16 \<Rightarrow> u16 \<times> u64 \<times> nat" where
  "csr_window a =
     (if a = 0x001 then (0x003, 0x1f, 0) else if a = 0x002 then (0x003, 0xe0, 5)
      else if a = 0x003 then (0x003, 0xff, 0)
      else if a = 0x300 then (0x300, 0x7e79aa, 0) else if a = 0x100 then (0x300, 0xc6122, 0)
      else if a = 0x310 then (0x300, NOT 0xffffffff, 32)
      else if a = 0x304 then (0x304, 0xaaa, 0) else if a = 0x104 then (0x304, 0x222, 0)
      else if a = 0x344 then (0x344, 0x2a, 0) else if a = 0x144 then (0x344, 0x2, 0)
      else if a = 0x341 \<or> a = 0x141 then (a, NOT 1, 0)
      else if a = 0x301 then (0x301, 0, 0)
      else if a = 0xC00 then (0xB00, - 1, 0) else if a = 0xC02 then (0xB02, - 1, 0)
      else if a = 0xB80 then (0xB00, NOT 0xffffffff, 32) else if a = 0xB82 then (0xB02, NOT 0xffffffff, 32)
      else (a, - 1, 0))"

lemma reserved_mode:
  "(v :: u64) AND 2 = 0 \<longleftrightarrow> \<not> bit v 1" "(v :: u64) AND 3 \<le> 1 \<longleftrightarrow> \<not> bit v 1"
proof -
  show 2: "v AND 2 = 0 \<longleftrightarrow> \<not> bit v 1" using and_exp_eq_0_iff_not_bit [of v 1] by simp
  have "v AND 3 = (v AND 2) OR (v AND 1)" by (simp flip: bit.conj_disj_distrib)
  then show 3: "v AND 3 \<le> 1 \<longleftrightarrow> \<not> bit v 1"
    using 2 and_bit_cases [of v 1] and_bit_cases [of v 0] by auto
qed

lemma cleared_mode: "\<not> bit (v AND - 4 :: u64) (Suc 0)"
  using reserved_mode(1) [of "v AND - 4"] by (simp add: and.assoc)

lemma paging_mode_supported: "satp_supported x v \<longleftrightarrow> paging_mode_exists x v"
proof (cases x)
  case Rv32
  have "drop_bit 31 v \<le> 1 \<longleftrightarrow> v < 2 ^ 32"
    by (simp add: word_le_nat_alt word_less_nat_alt drop_bit_eq_div unat_div) arith
  with Rv32 show ?thesis by (simp add: satp_supported_def paging_mode_exists_def)
next
  case Rv64
  have "take_bit 4 (drop_bit 60 v) = drop_bit 60 v"
    by (rule bit_word_eqI) (auto simp: bit_simps dest: bit_imp_le_length)
  then have "drop_bit 60 v AND 0xf = drop_bit 60 v" by (simp add: and_numeral_take_bit)
  with Rv64 show ?thesis by (simp add: satp_supported_def paging_mode_exists_def Let_def)
qed

lemma csr_new_legal: "csr_legal (csr_new x)"
  by (cases x) (simp_all add: csr_legal_def csr_new_def paging_mode_exists_def misa_def Let_def)

lemma write_keeps_legal:
  assumes "csr_legal f"
  shows "csr_legal (csr_write a v f)"
  using assms unfolding csr_write_def Let_def
  by (simp add: csr_legal_def csr_masks word_ao_dist and.assoc not_less paging_mode_supported reserved_mode cleared_mode)

lemma csr_write_window:
  assumes "csr_legal f"
  shows "csr_write a v f =
     (if a \<in> {0x305, 0x105} \<and> bit v 1 then csr_force a (v AND NOT 3) f
      else if a = 0x180 \<and> \<not> paging_mode_exists (csr_xlen f) v then f
      else let (r, reached, shift) = csr_window a
           in csr_force r ((csr_regs f r AND NOT reached) OR (push_bit shift v AND reached)) f)"
proof -
  have zero: "csr_regs f FCSR AND NOT 0xff = 0" "csr_regs f MIE AND NOT 0xaaa = 0" "csr_regs f MEPC AND 1 = 0" "csr_regs f SEPC AND 1 = 0"
    using assms by (simp_all add: csr_legal_def)
  have mode: "1 < v AND 3 \<longleftrightarrow> bit v 1" by (simp add: reserved_mode flip: not_le)
  have upper: "push_bit 32 v AND - 4294967296 = push_bit 32 v" for v :: u64
  proof -
    have "push_bit 32 v AND NOT (mask 32) = push_bit 32 v"
      by (rule bit_word_eqI) (auto simp: bit_simps)
    moreover have "NOT (mask 32) = (- 4294967296 :: u64)" by code_simp
    ultimately show ?thesis by simp
  qed
  show ?thesis
  proof (cases "a \<in> {FFLAGS, FRM, FCSR, MSTATUS, SSTATUS, MSTATUSH, MIE, SIE, MIP, SIP, MEPC, SEPC, MISA, CYCLE, INSTRET,
      MCYCLEH, MINSTRETH}")
    case True
    then show ?thesis
      using zero
      by (elim insertE emptyE) (simp_all add: csr_write_def csr_window_def Let_def csr_masks upper csr_force_def or.commute)
  next
    case False
    then show ?thesis
      by (auto simp: csr_write_def csr_window_def Let_def paging_mode_supported mode)
  qed
qed



text \<open>
  The supervisor's windows onto the machine registers are transparent where they are open
  and opaque where they are not: what is written through \<open>sstatus\<close>, \<open>sie\<close> and \<open>sip\<close>
  reads back through the same window, and no other bit of \<open>mstatus\<close>, \<open>mie\<close> or \<open>mip\<close>
  changes.
\<close>

theorem supervisor_windows:
  "let w = ST_WRITABLE AND ST_S_VISIBLE
   in csr_read (csr_write SSTATUS v f) SSTATUS AND w = v AND w
      \<and> csr_regs (csr_write SSTATUS v f) MSTATUS AND NOT w = csr_regs f MSTATUS AND NOT w
      \<and> csr_read (csr_write SIE v f) SIE = v AND INT_S_VISIBLE
      \<and> csr_regs (csr_write SIE v f) MIE AND NOT INT_S_VISIBLE = csr_regs f MIE AND NOT INT_S_VISIBLE
      \<and> csr_read (csr_write SIP v f) SIP AND SSIP = v AND SSIP
      \<and> csr_regs (csr_write SIP v f) MIP AND NOT SSIP = csr_regs f MIP AND NOT SSIP"
  by (simp add: csr_write_def csr_masks csr_read_def csr_read_value_def csr_status_def Let_def
      word_ao_dist and.assoc)

end
