(* ===== verification/Mmu.thy ===== *)
theory Mmu
  imports Memory Csr
begin

text \<open>
  Sv32 and Sv39 translation, \<^verbatim>\<open>emu/src/mmu.rs\<close>. \<open>mmu_walk\<close> is the source's loop over the
  levels, counting down; \<open>mmu_leaf\<close> is the part of its body that handles a leaf entry. The
  walk reads and writes physical memory, so it is a program over the memory. The page tables
  as a function of the address, and the walk as their refinement, follow; then that a walk
  repeated, or made for another address of the page, agrees with the first.
\<close>

abbreviation PAGE_SIZE :: u64 where "PAGE_SIZE \<equiv> 4096"
abbreviation PTE_V :: u64 where "PTE_V \<equiv> 0x01"
abbreviation PTE_R :: u64 where "PTE_R \<equiv> 0x02"
abbreviation PTE_W :: u64 where "PTE_W \<equiv> 0x04"
abbreviation PTE_X :: u64 where "PTE_X \<equiv> 0x08"
abbreviation PTE_U :: u64 where "PTE_U \<equiv> 0x10"
abbreviation PTE_A :: u64 where "PTE_A \<equiv> 0x40"
abbreviation PTE_D :: u64 where "PTE_D \<equiv> 0x80"
abbreviation PPN_SHIFT :: nat where "PPN_SHIFT \<equiv> 10"

datatype mmu_mode = Bare | Sv32 | Sv39

definition mode_of :: "u64 \<Rightarrow> xlen \<Rightarrow> mmu_mode" where
  "mode_of satp x =
    (if x = Rv32 \<and> drop_bit 31 satp = 1 then Sv32
     else if x = Rv64 \<and> drop_bit 60 satp AND 0xf = 8 then Sv39
     else Bare)"

definition shape :: "mmu_mode \<Rightarrow> nat \<times> nat \<times> nat" where
  "shape md = (case md of Sv32 \<Rightarrow> (2, 10, 4) | Sv39 \<Rightarrow> (3, 9, 8) | Bare \<Rightarrow> (0, 0, 0))"

definition vpn_bits :: "mmu_mode \<Rightarrow> nat" where
  "vpn_bits md = fst (snd (shape md))"

definition pte_size :: "mmu_mode \<Rightarrow> nat" where
  "pte_size md = snd (snd (shape md))"

definition ppn_mask :: "mmu_mode \<Rightarrow> u64" where
  "ppn_mask md = (if md = Sv32 then 0x3fffff else 0xfffffffffff)"

definition effective_mode :: "u64 \<Rightarrow> priv \<Rightarrow> access \<Rightarrow> priv" where
  "effective_mode status mode acc =
    (if acc \<noteq> Fetch \<and> status AND ST_MPRV \<noteq> 0
     then priv_from_bits (drop_bit MPP_SHIFT (status AND ST_MPP))
     else mode)"

definition mmu_user_ok :: "priv \<Rightarrow> u64 \<Rightarrow> access \<Rightarrow> u64 \<Rightarrow> bool" where
  "mmu_user_ok eff status acc pte =
    (if eff = User \<and> pte AND PTE_U = 0 then False
     else if eff = Supervisor \<and> pte AND PTE_U \<noteq> 0 \<and> (acc = Fetch \<or> status AND ST_SUM = 0) then False
     else True)"

definition mmu_permitted :: "u64 \<Rightarrow> access \<Rightarrow> u64 \<Rightarrow> bool" where
  "mmu_permitted status acc pte =
    (case acc of
       Fetch \<Rightarrow> pte AND PTE_X \<noteq> 0
     | Load \<Rightarrow> pte AND PTE_R \<noteq> 0 \<or> (status AND ST_MXR \<noteq> 0 \<and> pte AND PTE_X \<noteq> 0)
     | Store \<Rightarrow> pte AND PTE_W \<noteq> 0)"

definition pte_need :: "access \<Rightarrow> u64" where
  "pte_need acc = PTE_A OR (if acc = Store then PTE_D else 0)"

definition splice_ppn :: "mmu_mode \<Rightarrow> nat \<Rightarrow> u64 \<Rightarrow> u64 \<Rightarrow> u64" where
  "splice_ppn md level ppn va =
    (let split = vpn_bits md * level;
         pa_ppn = (ppn AND NOT (push_bit split 1 - 1)) OR (drop_bit 12 va AND (push_bit split 1 - 1))
     in pa_ppn * PAGE_SIZE + (va AND (PAGE_SIZE - 1)))"

definition mmu_leaf ::
  "mmu_mode \<Rightarrow> priv \<Rightarrow> u64 \<Rightarrow> u64 \<Rightarrow> access \<Rightarrow> nat \<Rightarrow> u64 \<Rightarrow> u64 \<Rightarrow> (memory, exception, u64) prog" where
  "mmu_leaf md eff status va acc level pte_addr pte =
    (let fault = page_fault acc va;
         ppn = drop_bit PPN_SHIFT pte AND ppn_mask md
     in if \<not> mmu_user_ok eff status acc pte then raise fault
        else if \<not> mmu_permitted status acc pte then raise fault
        else if level > 0 \<and> ppn AND (push_bit (vpn_bits md * level) 1 - 1) \<noteq> 0 then raise fault
        else bindE
          (if pte AND pte_need acc \<noteq> pte_need acc
           then map_err (\<lambda>_. fault) (mem_write pte_addr (pte_size md) (pte OR pte_need acc))
           else ret ())
          (\<lambda>_. ret (splice_ppn md level ppn va)))"

fun mmu_walk ::
  "mmu_mode \<Rightarrow> priv \<Rightarrow> u64 \<Rightarrow> u64 \<Rightarrow> access \<Rightarrow> nat \<Rightarrow> u64 \<Rightarrow> (memory, exception, u64) prog" where
  "mmu_walk md eff status va acc 0 table = raise (page_fault acc va)"
| "mmu_walk md eff status va acc (Suc level) table =
    (let fault = page_fault acc va;
         vpn = drop_bit (12 + vpn_bits md * level) va AND (push_bit (vpn_bits md) 1 - 1);
         pte_addr = table + vpn * of_nat (pte_size md)
     in bindE (map_err (\<lambda>_. fault) (mem_read pte_addr (pte_size md)))
          (\<lambda>pte.
             if pte AND PTE_V = 0 \<or> (pte AND PTE_R = 0 \<and> pte AND PTE_W \<noteq> 0) then raise fault
             else if pte AND (PTE_R OR PTE_X) = 0 then
               (if level = 0 then raise fault
                else mmu_walk md eff status va acc level
                       ((drop_bit PPN_SHIFT pte AND ppn_mask md) * PAGE_SIZE))
             else mmu_leaf md eff status va acc level pte_addr pte))"

definition mmu_translate ::
  "xlen \<Rightarrow> u64 \<Rightarrow> u64 \<Rightarrow> priv \<Rightarrow> u64 \<Rightarrow> access \<Rightarrow> (memory, exception, u64) prog" where
  "mmu_translate x satp status mode va acc =
    (let eff = effective_mode status mode acc; scheme = mode_of satp x
     in if scheme = Bare \<or> eff = Machine then ret va
        else if scheme = Sv39 \<and> signed_drop_bit 38 va \<noteq> 0 \<and> signed_drop_bit 38 va \<noteq> - 1
        then raise (page_fault acc va)
        else mmu_walk scheme eff status va acc (fst (shape scheme))
               ((satp AND ppn_mask scheme) * PAGE_SIZE))"

section \<open>The page tables as a function\<close>

text \<open>
  What the tables in memory say of an address, apart from how the walk goes about it:
  \<open>find_leaf\<close> is the leaf entry that maps it, with its level and place, or \<open>NoLeaf\<close>;
  \<open>Outside\<close> stands for tables that lie in device space, whose reads have effects.
  \<open>grants\<close> are the conditions of the privileged specification on a leaf, and \<open>marked\<close> is the
  memory with the accessed and dirty bits set.
\<close>

datatype leaf = Leaf nat u64 u64 | NoLeaf | Outside

definition pte_valid :: "u64 \<Rightarrow> bool" where
  "pte_valid pte \<longleftrightarrow> pte AND PTE_V \<noteq> 0 \<and> (pte AND PTE_W \<noteq> 0 \<longrightarrow> pte AND PTE_R \<noteq> 0)"

definition pte_points :: "u64 \<Rightarrow> bool" where
  "pte_points pte \<longleftrightarrow> pte AND PTE_R = 0 \<and> pte AND PTE_X = 0"

definition pte_address :: "mmu_mode \<Rightarrow> u64 \<Rightarrow> nat \<Rightarrow> u64 \<Rightarrow> u64" where
  "pte_address md va l table =
     table + take_bit (vpn_bits md) (drop_bit (12 + vpn_bits md * l) va) * of_nat (pte_size md)"

fun find_leaf :: "mmu_mode \<Rightarrow> memory \<Rightarrow> u64 \<Rightarrow> nat \<Rightarrow> u64 \<Rightarrow> leaf" where
  "find_leaf md m va 0 table = NoLeaf"
| "find_leaf md m va (Suc l) table =
     (let a = pte_address md va l table
      in if a < DRAM_BASE then Outside
         else case fst (mem_read a (pte_size md) m) of
                Inl _ \<Rightarrow> NoLeaf
              | Inr pte \<Rightarrow>
                  if \<not> pte_valid pte then NoLeaf
                  else if \<not> pte_points pte then Leaf l a pte
                  else find_leaf md m va l ((drop_bit PPN_SHIFT pte AND ppn_mask md) * PAGE_SIZE))"

definition grants :: "mmu_mode \<Rightarrow> priv \<Rightarrow> u64 \<Rightarrow> access \<Rightarrow> nat \<Rightarrow> u64 \<Rightarrow> bool" where
  "grants md eff status acc l pte \<longleftrightarrow>
     (eff = User \<longrightarrow> pte AND PTE_U \<noteq> 0)
     \<and> (eff = Supervisor \<and> pte AND PTE_U \<noteq> 0 \<longrightarrow> acc \<noteq> Fetch \<and> status AND ST_SUM \<noteq> 0)
     \<and> (acc = Fetch \<longrightarrow> pte AND PTE_X \<noteq> 0)
     \<and> (acc = Load \<longrightarrow> pte AND PTE_R \<noteq> 0 \<or> status AND ST_MXR \<noteq> 0 \<and> pte AND PTE_X \<noteq> 0)
     \<and> (acc = Store \<longrightarrow> pte AND PTE_W \<noteq> 0)
     \<and> take_bit (vpn_bits md * l) (drop_bit PPN_SHIFT pte AND ppn_mask md) = 0"

definition marked :: "mmu_mode \<Rightarrow> access \<Rightarrow> u64 \<Rightarrow> u64 \<Rightarrow> memory \<Rightarrow> memory" where
  "marked md acc a pte m =
     (if pte AND pte_need acc = pte_need acc then m
      else snd (mem_write a (pte_size md) (pte OR pte_need acc) m))"

definition mapped :: "mmu_mode \<Rightarrow> nat \<Rightarrow> u64 \<Rightarrow> u64 \<Rightarrow> u64" where
  "mapped md l pte va =
     (let split = 12 + vpn_bits md * l
      in push_bit 12 (drop_bit PPN_SHIFT pte AND ppn_mask md) AND NOT (mask split) OR take_bit split va)"

lemma mem_read_dram_pure: "\<not> a < DRAM_BASE \<Longrightarrow> snd (mem_read a n m) = m"
  by (auto simp: mem_read_def not_less split: option.split)

lemma mem_write_after_read:
  "\<not> a < DRAM_BASE \<Longrightarrow> fst (mem_read a n m) = Inr v \<Longrightarrow> \<exists>t. mem_write a n w m = (Inr (), t)"
  by (auto simp: mem_read_def mem_write_def not_less Let_def split: option.splits if_splits)

lemma page_parts: "x * PAGE_SIZE + (va AND (PAGE_SIZE - 1)) = push_bit 12 x OR take_bit 12 (va :: u64)"
proof -
  have "x * PAGE_SIZE = push_bit 12 x" "va AND (PAGE_SIZE - 1) = take_bit 12 va"
    by (simp_all add: push_bit_eq_mult take_bit_eq_mask mask_eq_exp_minus_1)
  moreover have "push_bit 12 x AND take_bit 12 va = 0"
    by (rule bit_word_eqI) (auto simp: bit_simps)
  ultimately show ?thesis by (simp only: disjunctive_add_eq_or)
qed

lemma splice_mapped: "splice_ppn md l (drop_bit PPN_SHIFT pte AND ppn_mask md) va = mapped md l pte va"
proof -
  let ?s = "vpn_bits md * l"
  have m: "v AND NOT (push_bit ?s 1 - 1) = v AND NOT (mask ?s)" "v AND (push_bit ?s 1 - 1) = v AND mask ?s" for v :: u64
    by (simp_all add: mask_eq_exp_minus_1)
  show ?thesis
    unfolding splice_ppn_def mapped_def Let_def m page_parts
    by (rule bit_word_eqI) (auto simp: bit_simps)
qed

lemma leaf_run:
  "mmu_leaf md eff status va acc l a pte m =
     (if \<not> grants md eff status acc l pte then (Inl (page_fault acc va), m)
      else if pte AND pte_need acc = pte_need acc then (Inr (mapped md l pte va), m)
      else case mem_write a (pte_size md) (pte OR pte_need acc) m of
             (Inl _, t) \<Rightarrow> (Inl (page_fault acc va), t)
           | (Inr _, t) \<Rightarrow> (Inr (mapped md l pte va), t))"
proof -
  let ?ppn = "drop_bit PPN_SHIFT pte AND ppn_mask md"
  have ok: "grants md eff status acc l pte \<longleftrightarrow>
     mmu_user_ok eff status acc pte \<and> mmu_permitted status acc pte \<and> \<not> (l > 0 \<and> take_bit (vpn_bits md * l) ?ppn \<noteq> 0)"
    by (cases acc; cases eff; cases l) (auto simp: grants_def mmu_user_ok_def mmu_permitted_def)
  show ?thesis
    unfolding mmu_leaf_def Let_def and_mask_take_bit splice_mapped ok
    by (simp add: bindE_def map_err_def split: prod.split sum.split)
qed

lemma leaf_step:
  assumes "\<not> a < DRAM_BASE" and "mem_read a (pte_size md) m = (Inr pte, m)"
  shows "mmu_leaf md eff status va acc l a pte m =
     (if grants md eff status acc l pte then (Inr (mapped md l pte va), marked md acc a pte m)
      else (Inl (page_fault acc va), m))"
proof -
  obtain t where "mem_write a (pte_size md) (pte OR pte_need acc) m = (Inr (), t)"
    using mem_write_after_read assms by fastforce
  then show ?thesis by (simp add: leaf_run marked_def)
qed

lemma pte_tests:
  "pte AND PTE_V = 0 \<or> (pte AND PTE_R = 0 \<and> pte AND PTE_W \<noteq> 0) \<longleftrightarrow> \<not> pte_valid pte"
  "pte AND (PTE_R OR PTE_X) = 0 \<longleftrightarrow> pte_points pte"
  by (auto simp only: pte_valid_def pte_points_def bit.conj_disj_distrib or_eq_0_iff)

lemma walk_unfold:
  "mmu_walk md eff status va acc (Suc l) table m =
     (case mem_read (pte_address md va l table) (pte_size md) m of
        (Inl _, t) \<Rightarrow> (Inl (page_fault acc va), t)
      | (Inr pte, t) \<Rightarrow>
          if \<not> pte_valid pte then (Inl (page_fault acc va), t)
          else if \<not> pte_points pte then mmu_leaf md eff status va acc l (pte_address md va l table) pte t
          else mmu_walk md eff status va acc l ((drop_bit PPN_SHIFT pte AND ppn_mask md) * PAGE_SIZE) t)"
proof -
  have a: "table + (drop_bit (12 + vpn_bits md * l) va AND (push_bit (vpn_bits md) 1 - 1)) * of_nat (pte_size md)
             = pte_address md va l table"
    by (simp only: pte_address_def and_mask_take_bit)
  obtain r t where r: "mem_read (pte_address md va l table) (pte_size md) m = (r, t)" by fastforce
  show ?thesis
    unfolding mmu_walk.simps Let_def a pte_tests bindE_def map_err_def r
    by (cases r; cases l) simp_all
qed

lemma walk_step:
  assumes "mem_read (pte_address md va l table) (pte_size md) m = (r, m)"
  shows "mmu_walk md eff status va acc (Suc l) table m =
    (case r of
       Inl _ \<Rightarrow> (Inl (page_fault acc va), m)
     | Inr pte \<Rightarrow>
         if \<not> pte_valid pte then (Inl (page_fault acc va), m)
         else if \<not> pte_points pte then mmu_leaf md eff status va acc l (pte_address md va l table) pte m
         else mmu_walk md eff status va acc l ((drop_bit PPN_SHIFT pte AND ppn_mask md) * PAGE_SIZE) m)"
  by (simp add: walk_unfold assms split: sum.split del: mmu_walk.simps)

lemma walk_spec:
  assumes "find_leaf md m va l table \<noteq> Outside"
  shows "mmu_walk md eff status va acc l table m =
     (case find_leaf md m va l table of
        Leaf k a pte \<Rightarrow>
          if grants md eff status acc k pte then (Inr (mapped md k pte va), marked md acc a pte m)
          else (Inl (page_fault acc va), m)
      | _ \<Rightarrow> (Inl (page_fault acc va), m))"
  using assms
proof (induction l arbitrary: table)
  case (Suc l)
  let ?a = "pte_address md va l table"
  have dram: "\<not> ?a < DRAM_BASE" using Suc.prems by (auto simp: Let_def split: if_splits)
  obtain r where r: "mem_read ?a (pte_size md) m = (r, m)"
    using mem_read_dram_pure [OF dram] by (metis prod.collapse)
  show ?case
  proof (cases r)
    case (Inr pte)
    let ?next = "(drop_bit PPN_SHIFT pte AND ppn_mask md) * PAGE_SIZE"
    have found: "find_leaf md m va (Suc l) table =
        (if \<not> pte_valid pte then NoLeaf else if \<not> pte_points pte then Leaf l ?a pte
         else find_leaf md m va l ?next)"
      using dram by (simp add: Let_def r Inr)
    have leaf: "mmu_leaf md eff status va acc l ?a pte m =
       (if grants md eff status acc l pte then (Inr (mapped md l pte va), marked md acc ?a pte m)
        else (Inl (page_fault acc va), m))"
      using leaf_step [OF dram] r Inr by simp
    show ?thesis
    proof (cases "pte_valid pte \<and> pte_points pte")
      case True
      then show ?thesis
        using Suc.IH [of ?next] Suc.prems
        by (simp add: walk_step [OF r] Inr found del: mmu_walk.simps find_leaf.simps)
    next
      case False
      then show ?thesis
        by (auto simp: walk_step [OF r] Inr found leaf simp del: mmu_walk.simps find_leaf.simps)
    qed
  next
    case (Inl e)
    have "find_leaf md m va (Suc l) table = NoLeaf"
      using dram by (simp add: Let_def r Inl)
    then show ?thesis by (simp add: walk_step [OF r] Inl del: mmu_walk.simps find_leaf.simps)
  qed
qed simp

section \<open>Translation\<close>

definition canonical_address :: "mmu_mode \<Rightarrow> u64 \<Rightarrow> bool" where
  "canonical_address md va \<longleftrightarrow> (md = Sv39 \<longrightarrow> signed_take_bit 38 va = va)"

definition translation ::
  "mmu_mode \<Rightarrow> priv \<Rightarrow> u64 \<Rightarrow> u64 \<Rightarrow> access \<Rightarrow> leaf \<Rightarrow> memory \<Rightarrow> (exception + u64) \<times> memory" where
  "translation md eff status va acc lf m =
    (if md = Bare \<or> eff = Machine then (Inr va, m)
     else case lf of
       Leaf k a pte \<Rightarrow>
         if canonical_address md va \<and> grants md eff status acc k pte
         then (Inr (mapped md k pte va), marked md acc a pte m)
         else (Inl (page_fault acc va), m)
     | _ \<Rightarrow> (Inl (page_fault acc va), m))"

lemma tail_equal:
  "(\<forall>n<N. P (if n < k then n else k) = P n) \<longleftrightarrow> (\<forall>n\<in>{k..<N}. P n = P (k :: nat))"
proof
  assume a: "\<forall>n<N. P (if n < k then n else k) = P n"
  show "\<forall>n\<in>{k..<N}. P n = P k"
  proof
    fix n assume "n \<in> {k..<N}"
    then show "P n = P k" using spec [OF a, of n] by simp
  qed
next
  assume a: "\<forall>n\<in>{k..<N}. P n = P k"
  show "\<forall>n<N. P (if n < k then n else k) = P n"
  proof (intro allI impI)
    fix n assume "n < N"
    then show "P (if n < k then n else k) = P n" using bspec [OF a, of n] by (cases "n < k") simp_all
  qed
qed

lemma word64_eq_bits: "a = b \<longleftrightarrow> (\<forall>n<64. bit a n = bit (b :: u64) n)"
  by (auto intro: bit_word_eqI)

lemma sign_extended_38: "signed_take_bit 38 va = va \<longleftrightarrow> (\<forall>n\<in>{38..<64}. bit (va :: u64) n = bit va 38)"
proof -
  have "bit (signed_take_bit 38 va) n = bit va (if n < 38 then n else 38)" if "n < 64" for n
    using that by (simp add: bit_signed_take_bit_iff min_def)
  then show ?thesis unfolding word64_eq_bits by (simp only: tail_equal cong: all_cong)
qed

lemma signed_top:
  "signed_drop_bit 38 va \<noteq> 0 \<and> signed_drop_bit 38 va \<noteq> - 1 \<longleftrightarrow> signed_take_bit 38 va \<noteq> (va :: u64)"
proof -
  have top: "bit (signed_drop_bit 38 va) n = bit va (if n < 26 then n + 38 else 63)" if "n < 64" for n
    using that by (cases "n < 26") (simp_all add: bit_simps add.commute [of 38])
  have all: "(\<forall>n<64. P (if n < 26 then n + 38 else (63::nat))) \<longleftrightarrow> (\<forall>n\<in>{38..<64}. P n)" for P
  proof
    assume a: "\<forall>n<64. P (if n < 26 then n + 38 else (63::nat))"
    show "\<forall>n\<in>{38..<64}. P n"
    proof
      fix n :: nat assume "n \<in> {38..<64}"
      then have "n - 38 < 26" "n - 38 + 38 = n" by auto
      then show "P n" using a [rule_format, of "n - 38"] by simp
    qed
  qed auto
  have "signed_drop_bit 38 va = 0 \<longleftrightarrow> (\<forall>n\<in>{38..<64}. \<not> bit va n)"
    unfolding word64_eq_bits using all [of "\<lambda>n. \<not> bit va n"] by (simp add: top)
  moreover have "signed_drop_bit 38 va = - 1 \<longleftrightarrow> (\<forall>n\<in>{38..<64}. bit va n)"
    unfolding word64_eq_bits using all [of "bit va"] by (simp add: top)
  moreover have "(38::nat) \<in> {38..<64}" by simp
  ultimately show ?thesis unfolding sign_extended_38 by blast
qed

definition root_table :: "mmu_mode \<Rightarrow> u64 \<Rightarrow> u64" where
  "root_table md satp = (satp AND ppn_mask md) * PAGE_SIZE"

definition leaf_of :: "xlen \<Rightarrow> u64 \<Rightarrow> u64 \<Rightarrow> memory \<Rightarrow> leaf" where
  "leaf_of x satp va m =
     (let md = mode_of satp x in find_leaf md m va (fst (shape md)) (root_table md satp))"

lemma translate_run:
  "mmu_translate x satp status mode va acc m =
     (let md = mode_of satp x; eff = effective_mode status mode acc
      in if md = Bare \<or> eff = Machine then (Inr va, m)
         else if \<not> canonical_address md va then (Inl (page_fault acc va), m)
         else mmu_walk md eff status va acc (fst (shape md)) (root_table md satp) m)"
  unfolding mmu_translate_def Let_def signed_top canonical_address_def root_table_def by simp

lemma mmu_translate_translation:
  assumes "leaf_of x satp va m \<noteq> Outside"
  shows "mmu_translate x satp status mode va acc m =
     translation (mode_of satp x) (effective_mode status mode acc) status va acc (leaf_of x satp va m) m"
proof -
  let ?md = "mode_of satp x"
  show ?thesis
    using assms walk_spec [of ?md m va "fst (shape ?md)" "root_table ?md satp" "effective_mode status mode acc" status acc]
    unfolding translate_run leaf_of_def Let_def by (auto simp: translation_def split: leaf.split)
qed

text \<open>
  C7. Address translation computes what the page tables say: for tables in DRAM, the result,
  the fault and the memory left behind are those of the leaf entry that maps the address.
\<close>

theorem translate_refines_page_tables:
  assumes "leaf_of x satp va m \<noteq> Outside"
  shows "mmu_translate x satp status mode va acc m =
     translation (mode_of satp x) (effective_mode status mode acc) status va acc (leaf_of x satp va m) m"
  using assms by (rule mmu_translate_translation)

definition one_page :: "u8 \<Rightarrow> memory" where
  "one_page flags = (mem_new 4)\<lparr>dram := [flags, 0, 0, 0x20]\<rparr>"

lemma one_page_reads:
  "mem_read 0x80000000 4 (one_page f) = (Inr (ucast f OR 0x20000000), one_page f)"
  by (simp add: mem_read_def mem_index_def one_page_def slice_of_def mem_new_def)

lemma one_page_leaf:
  "find_leaf Sv32 (one_page 0xcf) 0x1234 2 0x80000000 = Leaf 1 0x80000000 0x200000cf"
  "find_leaf Sv32 (one_page 0xdf) 0x1234 2 0x80000000 = Leaf 1 0x80000000 0x200000df"
proof -
  have a: "pte_address Sv32 0x1234 1 0x80000000 = 0x80000000"
    by (simp add: pte_address_def vpn_bits_def pte_size_def shape_def)
  show
    "find_leaf Sv32 (one_page 0xcf) 0x1234 2 0x80000000 = Leaf 1 0x80000000 0x200000cf"
    "find_leaf Sv32 (one_page 0xdf) 0x1234 2 0x80000000 = Leaf 1 0x80000000 0x200000df"
    unfolding numeral_2_eq_2 find_leaf.simps Let_def One_nat_def [symmetric] a
    by (simp_all add: pte_size_def shape_def one_page_reads pte_valid_def pte_points_def)
qed

theorem translate_refines_page_tables_witness:
  "mmu_translate Rv32 0x80080000 0 User 0x1234 Store (one_page 0xdf)
     = (Inr 0x80001234, one_page 0xdf)
   \<and> fst (mmu_translate Rv32 0x80080000 0 User 0x1234 Store (one_page 0xcf))
     = Inl (StorePageFault 0x1234)"
proof -
  have md: "mode_of 0x80080000 Rv32 = Sv32" by (simp add: mode_of_def)
  have eff: "effective_mode 0 User Store = User" by (simp add: effective_mode_def)
  have leaf: "leaf_of Rv32 0x80080000 0x1234 (one_page 0xdf) = Leaf 1 0x80000000 0x200000df"
    "leaf_of Rv32 0x80080000 0x1234 (one_page 0xcf) = Leaf 1 0x80000000 0x200000cf"
    by (simp_all add: leaf_of_def md root_table_def ppn_mask_def shape_def one_page_leaf)
  show ?thesis
    using translate_refines_page_tables [of Rv32 "0x80080000" "0x1234" "one_page 0xdf" 0 User Store]
      translate_refines_page_tables [of Rv32 "0x80080000" "0x1234" "one_page 0xcf" 0 User Store]
    by (simp add: md eff leaf translation_def canonical_address_def grants_def marked_def mapped_def vpn_bits_def
       shape_def ppn_mask_def pte_need_def mask_eq_exp_minus_1 page_fault_def)
qed

lemma mapped_offset: "take_bit 12 (mapped md k pte va) = take_bit 12 va"
  unfolding mapped_def Let_def by (rule bit_word_eqI) (auto simp: bit_simps)

lemma mem_write_fails: "mem_write a n v m = (Inl e, t) \<Longrightarrow> dram t = dram m \<and> clint t = clint m"
  by (auto simp: mem_write_def Let_def split: option.splits if_splits)

section \<open>The entries a walk reads\<close>

text \<open>
  The entries a walk reads, wherever the tables lie: \<open>read_leaf md va l table m k a pte t\<close> says that
  reading \<open>l\<close> levels of tables from \<open>table\<close> on in memory \<open>m\<close> comes to the leaf entry \<open>pte\<close> at address \<open>a\<close> of
  level \<open>k\<close>, and leaves the memory \<open>t\<close>, which differs from \<open>m\<close> only in what reading a device changes.
\<close>

inductive read_leaf :: "mmu_mode \<Rightarrow> u64 \<Rightarrow> nat \<Rightarrow> u64 \<Rightarrow> memory \<Rightarrow> nat \<Rightarrow> u64 \<Rightarrow> u64 \<Rightarrow> memory \<Rightarrow> bool" for md va where
  leaf: "mem_read (pte_address md va l table) (pte_size md) m = (Inr pte, t) \<Longrightarrow> pte_valid pte \<Longrightarrow> \<not> pte_points pte \<Longrightarrow>
         read_leaf md va (Suc l) table m l (pte_address md va l table) pte t"
| pointer: "mem_read (pte_address md va l table) (pte_size md) m = (Inr pte, t) \<Longrightarrow> pte_valid pte \<Longrightarrow> pte_points pte \<Longrightarrow>
         read_leaf md va l ((drop_bit PPN_SHIFT pte AND ppn_mask md) * PAGE_SIZE) t k a leaf u \<Longrightarrow>
         read_leaf md va (Suc l) table m k a leaf u"

inductive_simps no_levels: "read_leaf md va 0 table m k a pte t"
inductive_simps some_levels: "read_leaf md va (Suc l) table m k a pte t"

lemma read_leaf_keeps: "read_leaf md va l table m k a pte t \<Longrightarrow> dram t = dram m \<and> clint t = clint m"
proof (induction rule: read_leaf.induct)
  case (leaf l table m pte t)
  then show ?case using mem_read_keeps [of "pte_address md va l table" "pte_size md" m] by simp
next
  case (pointer l table m pte t k a leaf u)
  then show ?case using mem_read_keeps [of "pte_address md va l table" "pte_size md" m] by simp
qed

lemma read_leaf_unique:
  "read_leaf md va l table m k a pte t \<Longrightarrow> read_leaf md va l table m k' a' pte' t' \<Longrightarrow> (k', a', pte', t') = (k, a, pte, t)"
  by (induction rule: read_leaf.induct) (auto simp: some_levels)

lemma walk_to_leaf:
  "read_leaf md va l table m k a pte t \<Longrightarrow> mmu_walk md eff status va acc l table m = mmu_leaf md eff status va acc k a pte t"
  by (induction rule: read_leaf.induct) (simp_all add: walk_unfold del: mmu_walk.simps)

lemma walk_without_leaf:
  assumes "\<nexists>k a pte t. read_leaf md va l table m k a pte t"
  obtains t where "mmu_walk md eff status va acc l table m = (Inl (page_fault acc va), t)" and "dram t = dram m" "clint t = clint m"
  using assms
proof (induction l arbitrary: table m thesis)
  case (Suc l)
  obtain r u where r: "mem_read (pte_address md va l table) (pte_size md) m = (r, u)" by fastforce
  then have u: "dram u = dram m" "clint u = clint m"
    using mem_read_keeps [of "pte_address md va l table" "pte_size md" m] by simp_all
  show ?case
  proof (cases r)
    case (Inl e)
    then show ?thesis using Suc.prems(1) u by (simp add: walk_unfold r del: mmu_walk.simps)
  next
    case (Inr pte)
    let ?next = "(drop_bit PPN_SHIFT pte AND ppn_mask md) * PAGE_SIZE"
    have leaf: "\<not> pte_valid pte \<or> pte_points pte"
      using Suc.prems(2) r Inr by (auto simp: some_levels)
    show ?thesis
    proof (cases "pte_valid pte")
      case True
      then have "pte_points pte" using leaf by simp
      then have "\<nexists>k a pte t. read_leaf md va l ?next u k a pte t"
        using Suc.prems(2) r Inr True by (auto simp: some_levels)
      then obtain t where "mmu_walk md eff status va acc l ?next u = (Inl (page_fault acc va), t)" "dram t = dram u" "clint t = clint u"
        using Suc.IH [of ?next u] by blast
      then show ?thesis using Suc.prems(1) u True \<open>pte_points pte\<close> by (simp add: walk_unfold r Inr del: mmu_walk.simps)
    next
      case False
      then show ?thesis using Suc.prems(1) u by (simp add: walk_unfold r Inr del: mmu_walk.simps)
    qed
  qed
qed simp

definition used_bits :: "access \<Rightarrow> u64" where
  "used_bits acc = (if acc = Store then 0xc0 else 0x40)"

lemma translation_reads_leaf:
  fixes x satp status mode va acc m
  defines "md \<equiv> mode_of satp x" and "eff \<equiv> effective_mode status mode acc"
  assumes "md \<noteq> Bare" and "eff \<noteq> Machine"
  shows "case mmu_translate x satp status mode va acc m of
     (Inr pa, t) \<Rightarrow> canonical_address md va \<and>
       (\<exists>k a pte u. read_leaf md va (fst (shape md)) (root_table md satp) m k a pte u
          \<and> grants md eff status acc k pte \<and> pa = mapped md k pte va \<and> take_bit 12 pa = take_bit 12 va
          \<and> (if pte AND used_bits acc = used_bits acc then t = u
             else mem_write a (pte_size md) (pte OR used_bits acc) u = (Inr (), t)))
   | (Inl e, t) \<Rightarrow> e = page_fault acc va \<and> dram t = dram m \<and> clint t = clint m
       \<and> \<not> (canonical_address md va \<and>
       (\<exists>k a pte u. read_leaf md va (fst (shape md)) (root_table md satp) m k a pte u
          \<and> grants md eff status acc k pte
          \<and> (pte AND used_bits acc = used_bits acc
             \<or> fst (mem_write a (pte_size md) (pte OR used_bits acc) u) = Inr ())))"
proof (cases "canonical_address md va \<and> (\<exists>k a pte u. read_leaf md va (fst (shape md)) (root_table md satp) m k a pte u)")
  case True
  then obtain k a pte u where leaf: "read_leaf md va (fst (shape md)) (root_table md satp) m k a pte u" by blast
  have need: "pte_need acc = used_bits acc" by (simp add: pte_need_def used_bits_def)
  have run: "mmu_translate x satp status mode va acc m = mmu_leaf md eff status va acc k a pte u"
    using True assms walk_to_leaf [OF leaf] unfolding translate_run Let_def md_def [symmetric] eff_def [symmetric] by simp
  obtain w t where w: "mem_write a (pte_size md) (pte OR used_bits acc) u = (w, t)" by fastforce
  have only: "read_leaf md va (fst (shape md)) (root_table md satp) m k' a' p' u' \<longleftrightarrow> k' = k \<and> a' = a \<and> p' = pte \<and> u' = u"
    for k' a' p' u'
  proof
    assume "read_leaf md va (fst (shape md)) (root_table md satp) m k' a' p' u'"
    from read_leaf_unique [OF leaf this] show "k' = k \<and> a' = a \<and> p' = pte \<and> u' = u" by simp
  qed (simp add: leaf)
  have kept: "dram u = dram m" "clint u = clint m" using read_leaf_keeps [OF leaf] by simp_all
  show ?thesis
  proof (cases w)
    case (Inl e)
    then have "dram t = dram u" "clint t = clint u"
      using mem_write_fails [of a "pte_size md" "pte OR used_bits acc" u e t] w by simp_all
    then show ?thesis
      unfolding run leaf_run need w only Inl using True kept by (simp add: mapped_offset w Inl)
  next
    case (Inr x)
    show ?thesis
      unfolding run leaf_run need w only Inr using True kept by (simp add: mapped_offset w Inr)
  qed
next
  case False
  obtain t where run: "mmu_translate x satp status mode va acc m = (Inl (page_fault acc va), t)"
    and t: "dram t = dram m" "clint t = clint m"
  proof (cases "canonical_address md va")
    case True
    then obtain t where "mmu_walk md eff status va acc (fst (shape md)) (root_table md satp) m = (Inl (page_fault acc va), t)"
      and "dram t = dram m" "clint t = clint m"
      using False walk_without_leaf [of md va "fst (shape md)" "root_table md satp" m eff status acc] by metis
    then show ?thesis
      using that True assms(3,4) unfolding translate_run Let_def md_def [symmetric] eff_def [symmetric] by simp
  next
    case False
    then show ?thesis
      using that [of m] assms(3,4) unfolding translate_run Let_def md_def [symmetric] eff_def [symmetric] by simp
  qed
  have "\<not> (canonical_address md va \<and> (\<exists>k a pte u. read_leaf md va (fst (shape md)) (root_table md satp) m k a pte u \<and> P k a pte u))" for P
    using False by blast
  then show ?thesis using t by (simp only: run prod.case sum.case simp_thms)
qed

text \<open>
  C8. A translation under paging succeeds exactly by a leaf entry that the walk reads, at whatever
  address the tables lie: for a canonical address, an entry that grants the access and whose accessed
  and dirty bits are set already or can be written. The result is the frame of that entry with the
  offset of the address, and memory is as the reads left it, but for those bits. Otherwise the result
  is the page fault of the access at the address, and DRAM and the timer are as they were.
\<close>

theorem translation_is_granted_or_faults:
  fixes x satp status mode va acc m
  defines "md \<equiv> mode_of satp x" and "eff \<equiv> effective_mode status mode acc"
  assumes "md \<noteq> Bare" and "eff \<noteq> Machine"
  shows "case mmu_translate x satp status mode va acc m of
     (Inr pa, t) \<Rightarrow> canonical_address md va \<and>
       (\<exists>k a pte u. read_leaf md va (fst (shape md)) (root_table md satp) m k a pte u
          \<and> grants md eff status acc k pte \<and> pa = mapped md k pte va \<and> take_bit 12 pa = take_bit 12 va
          \<and> (if pte AND used_bits acc = used_bits acc then t = u
             else mem_write a (pte_size md) (pte OR used_bits acc) u = (Inr (), t)))
   | (Inl e, t) \<Rightarrow> e = page_fault acc va \<and> dram t = dram m \<and> clint t = clint m
       \<and> \<not> (canonical_address md va \<and>
       (\<exists>k a pte u. read_leaf md va (fst (shape md)) (root_table md satp) m k a pte u
          \<and> grants md eff status acc k pte
          \<and> (pte AND used_bits acc = used_bits acc
             \<or> fst (mem_write a (pte_size md) (pte OR used_bits acc) u) = Inr ())))"
  using assms(3,4) unfolding md_def eff_def by (rule translation_reads_leaf)

lemma one_page_entry:
  "read_leaf Sv32 0x1234 2 0x80000000 (one_page f) k a pte t
     \<longleftrightarrow> k = 1 \<and> a = 0x80000000 \<and> pte = ucast f OR 0x20000000 \<and> t = one_page f"
  if "pte_valid (ucast f OR 0x20000000)" and "\<not> pte_points (ucast f OR 0x20000000)"
proof -
  have a: "pte_address Sv32 0x1234 1 0x80000000 = 0x80000000"
    by (simp add: pte_address_def vpn_bits_def pte_size_def shape_def)
  have r: "mem_read 0x80000000 (pte_size Sv32) (one_page f) = (Inr (ucast f OR 0x20000000), one_page f)"
    by (simp add: pte_size_def shape_def one_page_reads)
  show ?thesis
    unfolding numeral_2_eq_2 some_levels One_nat_def [symmetric] a r using that by auto
qed

theorem translation_is_granted_or_faults_witness:
  "mmu_translate Rv32 0x80080000 0 User 0x1234 Store (one_page 0xdf) = (Inr 0x80001234, one_page 0xdf)
   \<and> fst (mmu_translate Rv32 0x80080000 0 User 0x1234 Store (one_page 0xcf)) = Inl (StorePageFault 0x1234)"
proof -
  have md: "mode_of 0x80080000 Rv32 = Sv32" by (simp add: mode_of_def)
  have eff: "effective_mode 0 User Store = User" by (simp add: effective_mode_def)
  have root: "root_table Sv32 0x80080000 = 0x80000000" "fst (shape Sv32) = 2"
    by (simp_all add: root_table_def ppn_mask_def shape_def)
  have paged: "mode_of 0x80080000 Rv32 \<noteq> Bare" "effective_mode 0 User Store \<noteq> Machine" by (simp_all add: md eff)
  note entry = one_page_entry [of "0xdf"] one_page_entry [of "0xcf"]
  note t = translation_is_granted_or_faults [OF paged, of "0x1234" "one_page 0xdf", unfolded md eff root]
    translation_is_granted_or_faults [OF paged, of "0x1234" "one_page 0xcf", unfolded md eff root]
  show ?thesis
    using t entry
    by (auto simp: pte_valid_def pte_points_def used_bits_def grants_def canonical_address_def mapped_def vpn_bits_def shape_def
       ppn_mask_def mask_eq_exp_minus_1 page_fault_def split: prod.splits sum.splits)
qed

lemma translate_offset:
  assumes "mmu_translate x satp status mode va acc m = (Inr pa, t)"
  shows "take_bit 12 pa = take_bit 12 va"
proof (cases "mode_of satp x = Bare \<or> effective_mode status mode acc = Machine")
  case True
  then show ?thesis using assms by (auto simp: translate_run Let_def)
next
  case False
  then show ?thesis
    using translation_reads_leaf [of satp x status mode acc va m] assms by auto
qed

section \<open>Translating again\<close>

definition pte_log :: "mmu_mode \<Rightarrow> nat" where
  "pte_log md = (if md = Sv32 then 2 else 3)"

lemma pte_size_log: "md \<noteq> Bare \<Longrightarrow> pte_size md = 2 ^ pte_log md"
  by (cases md) (simp_all add: pte_size_def shape_def pte_log_def)

lemma page_aligned: "md \<noteq> Bare \<Longrightarrow> take_bit (pte_log md) (x * PAGE_SIZE) = 0"
proof -
  assume "md \<noteq> Bare"
  have "x * PAGE_SIZE = push_bit 12 x" by (simp add: push_bit_eq_mult)
  then show ?thesis by (simp add: pte_log_def take_bit_push_bit)
qed

lemma take_bit_push_add: "take_bit k (a :: u64) = 0 \<Longrightarrow> take_bit k (a + push_bit k v) = 0"
  by (simp add: take_bit_eq_0_iff push_bit_eq_mult)

lemma pte_address_aligned:
  assumes "md \<noteq> Bare" and "take_bit (pte_log md) table = 0"
  shows "take_bit (pte_log md) (pte_address md va l table) = 0"
proof -
  have "v * of_nat (pte_size md) = push_bit (pte_log md) v" for v :: u64
    using assms(1) by (simp add: pte_size_log push_bit_eq_mult)
  then show ?thesis using assms(2) by (simp add: pte_address_def take_bit_push_add)
qed

lemma aligned_apart:
  fixes a b :: u64
  assumes "take_bit k a = 0" and "take_bit k b = 0" and "a \<noteq> b"
  shows "unat a + 2 ^ k \<le> unat b \<or> unat b + 2 ^ k \<le> unat a"
proof -
  have "2 ^ k dvd unat a" "2 ^ k dvd unat b"
    using assms(1,2) by (metis unsigned_0 take_bit_eq_0_iff unsigned_take_bit_eq)+
  then obtain i j where ij: "unat a = 2 ^ k * i" "unat b = 2 ^ k * j" by (auto elim!: dvdE)
  moreover have "unat a \<noteq> unat b" using assms(3) by (simp add: word_unat_eq_iff)
  ultimately have "i < j \<or> j < i" by (metis nat_neq_iff)
  then have "Suc i \<le> j \<or> Suc j \<le> i" by auto
  then show ?thesis
    unfolding ij by (metis mult_le_mono2 mult_Suc_right add.commute)
qed

lemma pte_read_in_dram:
  assumes "md \<noteq> Bare" and "\<not> a < DRAM_BASE" and "fst (mem_read a (pte_size md) m) = Inr pte"
  shows "in_dram m a (pte_size md)"
  using assms by (auto simp: mem_read_def in_dram_def mem_index_def Let_def not_less split: option.splits if_splits)

lemma need_flags:
  "(pte OR pte_need acc) AND PTE_V = pte AND PTE_V"
  "(pte OR pte_need acc) AND PTE_R = pte AND PTE_R"
  "(pte OR pte_need acc) AND PTE_W = pte AND PTE_W"
  "(pte OR pte_need acc) AND PTE_X = pte AND PTE_X"
  "(pte OR pte_need acc) AND PTE_U = pte AND PTE_U"
  "drop_bit PPN_SHIFT (pte OR pte_need acc) = drop_bit PPN_SHIFT pte"
  by (simp_all add: pte_need_def word_ao_dist)

lemma need_keeps:
  "pte_valid (pte OR pte_need acc) = pte_valid pte"
  "pte_points (pte OR pte_need acc) = pte_points pte"
  "grants md eff status acc k (pte OR pte_need acc) = grants md eff status acc k pte"
  "mapped md k (pte OR pte_need acc) va = mapped md k pte va"
  by (simp_all only: pte_valid_def pte_points_def grants_def mapped_def need_flags)

lemma find_leaf_facts:
  assumes "md \<noteq> Bare" and "find_leaf md m va l table = Leaf k a pte" and "take_bit (pte_log md) table = 0"
  shows "in_dram m a (pte_size md) \<and> fst (mem_read a (pte_size md) m) = Inr pte \<and> pte_valid pte
     \<and> \<not> pte_points pte \<and> take_bit (pte_log md) a = 0"
  using assms
proof (induction l arbitrary: table)
  case (Suc l)
  then show ?case
    using pte_read_in_dram [OF \<open>md \<noteq> Bare\<close>] page_aligned [OF \<open>md \<noteq> Bare\<close>] pte_address_aligned [OF \<open>md \<noteq> Bare\<close>]
    by (auto simp: Let_def split: if_splits sum.splits)
qed simp

lemma read_bounded:
  assumes "in_dram m a n" and "addressable m" and "fst (mem_read a n m) = Inr v"
  shows "take_bit (8 * n) v = v"
proof -
  let ?bs = "slice_of (unat (a - DRAM_BASE)) n (dram m)"
  have "length ?bs = n" "n \<le> 8" using assms(1) by (auto simp: in_dram_def)
  moreover have "v = from_le ?bs" using assms by (simp add: dram_read)
  ultimately show ?thesis using from_le_bound [of ?bs] by simp
qed

lemma marked_reads:
  assumes md: "md \<noteq> Bare" and m: "addressable m" and a: "in_dram m a (pte_size md)"
    and pte: "fst (mem_read a (pte_size md) m) = Inr pte" and aligned: "take_bit (pte_log md) a = 0"
  shows "fst (mem_read a (pte_size md) (marked md acc a pte m)) = Inr (pte OR pte_need acc)" (is ?same)
    and "\<lbrakk>take_bit (pte_log md) b = 0; b \<noteq> a; in_dram m b (pte_size md)\<rbrakk> \<Longrightarrow>
           fst (mem_read b (pte_size md) (marked md acc a pte m)) = fst (mem_read b (pte_size md) m)"
proof -
  have "take_bit (8 * pte_size md) (pte_need acc) = pte_need acc"
    using md by (cases md) (simp_all add: pte_size_def shape_def pte_need_def)
  then have "take_bit (8 * pte_size md) (pte OR pte_need acc) = pte OR pte_need acc"
    using read_bounded [OF a m pte] by simp
  moreover have "pte AND pte_need acc = pte_need acc \<Longrightarrow> pte OR pte_need acc = pte"
    by (metis word_bw_comms(1) word_ao_absorbs(2) word_bw_comms(2))
  ultimately show ?same
    using pte dram.load_back [of m a "pte_size md" "pte OR pte_need acc"] a m by (simp add: marked_def)
  show "fst (mem_read b (pte_size md) (marked md acc a pte m)) = fst (mem_read b (pte_size md) m)"
    if "take_bit (pte_log md) b = 0" "b \<noteq> a" "in_dram m b (pte_size md)"
    using dram.load_apart [of m a "pte_size md" b] aligned_apart [OF aligned that(1)] a m that
    by (auto simp: marked_def pte_size_log [OF md])
qed

lemma find_leaf_marked:
  assumes md: "md \<noteq> Bare" and "addressable m"
    and "find_leaf md m va l table = Leaf k a pte" and "take_bit (pte_log md) table = 0"
  shows "find_leaf md (marked md acc a pte m) va l table = Leaf k a (pte OR pte_need acc)"
  using assms(3,4)
proof (induction l arbitrary: table)
  case (Suc l)
  let ?b = "pte_address md va l table" and ?t = "marked md acc a pte m"
  note leaf = find_leaf_facts [OF md Suc.prems]
  note reads = marked_reads [OF md \<open>addressable m\<close>, where a = a and pte = pte and acc = acc]
  obtain p where p: "\<not> ?b < DRAM_BASE" "fst (mem_read ?b (pte_size md) m) = Inr p" "pte_valid p"
    using Suc.prems by (auto simp: Let_def split: if_splits sum.splits)
  show ?case
  proof (cases "pte_points p")
    case True
    then have "?b \<noteq> a" using leaf p by auto
    then show ?thesis
      using True p Suc reads(2) [of ?b] leaf pte_read_in_dram [OF md p(1,2)] pte_address_aligned [OF md Suc.prems(2)] page_aligned [OF md]
      by (simp add: Let_def)
  next
    case False
    then show ?thesis using p Suc.prems reads(1) leaf by (auto simp: Let_def need_keeps)
  qed
qed simp

text \<open>
  Setting the accessed and dirty bits never disturbs the walk that set them, so a second walk
  finds the same leaf and changes nothing.
\<close>

lemma translate_stable:
  assumes "addressable m" and dram: "leaf_of x satp va m \<noteq> Outside"
    and ok: "mmu_translate x satp status mode va acc m = (Inr pa, t)"
  shows "mmu_translate x satp status mode va acc t = (Inr pa, t)"
proof -
  define md where "md = mode_of satp x"
  define eff where "eff = effective_mode status mode acc"
  let ?levels = "fst (shape md)" and ?root = "root_table md satp"
  note walk = walk_spec [of md _ va ?levels ?root eff status acc]
  show ?thesis
  proof (cases "md = Bare \<or> eff = Machine")
    case True
    then show ?thesis using ok by (auto simp: translate_run Let_def md_def eff_def)
  next
    case False
    then have run: "mmu_translate x satp status mode va acc n =
        (if canonical_address md va then mmu_walk md eff status va acc ?levels ?root n
         else (Inl (page_fault acc va), n))" for n
      by (simp add: translate_run Let_def md_def eff_def)
    then have w: "mmu_walk md eff status va acc ?levels ?root m = (Inr pa, t)" and can: "canonical_address md va"
      using ok by (simp_all split: if_splits)
    from False have md: "md \<noteq> Bare" by simp
    have out: "find_leaf md m va ?levels ?root \<noteq> Outside"
      using dram by (simp add: leaf_of_def md_def Let_def)
    then obtain k a pte where leaf: "find_leaf md m va ?levels ?root = Leaf k a pte"
      and g: "grants md eff status acc k pte" and pa: "pa = mapped md k pte va" and t: "t = marked md acc a pte m"
      using w walk [of m] by (auto split: leaf.splits if_splits)
    have leaf': "find_leaf md t va ?levels ?root = Leaf k a (pte OR pte_need acc)"
      using find_leaf_marked [OF md \<open>addressable m\<close> leaf] page_aligned [OF md] by (simp add: t root_table_def)
    have "(pte OR pte_need acc) AND pte_need acc = pte_need acc" by (simp add: word_ao_absorbs)
    then show ?thesis
      using can walk [of t] g by (simp add: run leaf' need_keeps pa marked_def)
  qed
qed

section \<open>The other addresses of the page\<close>

lemma same_page_drop: "drop_bit 12 va = drop_bit 12 vb \<Longrightarrow> drop_bit (12 + n) va = drop_bit (12 + n) (vb :: u64)"
  using drop_bit_drop_bit [of n 12 va] drop_bit_drop_bit [of n 12 vb] by (simp only: add.commute [of 12])

lemma same_page_bit:
  assumes "drop_bit 12 va = drop_bit 12 (vb :: u64)" and "12 \<le> n"
  shows "bit va n = bit vb n"
  using assms(2) arg_cong [OF assms(1), of "\<lambda>w. bit w (n - 12)"] by (simp add: bit_drop_bit_eq)

lemma same_page_leaf:
  assumes "drop_bit 12 va = drop_bit 12 (vb :: u64)"
  shows "leaf_of x satp va m = leaf_of x satp vb m"
proof -
  have "find_leaf md m va l table = find_leaf md m vb l table" for md l table
    by (induction l arbitrary: table) (simp_all add: pte_address_def same_page_drop [OF assms] Let_def split: sum.split)
  then show ?thesis by (simp add: leaf_of_def)
qed

lemma same_page_canonical:
  assumes "drop_bit 12 va = drop_bit 12 (vb :: u64)"
  shows "canonical_address md va = canonical_address md vb"
  unfolding canonical_address_def sign_extended_38 using same_page_bit [OF assms] by simp

definition in_page :: "u64 \<Rightarrow> u64 \<Rightarrow> u64" where
  "in_page pa va = (pa AND NOT (mask 12)) OR take_bit 12 va"

lemma same_page_mapped:
  assumes "drop_bit 12 va = drop_bit 12 (vb :: u64)"
  shows "mapped md k pte vb = in_page (mapped md k pte va) vb"
  unfolding mapped_def Let_def in_page_def using same_page_bit [OF assms]
  by (intro bit_word_eqI) (auto simp: bit_simps not_less)

lemma same_page_self: "drop_bit 12 va = drop_bit 12 (vb :: u64) \<Longrightarrow> in_page va vb = vb"
  unfolding in_page_def using same_page_bit [of va vb]
  by (intro bit_word_eqI) (auto simp: bit_simps not_less)

lemma translate_same_page:
  assumes page: "drop_bit 12 va = drop_bit 12 (vb :: u64)" and dram: "leaf_of x satp va m \<noteq> Outside"
    and ok: "mmu_translate x satp status mode va acc m = (Inr pa, t)"
  shows "mmu_translate x satp status mode vb acc m = (Inr (in_page pa vb), t)"
proof -
  define md where "md = mode_of satp x"
  let ?eff = "effective_mode status mode acc" and ?l = "fst (shape md)" and ?root = "root_table md satp"
  have out: "find_leaf md m va ?l ?root \<noteq> Outside" "find_leaf md m vb ?l ?root = find_leaf md m va ?l ?root"
    using dram same_page_leaf [OF page, of x satp m] by (simp_all add: leaf_of_def md_def Let_def)
  note walk = walk_spec [of md m _ ?l ?root ?eff status acc]
  show ?thesis
  proof (cases "md = Bare \<or> ?eff = Machine")
    case True
    then show ?thesis
      using ok same_page_self [OF page] by (auto simp: translate_run Let_def md_def)
  next
    case False
    then have w: "mmu_walk md ?eff status va acc ?l ?root m = (Inr pa, t)" and can: "canonical_address md va"
      using ok unfolding translate_run Let_def md_def [symmetric] by (simp_all split: if_splits)
    then obtain k a pte where leaf: "find_leaf md m va ?l ?root = Leaf k a pte"
      and g: "grants md ?eff status acc k pte" "pa = mapped md k pte va" "t = marked md acc a pte m"
      using walk [of va] out(1) by (auto split: leaf.splits if_splits)
    then have "mmu_walk md ?eff status vb acc ?l ?root m = (Inr (in_page pa vb), t)"
      using walk [of vb] out by (simp add: same_page_mapped [OF page])
    then show ?thesis
      using False can same_page_canonical [OF page] unfolding translate_run Let_def md_def [symmetric] by simp
  qed
qed

end
