(* ===== verification/Fpu.thy ===== *)
theory Fpu
  imports Prelude
begin

text \<open>
  Soft-float, \<^verbatim>\<open>emu/src/fpu.rs\<close>: formats, unpacking, the one rounding routine, and the
  operations that feed it. Significands are \<open>u128\<close> words, encodings \<open>u64\<close> words, flags \<open>u32\<close>
  words. An exponent, an \<open>i32\<close> in the source, is an \<open>int\<close>: every exponent the operations form
  lies between \<open>-4000\<close> and \<open>4000\<close>. \<^verbatim>\<open>leading_zeros\<close> is expressed by the length of the
  binary representation.
\<close>

abbreviation NX :: u32 where "NX \<equiv> 1"
abbreviation UF :: u32 where "UF \<equiv> 2"
abbreviation OF :: u32 where "OF \<equiv> 4"
abbreviation DZ :: u32 where "DZ \<equiv> 8"
abbreviation NV :: u32 where "NV \<equiv> 16"

datatype rm = Rne | Rtz | Rdn | Rup | Rmm

definition rm_from_bits :: "u32 \<Rightarrow> rm option" where
  "rm_from_bits v =
    (if v = 0 then Some Rne else if v = 1 then Some Rtz else if v = 2 then Some Rdn
     else if v = 3 then Some Rup else if v = 4 then Some Rmm else None)"

fun nat_len :: "nat \<Rightarrow> nat" where
  "nat_len n = (if n = 0 then 0 else Suc (nat_len (n div 2)))"

declare nat_len.simps [simp del]

section \<open>Formats\<close>

record fmt =
  fmt_bits :: nat
  fmt_sig :: nat

definition fmt_S :: fmt where "fmt_S = \<lparr>fmt_bits = 32, fmt_sig = 23\<rparr>"
definition fmt_D :: fmt where "fmt_D = \<lparr>fmt_bits = 64, fmt_sig = 52\<rparr>"

definition exp_bits :: "fmt \<Rightarrow> nat" where
  "exp_bits f = fmt_bits f - fmt_sig f - 1"

definition bias :: "fmt \<Rightarrow> int" where
  "bias f = 2 ^ (exp_bits f - 1) - 1"

definition max_field :: "fmt \<Rightarrow> u64" where
  "max_field f = push_bit (exp_bits f) 1 - 1"

definition sig_mask :: "fmt \<Rightarrow> u64" where
  "sig_mask f = push_bit (fmt_sig f) 1 - 1"

definition quiet_bit :: "fmt \<Rightarrow> u64" where
  "quiet_bit f = push_bit (fmt_sig f - 1) 1"

definition fmt_mask :: "fmt \<Rightarrow> u64" where
  "fmt_mask f = (if fmt_bits f \<ge> 64 then - 1 else push_bit (fmt_bits f) 1 - 1)"

definition sign_mask :: "fmt \<Rightarrow> u64" where
  "sign_mask f = push_bit (fmt_bits f - 1) 1"

definition fnan :: "fmt \<Rightarrow> u64" where
  "fnan f = push_bit (fmt_sig f) (max_field f) OR quiet_bit f"

definition finf :: "fmt \<Rightarrow> bool \<Rightarrow> u64" where
  "finf f neg = push_bit (fmt_sig f) (max_field f) OR (if neg then sign_mask f else 0)"

definition fzero :: "fmt \<Rightarrow> bool \<Rightarrow> u64" where
  "fzero f neg = (if neg then sign_mask f else 0)"

definition max_finite :: "fmt \<Rightarrow> bool \<Rightarrow> u64" where
  "max_finite f neg = push_bit (fmt_sig f) (max_field f - 1) OR sig_mask f OR fzero f neg"

definition min_e :: "fmt \<Rightarrow> int" where
  "min_e f = 1 - bias f - int (fmt_sig f)"

section \<open>Unpacking\<close>

datatype cls = CZero | CInf | CNan bool | CNum u128 int

definition unpack :: "fmt \<Rightarrow> u64 \<Rightarrow> bool \<times> cls" where
  "unpack f x0 =
    (let x = x0 AND fmt_mask f;
         sign = (x AND sign_mask f \<noteq> 0);
         field = drop_bit (fmt_sig f) x AND max_field f;
         frac = x AND sig_mask f;
         c = (if field = max_field f then
                (if frac = 0 then CInf else CNan (frac AND quiet_bit f = 0))
              else if field = 0 then
                (if frac = 0 then CZero
                 else (let shift = fmt_sig f + 1 - nat_len (unat frac)
                       in CNum (push_bit shift (ucast frac)) (min_e f - int shift)))
              else CNum (ucast (push_bit (fmt_sig f) 1 OR frac))
                        (int (unat field) - bias f - int (fmt_sig f)))
     in (sign, c))"

definition is_nan :: "cls \<Rightarrow> bool" where
  "is_nan c = (case c of CNan _ \<Rightarrow> True | _ \<Rightarrow> False)"

definition is_snan :: "cls \<Rightarrow> bool" where
  "is_snan c = (case c of CNan s \<Rightarrow> s | _ \<Rightarrow> False)"

section \<open>Rounding\<close>

definition bit_len :: "u128 \<Rightarrow> nat" where
  "bit_len m = nat_len (unat m)"

text \<open>
  The bits below position \<open>d\<close>, split into the guard bit and the sticky remainder; the same
  code stands in \<^verbatim>\<open>round_pack\<close> and in \<^verbatim>\<open>round_to_int\<close>.
\<close>

definition split_at :: "u128 \<Rightarrow> nat \<Rightarrow> u128 \<times> bool \<times> bool" where
  "split_at m d =
    (if d \<ge> 128 then (0, False, True)
     else let low = m AND (push_bit d 1 - 1)
          in (drop_bit d m, drop_bit (d - 1) low AND 1 \<noteq> 0, low AND (push_bit (d - 1) 1 - 1) \<noteq> 0))"

definition rounds_up :: "rm \<Rightarrow> bool \<Rightarrow> u128 \<Rightarrow> bool \<Rightarrow> bool \<Rightarrow> bool" where
  "rounds_up r sign q guard sticky =
    (let inexact = guard \<or> sticky
     in case r of
          Rne \<Rightarrow> guard \<and> (sticky \<or> q AND 1 = 1)
        | Rtz \<Rightarrow> False
        | Rdn \<Rightarrow> sign \<and> inexact
        | Rup \<Rightarrow> \<not> sign \<and> inexact
        | Rmm \<Rightarrow> guard)"

definition overflow_to_inf :: "rm \<Rightarrow> bool \<Rightarrow> bool" where
  "overflow_to_inf r sign =
    (case r of Rne \<Rightarrow> True | Rmm \<Rightarrow> True | Rtz \<Rightarrow> False | Rdn \<Rightarrow> sign | Rup \<Rightarrow> \<not> sign)"

definition round_pack :: "fmt \<Rightarrow> bool \<Rightarrow> u128 \<Rightarrow> int \<Rightarrow> rm \<Rightarrow> u64 \<times> u32" where
  "round_pack f sign m e r =
    (if m = 0 then (fzero f sign, 0)
     else
       let msb = int (bit_len m) - 1;
           lsb = max (msb + e - int (fmt_sig f)) (min_e f);
           discard = lsb - e;
           (q0, guard, sticky) =
             (if discard \<le> 0 then (push_bit (nat (- discard)) m, False, False)
              else split_at m (nat discard));
           inexact = (guard \<or> sticky);
           q1 = (if rounds_up r sign q0 guard sticky then q0 + 1 else q0);
           carry = (drop_bit (fmt_sig f + 1) q1 \<noteq> 0);
           q = (if carry then drop_bit 1 q1 else q1);
           e_out = (if carry then lsb + 1 else lsb)
       in if q = 0 then (fzero f sign, NX OR UF)
          else
            let normal = (drop_bit (fmt_sig f) q \<noteq> 0);
                field = (if normal then e_out + int (fmt_sig f) + bias f else 0)
            in if field \<ge> int (unat (max_field f)) then
                 ((if overflow_to_inf r sign then finf f sign else max_finite f sign), OF OR NX)
               else
                 (fzero f sign OR push_bit (fmt_sig f) (word_of_int field)
                    OR (ucast q AND sig_mask f),
                  if inexact then (if normal then NX else NX OR UF) else 0))"

definition fscale :: "u128 \<Rightarrow> int \<Rightarrow> int \<Rightarrow> u128" where
  "fscale m e base =
    (if e \<ge> base then push_bit (nat (e - base)) m
     else let d = nat (base - e)
          in if d \<ge> 128 then of_bool (m \<noteq> 0)
             else drop_bit d m OR of_bool (m AND (push_bit d 1 - 1) \<noteq> 0))"

definition add_raw :: "bool \<Rightarrow> u128 \<Rightarrow> int \<Rightarrow> bool \<Rightarrow> u128 \<Rightarrow> int \<Rightarrow> bool \<times> u128 \<times> int" where
  "add_raw sa ma ea sb mb eb =
    (let top = max (ea + int (bit_len ma)) (eb + int (bit_len mb));
         base = top - 126;
         a = fscale ma ea base;
         b = fscale mb eb base
     in if sa = sb then (sa, a + b, base)
        else if a \<ge> b then (sa, a - b, base)
        else (sb, b - a, base))"

definition zero_sign :: "rm \<Rightarrow> bool" where
  "zero_sign r \<longleftrightarrow> r = Rdn"

definition invalid :: "fmt \<Rightarrow> u64 \<times> u32" where
  "invalid f = (fnan f, NV)"

definition nan_result :: "fmt \<Rightarrow> cls list \<Rightarrow> u64 \<times> u32" where
  "nan_result f operands = (fnan f, if list_ex is_snan operands then NV else 0)"

section \<open>Arithmetic\<close>

definition add_or_sub :: "fmt \<Rightarrow> u64 \<Rightarrow> u64 \<Rightarrow> rm \<Rightarrow> bool \<Rightarrow> u64 \<times> u32" where
  "add_or_sub f a b r negate_b =
    (let (sa, ca) = unpack f a;
         (sb0, cb) = unpack f b;
         sb = (sb0 \<noteq> negate_b)
     in if is_nan ca \<or> is_nan cb then nan_result f [ca, cb]
        else case ca of
            CInf \<Rightarrow> if cb = CInf \<and> sa \<noteq> sb then invalid f else (finf f sa, 0)
          | CZero \<Rightarrow>
              (case cb of
                 CInf \<Rightarrow> (finf f sb, 0)
               | CZero \<Rightarrow> (fzero f (if sa = sb then sa else zero_sign r), 0)
               | _ \<Rightarrow> ((b AND fmt_mask f) XOR (if negate_b then sign_mask f else 0), 0))
          | CNum ma ea \<Rightarrow>
              (case cb of
                 CInf \<Rightarrow> (finf f sb, 0)
               | CNum mb eb \<Rightarrow>
                   (let (sign, m, e) = add_raw sa ma ea sb mb eb
                    in if m = 0 then (fzero f (zero_sign r), 0) else round_pack f sign m e r)
               | _ \<Rightarrow> (a AND fmt_mask f, 0))
          | CNan _ \<Rightarrow> nan_result f [ca, cb])"

definition fadd :: "fmt \<Rightarrow> u64 \<Rightarrow> u64 \<Rightarrow> rm \<Rightarrow> u64 \<times> u32" where
  "fadd f a b r = add_or_sub f a b r False"

definition fsub :: "fmt \<Rightarrow> u64 \<Rightarrow> u64 \<Rightarrow> rm \<Rightarrow> u64 \<times> u32" where
  "fsub f a b r = add_or_sub f a b r True"

definition fmul :: "fmt \<Rightarrow> u64 \<Rightarrow> u64 \<Rightarrow> rm \<Rightarrow> u64 \<times> u32" where
  "fmul f a b r =
    (let (sa, ca) = unpack f a;
         (sb, cb) = unpack f b;
         sign = (sa \<noteq> sb)
     in if is_nan ca \<or> is_nan cb then nan_result f [ca, cb]
        else if (ca = CInf \<and> cb = CZero) \<or> (ca = CZero \<and> cb = CInf) then invalid f
        else if ca = CInf \<or> cb = CInf then (finf f sign, 0)
        else if ca = CZero \<or> cb = CZero then (fzero f sign, 0)
        else case (ca, cb) of
               (CNum ma ea, CNum mb eb) \<Rightarrow> round_pack f sign (ma * mb) (ea + eb) r
             | _ \<Rightarrow> nan_result f [ca, cb])"

definition fdiv :: "fmt \<Rightarrow> u64 \<Rightarrow> u64 \<Rightarrow> rm \<Rightarrow> u64 \<times> u32" where
  "fdiv f a b r =
    (let (sa, ca) = unpack f a;
         (sb, cb) = unpack f b;
         sign = (sa \<noteq> sb)
     in if is_nan ca \<or> is_nan cb then nan_result f [ca, cb]
        else if (ca = CInf \<and> cb = CInf) \<or> (ca = CZero \<and> cb = CZero) then invalid f
        else if ca = CInf then (finf f sign, 0)
        else if cb = CInf then (fzero f sign, 0)
        else if cb = CZero then (finf f sign, DZ)
        else if ca = CZero then (fzero f sign, 0)
        else case (ca, cb) of
               (CNum ma ea, CNum mb eb) \<Rightarrow>
                 (let num = push_bit 64 ma; q = num div mb
                  in round_pack f sign (q OR of_bool (num mod mb \<noteq> 0)) (ea - eb - 64) r)
             | _ \<Rightarrow> nan_result f [ca, cb])"

function isqrt_loop :: "u128 \<Rightarrow> u128 \<Rightarrow> u128" where
  "isqrt_loop n x =
    (let next = drop_bit 1 (x + n div x) in if next \<ge> x then x else isqrt_loop n next)"
  by pat_completeness auto
termination
  by (relation "measure (\<lambda>(n, x). unat x)") (auto simp: word_less_nat_alt not_le)

declare isqrt_loop.simps [simp del]

definition isqrt :: "u128 \<Rightarrow> u128" where
  "isqrt n = (if n = 0 then 0 else isqrt_loop n (push_bit ((bit_len n + 1) div 2) 1))"

definition fsqrt :: "fmt \<Rightarrow> u64 \<Rightarrow> rm \<Rightarrow> u64 \<times> u32" where
  "fsqrt f a r =
    (let (sign, ca) = unpack f a
     in if is_nan ca then nan_result f [ca]
        else case ca of
            CZero \<Rightarrow> (fzero f sign, 0)
          | CInf \<Rightarrow> if sign then invalid f else (finf f False, 0)
          | CNum m e \<Rightarrow>
              if sign then invalid f
              else
                (let shift = (if (e - 64) mod 2 = 0 then 64 else 65);
                     radicand = push_bit shift m;
                     root = isqrt radicand
                 in round_pack f False (root OR of_bool (root * root \<noteq> radicand))
                      ((e - int shift) div 2) r)
          | CNan _ \<Rightarrow> nan_result f [ca])"

definition fma ::
  "fmt \<Rightarrow> u64 \<Rightarrow> u64 \<Rightarrow> u64 \<Rightarrow> bool \<Rightarrow> bool \<Rightarrow> rm \<Rightarrow> u64 \<times> u32" where
  "fma f a b c negate_product negate_addend r =
    (let (sa, ca) = unpack f a;
         (sb, cb) = unpack f b;
         (sc0, cc) = unpack f c;
         sc = (sc0 \<noteq> negate_addend);
         sp = ((sa \<noteq> sb) \<noteq> negate_product)
     in if (ca = CInf \<and> cb = CZero) \<or> (ca = CZero \<and> cb = CInf) then invalid f
        else if is_nan ca \<or> is_nan cb \<or> is_nan cc then nan_result f [ca, cb, cc]
        else if ca = CInf \<or> cb = CInf then
          (if cc = CInf \<and> sc \<noteq> sp then invalid f else (finf f sp, 0))
        else if cc = CInf then (finf f sc, 0)
        else
          let product = (case (ca, cb) of
                           (CNum ma ea, CNum mb eb) \<Rightarrow> Some (ma * mb, ea + eb)
                         | _ \<Rightarrow> None)
          in case product of
               None \<Rightarrow>
                 if cc = CZero then (fzero f (if sp = sc then sp else zero_sign r), 0)
                 else ((c AND fmt_mask f) XOR (if negate_addend then sign_mask f else 0), 0)
             | Some (m, e) \<Rightarrow>
                 (case cc of
                    CNum mc ec \<Rightarrow>
                      (let (sign, m', e') = add_raw sp m e sc mc ec
                       in if m' = 0 then (fzero f (zero_sign r), 0) else round_pack f sign m' e' r)
                  | _ \<Rightarrow> round_pack f sp m e r))"

section \<open>Conversions\<close>

definition fconvert :: "fmt \<Rightarrow> fmt \<Rightarrow> u64 \<Rightarrow> rm \<Rightarrow> u64 \<times> u32" where
  "fconvert from to a r =
    (let (sign, c) = unpack from a
     in case c of
          CNan _ \<Rightarrow> nan_result to [c]
        | CInf \<Rightarrow> (finf to sign, 0)
        | CZero \<Rightarrow> (fzero to sign, 0)
        | CNum m e \<Rightarrow> round_pack to sign m e r)"

definition round_to_int :: "u128 \<Rightarrow> int \<Rightarrow> bool \<Rightarrow> rm \<Rightarrow> u128 \<times> bool" where
  "round_to_int m e sign r =
    (if e \<ge> 0 then (push_bit (nat e) m, False)
     else let (q, guard, sticky) = split_at m (nat (- e))
          in (q + of_bool (rounds_up r sign q guard sticky), guard \<or> sticky))"

definition to_int :: "fmt \<Rightarrow> u64 \<Rightarrow> nat \<Rightarrow> bool \<Rightarrow> rm \<Rightarrow> u64 \<times> u32" where
  "to_int f a width signd r =
    (let (sign, c) = unpack f a;
         max_pos = (if signd then push_bit (width - 1) 1 - 1 else push_bit width 1 - 1) :: u128;
         min_mag = (if signd then push_bit (width - 1) 1 else 0) :: u128;
         pos = ucast max_pos;
         neg = (if signd then ucast (- min_mag) else 0)
     in case c of
          CNan _ \<Rightarrow> (pos, NV)
        | CInf \<Rightarrow> (if sign then neg else pos, NV)
        | CZero \<Rightarrow> (0, 0)
        | CNum m e \<Rightarrow>
            if e \<ge> 0 \<and> int (bit_len m) + e > 127 then (if sign then neg else pos, NV)
            else
              (let (q, inexact) = round_to_int m e sign r
               in if sign then
                    (if q > min_mag then (neg, NV) else (ucast (- q), if inexact then NX else 0))
                  else
                    (if q > max_pos then (pos, NV) else (ucast q, if inexact then NX else 0))))"

definition from_int :: "fmt \<Rightarrow> bool \<Rightarrow> u64 \<Rightarrow> rm \<Rightarrow> u64 \<times> u32" where
  "from_int f sign magnitude r = round_pack f sign (ucast magnitude) 0 r"

section \<open>Comparisons and classification\<close>

definition fkey :: "fmt \<Rightarrow> u64 \<Rightarrow> int" where
  "fkey f x0 =
    (let x = x0 AND fmt_mask f;
         magnitude = sint (x AND NOT (sign_mask f))
     in if x AND sign_mask f \<noteq> 0 then - magnitude else magnitude)"

definition feq :: "fmt \<Rightarrow> u64 \<Rightarrow> u64 \<Rightarrow> bool \<times> u32" where
  "feq f a b =
    (let ca = snd (unpack f a); cb = snd (unpack f b)
     in if is_nan ca \<or> is_nan cb then (False, if is_snan ca \<or> is_snan cb then NV else 0)
        else (fkey f a = fkey f b, 0))"

definition flt :: "fmt \<Rightarrow> u64 \<Rightarrow> u64 \<Rightarrow> bool \<Rightarrow> bool \<times> u32" where
  "flt f a b or_equal =
    (let ca = snd (unpack f a); cb = snd (unpack f b)
     in if is_nan ca \<or> is_nan cb then (False, NV)
        else (if or_equal then fkey f a \<le> fkey f b else fkey f a < fkey f b, 0))"

definition min_max :: "fmt \<Rightarrow> u64 \<Rightarrow> u64 \<Rightarrow> bool \<Rightarrow> u64 \<times> u32" where
  "min_max f a b want_max =
    (let ca = snd (unpack f a); cb = snd (unpack f b);
         flags = (if is_snan ca \<or> is_snan cb then NV else 0)
     in if is_nan ca \<and> is_nan cb then (fnan f, flags)
        else if is_nan ca then (b AND fmt_mask f, flags)
        else if is_nan cb then (a AND fmt_mask f, flags)
        else
          let take_a =
            (if ca = CZero \<and> cb = CZero then fst (unpack f a) \<noteq> want_max
             else if want_max then fkey f a > fkey f b
             else fkey f a < fkey f b)
          in (if take_a then a AND fmt_mask f else b AND fmt_mask f, flags))"

definition classify :: "fmt \<Rightarrow> u64 \<Rightarrow> u64" where
  "classify f a =
    (let (sign, c) = unpack f a
     in case c of
          CInf \<Rightarrow> if sign then push_bit 0 1 else push_bit 7 1
        | CZero \<Rightarrow> if sign then push_bit 3 1 else push_bit 4 1
        | CNan signalling \<Rightarrow> if signalling then push_bit 8 1 else push_bit 9 1
        | CNum _ e \<Rightarrow>
            (let subnormal = e < min_e f
             in if sign \<and> \<not> subnormal then push_bit 1 1
                else if sign then push_bit 2 1
                else if subnormal then push_bit 5 1
                else push_bit 6 1))"

end
