(* ===== verification/Alu.thy ===== *)
theory Alu
  imports Widths "HOL-Library.Signed_Division"
begin

text \<open>
  The integer unit, \<^verbatim>\<open>Cpu::alu\<close> and \<^verbatim>\<open>Cpu::muldiv\<close> of \<^verbatim>\<open>emu/src/cpu.rs\<close>: every operation is
  written once, computed at \<open>width\<close> bits inside 64 and sign-extended. A cast to \<open>i64\<close> or
  \<open>i128\<close> is \<open>sint\<close> or \<open>scast\<close>; \<^verbatim>\<open>wrapping_div\<close> and \<^verbatim>\<open>wrapping_rem\<close> truncate towards zero,
  as \<open>sdiv\<close> and \<open>smod\<close> do.
\<close>

definition alu :: "u32 \<Rightarrow> u32 \<Rightarrow> u64 \<Rightarrow> u64 \<Rightarrow> nat \<Rightarrow> u64 option" where
  "alu f3 f7 a b width =
    (let shamt = unat (b AND (of_nat width - 1));
         sa = sext a width;
         sb = sext b width;
         v = (if f3 = 0x0 \<and> f7 = 0x00 then Some (a + b)
              else if f3 = 0x0 \<and> f7 = 0x20 then Some (a - b)
              else if f3 = 0x1 \<and> f7 = 0x00 then Some (push_bit shamt a)
              else if f3 = 0x2 \<and> f7 = 0x00 then Some (of_bool (sint sa < sint sb))
              else if f3 = 0x3 \<and> f7 = 0x00 then Some (of_bool (trunc a width < trunc b width))
              else if f3 = 0x4 \<and> f7 = 0x00 then Some (a XOR b)
              else if f3 = 0x5 \<and> f7 = 0x00 then Some (drop_bit shamt (trunc a width))
              else if f3 = 0x5 \<and> f7 = 0x20 then Some (signed_drop_bit shamt sa)
              else if f3 = 0x6 \<and> f7 = 0x00 then Some (a OR b)
              else if f3 = 0x7 \<and> f7 = 0x00 then Some (a AND b)
              else None)
     in map_option (\<lambda>r. sext r width) v)"

definition muldiv :: "u32 \<Rightarrow> u64 \<Rightarrow> u64 \<Rightarrow> nat \<Rightarrow> u64 option" where
  "muldiv f3 a b width =
    (let sa = sext a width;
         sb = sext b width;
         ua = trunc a width;
         ub = trunc b width;
         v = (if f3 = 0x0 then Some (a * b)
              else if f3 = 0x1 \<and> width = 64 then
                Some (ucast (signed_drop_bit 64 ((scast sa :: u128) * scast sb)))
              else if f3 = 0x1 \<and> width = 32 then Some (signed_drop_bit 32 (sa * sb))
              else if f3 = 0x2 \<and> width = 64 then
                Some (ucast (signed_drop_bit 64 ((scast sa :: u128) * ucast ub)))
              else if f3 = 0x2 \<and> width = 32 then Some (signed_drop_bit 32 (sa * ub))
              else if f3 = 0x3 \<and> width = 64 then
                Some (ucast (drop_bit 64 ((ucast ua :: u128) * ucast ub)))
              else if f3 = 0x3 \<and> width = 32 then Some (drop_bit 32 (ua * ub))
              else if f3 = 0x4 then
                Some (if sb = 0 then - 1 else word_of_int (sint sa sdiv sint sb))
              else if f3 = 0x5 then Some (if ub = 0 then - 1 else ua div ub)
              else if f3 = 0x6 then
                Some (if sb = 0 then sa else word_of_int (sint sa smod sint sb))
              else if f3 = 0x7 then Some (if ub = 0 then ua else ua mod ub)
              else None)
     in map_option (\<lambda>r. sext r width) v)"

section \<open>What the unit computes\<close>

text \<open>
  The reference semantics of the instructions, on words of the operand width: no truncation,
  no sign extension, no intermediate width. The high-half multiplications and the signed
  divisions are on the integers that the words denote.
\<close>

definition alu_spec :: "u32 \<Rightarrow> u32 \<Rightarrow> 'w::len word \<Rightarrow> 'w word \<Rightarrow> 'w word option" where
  "alu_spec f3 f7 a b =
    (let shamt = unat b mod LENGTH('w)
     in if f3 = 0 \<and> f7 = 0 then Some (a + b)
        else if f3 = 0 \<and> f7 = 0x20 then Some (a - b)
        else if f3 = 1 \<and> f7 = 0 then Some (push_bit shamt a)
        else if f3 = 2 \<and> f7 = 0 then Some (of_bool (sint a < sint b))
        else if f3 = 3 \<and> f7 = 0 then Some (of_bool (uint a < uint b))
        else if f3 = 4 \<and> f7 = 0 then Some (a XOR b)
        else if f3 = 5 \<and> f7 = 0 then Some (drop_bit shamt a)
        else if f3 = 5 \<and> f7 = 0x20 then Some (signed_drop_bit shamt a)
        else if f3 = 6 \<and> f7 = 0 then Some (a OR b)
        else if f3 = 7 \<and> f7 = 0 then Some (a AND b)
        else None)"

definition muldiv_spec :: "u32 \<Rightarrow> 'w::len word \<Rightarrow> 'w word \<Rightarrow> 'w word option" where
  "muldiv_spec f3 a b =
    (let high = (\<lambda>k. Some (word_of_int (k div 2 ^ LENGTH('w))))
     in if f3 = 0 then Some (a * b)
        else if f3 = 1 then high (sint a * sint b)
        else if f3 = 2 then high (sint a * uint b)
        else if f3 = 3 then high (uint a * uint b)
        else if f3 = 4 then Some (if b = 0 then - 1 else word_of_int (sint a sdiv sint b))
        else if f3 = 5 then Some (if b = 0 then - 1 else a div b)
        else if f3 = 6 then Some (if b = 0 then a else word_of_int (sint a smod sint b))
        else if f3 = 7 then Some (if b = 0 then a else a mod b)
        else None)"

section \<open>Narrow operations computed in 64 bits\<close>

lemma shamt: "unat ((b :: u64) AND 63) = unat b mod 64" "unat (b AND 31) = unat (ucast b :: u32) mod 32"
proof -
  have "b AND 63 = take_bit 6 b" "b AND 31 = take_bit 5 b"
    by (simp_all add: take_bit_eq_mask mask_eq_exp_minus_1)
  then show "unat (b AND 63) = unat b mod 64" "unat (b AND 31) = unat (ucast b :: u32) mod 32"
    by (simp_all add: unsigned_take_bit_eq take_bit_eq_mod unsigned_ucast_eq mod_mod_cancel unat_mod)
qed

lemma alu_at_64: "alu f3 f7 a b 64 = alu_spec f3 f7 a b"
  by (simp add: alu_def alu_spec_def Let_def shamt word_less_def)

lemma narrow_uint: "uint (ucast (a :: u64) :: u32) = uint a mod 2 ^ 32"
  by (simp add: unsigned_ucast_eq take_bit_eq_mod)

lemma mod_64_32: "(k :: int) mod 2 ^ 64 mod 2 ^ 32 = k mod 2 ^ 32"
  by (rule mod_mod_cancel) simp

lemma uint_ops_64:
  "uint ((a :: u64) + b) = (uint a + uint b) mod 2 ^ 64" "uint (a - b) = (uint a - uint b) mod 2 ^ 64"
  "uint (a * b) = (uint a * uint b) mod 2 ^ 64"
  using uint_word_ariths(1-3) [of a b] by simp_all

lemma uint_ops_32:
  "uint ((a :: u32) + b) = (uint a + uint b) mod 2 ^ 32" "uint (a - b) = (uint a - uint b) mod 2 ^ 32"
  "uint (a * b) = (uint a * uint b) mod 2 ^ 32"
  using uint_word_ariths(1-3) [of a b] by simp_all

lemma narrow:
  "(ucast (a + b) :: u32) = ucast a + ucast b" "(ucast (a - b) :: u32) = ucast a - ucast b"
  "(ucast (a * b) :: u32) = ucast a * ucast (b::u64)"
  by (simp_all only: word_uint_eq_iff narrow_uint uint_ops_64 uint_ops_32 mod_64_32 mod_simps)

lemma uint_up: "uint (ucast (x :: u32) :: u64) = uint x"
  by (rule uint_up_ucast) (simp add: is_up)

lemma narrow_compare: "((ucast (x :: u32) :: u64) < ucast (y :: u32)) \<longleftrightarrow> uint x < uint y"
   "sint (scast x :: u64) = sint x" "(ucast (of_bool p :: u64) :: u32) = of_bool p"
  by (simp_all only: word_less_def uint_up) (simp_all add: sint_up_scast is_up)
lemma narrow_bits:
  "(ucast (a AND b) :: u32) = ucast a AND ucast b" "(ucast (a OR b) :: u32) = ucast a OR ucast b"
  "(ucast (a XOR b) :: u32) = ucast a XOR ucast (b :: u64)"
  by (rule bit_word_eqI; simp add: bit_simps)+

lemma narrow_shifts: 
  "(ucast (push_bit n a) :: u32) = push_bit n (ucast (a :: u64))"
  "n < 32 \<Longrightarrow> (ucast (drop_bit n (ucast (x :: u32) :: u64)) :: u32) = drop_bit n x"
  "n < 32 \<Longrightarrow> (ucast (signed_drop_bit n (scast x :: u64)) :: u32) = signed_drop_bit n x"
  by (rule bit_word_eqI; auto simp: bit_simps dest: bit_imp_le_length)+

lemma alu_at_32: "alu f3 f7 a b 32 = map_option scast (alu_spec f3 f7 (ucast a :: u32) (ucast b))"
proof -
  have small: "unat (ucast b :: u32) mod 32 < 32" by simp
  show ?thesis
    unfolding alu_def alu_spec_def Let_def sext_32 trunc_32
    by (simp add: shamt narrow narrow_bits narrow_shifts narrow_compare)
qed

lemma product_int:
  "(scast a :: 'b::len word) * scast b = word_of_int (sint a * sint b)"
  "(scast a :: 'b::len word) * ucast b = word_of_int (sint a * uint b)"
  "(ucast a :: 'b::len word) * ucast b = word_of_int (uint a * uint b)"
  by (simp_all only: scast_eq [of a] scast_eq [of b] ucast_eq [of a] ucast_eq [of b] wi_hom_mult)

lemma high_bits_64:
  "(ucast (signed_drop_bit 64 (word_of_int k :: u128)) :: u64) = word_of_int (drop_bit 64 k)"
  "(ucast (drop_bit 64 (word_of_int k :: u128)) :: u64) = word_of_int (drop_bit 64 k)"
  by (rule bit_word_eqI, auto simp: bit_simps) (rule bit_word_eqI, auto simp: bit_simps)

lemma high_bits_32:
  "(ucast (signed_drop_bit 32 (word_of_int k :: u64)) :: u32) = word_of_int (drop_bit 32 k)"
  "(ucast (drop_bit 32 (word_of_int k :: u64)) :: u32) = word_of_int (drop_bit 32 k)"
  by (rule bit_word_eqI, auto simp: bit_simps) (rule bit_word_eqI, auto simp: bit_simps)

lemma high_64:
  "(ucast (signed_drop_bit 64 ((scast (a :: u64) :: u128) * scast (b :: u64))) :: u64)
     = word_of_int (drop_bit 64 (sint a * sint b))"
  "(ucast (signed_drop_bit 64 ((scast a :: u128) * ucast b)) :: u64)
     = word_of_int (drop_bit 64 (sint a * uint b))"
  "(ucast (drop_bit 64 ((ucast a :: u128) * ucast b)) :: u64)
     = word_of_int (drop_bit 64 (uint a * uint b))"
  by (simp_all only: product_int high_bits_64)

lemma high_32:
  "(ucast (signed_drop_bit 32 ((scast (a :: u32) :: u64) * scast (b :: u32))) :: u32)
     = word_of_int (drop_bit 32 (sint a * sint b))"
  "(ucast (signed_drop_bit 32 ((scast a :: u64) * ucast b)) :: u32)
     = word_of_int (drop_bit 32 (sint a * uint b))"
  "(ucast (drop_bit 32 ((ucast a :: u64) * ucast b)) :: u32)
     = word_of_int (drop_bit 32 (uint a * uint b))"
  by (simp_all only: product_int high_bits_32)

lemma muldiv_at_64: "muldiv f3 a b 64 = muldiv_spec f3 a b"
  unfolding muldiv_def muldiv_spec_def drop_bit_eq_div [symmetric] Let_def
  by (simp add: high_64)

lemma narrow_wide:
  "(ucast (ucast (x :: u32) :: u64) :: u32) = x" "(ucast (scast x :: u64) :: u32) = x"
  "(ucast (word_of_int k :: u64) :: u32) = word_of_int k" "(ucast (- 1 :: u64) :: u32) = - 1"
  by (rule bit_word_eqI, simp add: bit_simps)+

lemma narrow_division:
  "(ucast ((ucast (x :: u32) :: u64) div ucast (y :: u32)) :: u32) = x div y"
  "(ucast ((ucast x :: u64) mod ucast y) :: u32) = x mod y"
proof -
  have "uint (x div y) = uint x div uint y" "uint (x mod y) = uint x mod uint y"
    by (simp_all add: uint_div uint_mod)
  moreover have "uint (x div y) mod 2 ^ 32 = uint (x div y)" "uint (x mod y) mod 2 ^ 32 = uint (x mod y)"
    using uint_lt2p [of "x div y"] uint_lt2p [of "x mod y"] by simp_all
  ultimately show "(ucast ((ucast (x :: u32) :: u64) div ucast (y :: u32)) :: u32) = x div y"
    "(ucast ((ucast x :: u64) mod ucast y) :: u32) = x mod y"
    unfolding word_uint_eq_iff narrow_uint uint_div uint_mod uint_up by simp_all
qed

lemma wide_zero: "(scast (x :: u32) :: u64) = 0 \<longleftrightarrow> x = 0" "(ucast (x :: u32) :: u64) = 0 \<longleftrightarrow> x = 0"
  using narrow_wide(1,2) [of x] by auto

lemma muldiv_at_32: "muldiv f3 a b 32 = map_option scast (muldiv_spec f3 (ucast a :: u32) (ucast b))"
  unfolding muldiv_def muldiv_spec_def Let_def sext_32 trunc_32 drop_bit_eq_div [symmetric]
  by (simp add: narrow narrow_compare high_32 narrow_wide narrow_division wide_zero)

text \<open>
  C31. The integer unit computes the reference operation on the operands' low \<open>width\<close> bits,
  sign-extended to the register, at both widths: so RV64's word instructions are RV32's
  instructions, for every selector and every operand, the reserved selectors included. The
  multiplications and divisions have the high halves of the exact product, division by zero and signed
  overflow as the architecture defines them, and no overflow of the 64-bit intermediate at width 32.
\<close>

theorem integer_unit_refines_spec:
  "alu f3 f7 a b 64 = alu_spec f3 f7 a b
   \<and> alu f3 f7 a b 32 = map_option scast (alu_spec f3 f7 (ucast a :: u32) (ucast b))
   \<and> muldiv f3 a b 64 = muldiv_spec f3 a b
   \<and> muldiv f3 a b 32 = map_option scast (muldiv_spec f3 (ucast a :: u32) (ucast b))"
  by (simp only: alu_at_64 alu_at_32 muldiv_at_64 muldiv_at_32)

end
