(* ===== verification/Decode.thy ===== *)
theory Decode
  imports Prelude
begin

text \<open>
  Instruction field extraction, \<^verbatim>\<open>emu/src/decode.rs\<close>. An \<open>i32\<close> is a \<open>32 word\<close> read as
  two's complement, so \<open>(i as i32) >> n\<close> is \<open>signed_drop_bit n i\<close>; a register number, which
  the source widens to \<open>usize\<close>, is a \<open>nat\<close>.
\<close>

definition opcode :: "u32 \<Rightarrow> u32" where
  "opcode i = i AND 0x7f"

definition rd :: "u32 \<Rightarrow> nat" where
  "rd i = unat (drop_bit 7 i AND 0x1f)"

definition rs1 :: "u32 \<Rightarrow> nat" where
  "rs1 i = unat (drop_bit 15 i AND 0x1f)"

definition rs2 :: "u32 \<Rightarrow> nat" where
  "rs2 i = unat (drop_bit 20 i AND 0x1f)"

definition funct3 :: "u32 \<Rightarrow> u32" where
  "funct3 i = drop_bit 12 i AND 0x7"

definition funct7 :: "u32 \<Rightarrow> u32" where
  "funct7 i = drop_bit 25 i"

definition csr :: "u32 \<Rightarrow> u16" where
  "csr i = ucast (drop_bit 20 i) AND 0xfff"

definition imm_i :: "u32 \<Rightarrow> u32" where
  "imm_i i = signed_drop_bit 20 i"

definition imm_s :: "u32 \<Rightarrow> u32" where
  "imm_s i = push_bit 5 (signed_drop_bit 25 i) OR (drop_bit 7 i AND 0x1f)"

definition imm_b :: "u32 \<Rightarrow> u32" where
  "imm_b i = push_bit 12 (signed_drop_bit 31 i)
     OR push_bit 11 (drop_bit 7 i AND 1)
     OR push_bit 5 (drop_bit 25 i AND 0x3f)
     OR push_bit 1 (drop_bit 8 i AND 0xf)"

definition imm_u :: "u32 \<Rightarrow> u32" where
  "imm_u i = i AND 0xfffff000"

definition imm_j :: "u32 \<Rightarrow> u32" where
  "imm_j i = push_bit 20 (signed_drop_bit 31 i)
     OR (i AND 0x000ff000)
     OR push_bit 11 (drop_bit 20 i AND 1)
     OR push_bit 1 (drop_bit 21 i AND 0x3ff)"

definition REG_NAMES :: "string list" where
  "REG_NAMES = [
    ''zero'', ''ra'', ''sp'', ''gp'', ''tp'', ''t0'', ''t1'', ''t2'', ''s0'', ''s1'', ''a0'',
    ''a1'', ''a2'', ''a3'', ''a4'', ''a5'', ''a6'', ''a7'', ''s2'', ''s3'', ''s4'', ''s5'',
    ''s6'', ''s7'', ''s8'', ''s9'', ''s10'', ''s11'', ''t3'', ''t4'', ''t5'', ''t6'']"

lemmas decode_defs =
  opcode_def rd_def rs1_def rs2_def funct3_def funct7_def csr_def
  imm_i_def imm_s_def imm_b_def imm_u_def imm_j_def

lemma unat_and_31: "unat ((v :: u32) AND 0x1f) < 32"
proof -
  have "unat (v AND 0x1f) \<le> unat (0x1f :: u32)"
    using word_and_le1 [of v "0x1f"] by (simp add: word_le_nat_alt)
  then show ?thesis by simp
qed

lemma register_numbers: "rd i < 32" "rs1 i < 32" "rs2 i < 32"
  by (simp_all add: rd_def rs1_def rs2_def unat_and_31)

text \<open>A CSR address is a twelve-bit number, so it indexes the 4096-entry register array.\<close>

lemma csr_in_range: "csr i < 4096"
  using word_and_le1 [of "ucast (drop_bit 20 i)" "0xfff :: u16"]
  by (simp add: csr_def word_le_nat_alt word_less_nat_alt)

end
