(* ===== verification/Compress.thy ===== *)
theory Compress
  imports Widths Decode
begin

text \<open>
  The C extension, \<^verbatim>\<open>emu/src/compress.rs\<close>: every 16-bit instruction is expanded to the
  32-bit instruction it abbreviates, or rejected. One definition per helper of the file, one
  per quadrant of \<^verbatim>\<open>decompress\<close>, with the encodings tested in the order of the source.
\<close>

section \<open>Fields\<close>

definition cbits :: "u32 \<Rightarrow> nat \<Rightarrow> nat \<Rightarrow> u32" where
  "cbits i hi lo = drop_bit lo i AND (push_bit (hi - lo + 1) 1 - 1)"

definition csext :: "u32 \<Rightarrow> nat \<Rightarrow> u32" where
  "csext v width = (let shift = 32 - width in signed_drop_bit shift (push_bit shift v))"

definition rp :: "u32 \<Rightarrow> nat \<Rightarrow> u32" where
  "rp i lo = cbits i (lo + 2) lo + 8"

section \<open>The 32-bit formats\<close>

definition r_type :: "u32 \<Rightarrow> u32 \<Rightarrow> u32 \<Rightarrow> u32 \<Rightarrow> u32 \<Rightarrow> u32 \<Rightarrow> u32" where
  "r_type op3 f3 f7 d s1 s2 =
     push_bit 25 f7 OR push_bit 20 s2 OR push_bit 15 s1 OR push_bit 12 f3 OR push_bit 7 d OR op3"

definition i_type :: "u32 \<Rightarrow> u32 \<Rightarrow> u32 \<Rightarrow> u32 \<Rightarrow> u32 \<Rightarrow> u32" where
  "i_type op3 f3 d s1 imm =
     push_bit 20 (imm AND 0xfff) OR push_bit 15 s1 OR push_bit 12 f3 OR push_bit 7 d OR op3"

definition s_type :: "u32 \<Rightarrow> u32 \<Rightarrow> u32 \<Rightarrow> u32 \<Rightarrow> u32 \<Rightarrow> u32" where
  "s_type op3 f3 s1 s2 imm =
     push_bit 25 (drop_bit 5 imm AND 0x7f) OR push_bit 20 s2 OR push_bit 15 s1
       OR push_bit 12 f3 OR push_bit 7 (imm AND 0x1f) OR op3"

definition b_type :: "u32 \<Rightarrow> u32 \<Rightarrow> u32 \<Rightarrow> u32 \<Rightarrow> u32" where
  "b_type f3 s1 s2 imm =
     push_bit 31 (drop_bit 12 imm AND 1)
       OR push_bit 25 (drop_bit 5 imm AND 0x3f)
       OR push_bit 20 s2
       OR push_bit 15 s1
       OR push_bit 12 f3
       OR push_bit 8 (drop_bit 1 imm AND 0xf)
       OR push_bit 7 (drop_bit 11 imm AND 1)
       OR 0x63"

definition u_type :: "u32 \<Rightarrow> u32 \<Rightarrow> u32 \<Rightarrow> u32" where
  "u_type op3 d imm = (imm AND 0xfffff000) OR push_bit 7 d OR op3"

definition j_type :: "u32 \<Rightarrow> u32 \<Rightarrow> u32" where
  "j_type d imm =
     push_bit 31 (drop_bit 20 imm AND 1)
       OR push_bit 21 (drop_bit 1 imm AND 0x3ff)
       OR push_bit 20 (drop_bit 11 imm AND 1)
       OR push_bit 12 (drop_bit 12 imm AND 0xff)
       OR push_bit 7 d
       OR 0x6f"

abbreviation OP_IMM :: u32 where "OP_IMM \<equiv> 0x13"
abbreviation OP_IMM32 :: u32 where "OP_IMM32 \<equiv> 0x1b"
abbreviation OP :: u32 where "OP \<equiv> 0x33"
abbreviation OP32 :: u32 where "OP32 \<equiv> 0x3b"
abbreviation LOAD :: u32 where "LOAD \<equiv> 0x03"
abbreviation STORE :: u32 where "STORE \<equiv> 0x23"
abbreviation JALR :: u32 where "JALR \<equiv> 0x67"
abbreviation LOAD_FP :: u32 where "LOAD_FP \<equiv> 0x07"
abbreviation STORE_FP :: u32 where "STORE_FP \<equiv> 0x27"

definition cj_offset :: "u32 \<Rightarrow> u32" where
  "cj_offset i = csext
     (push_bit 11 (cbits i 12 12)
       OR push_bit 10 (cbits i 8 8)
       OR push_bit 8 (cbits i 10 9)
       OR push_bit 7 (cbits i 6 6)
       OR push_bit 6 (cbits i 7 7)
       OR push_bit 5 (cbits i 2 2)
       OR push_bit 4 (cbits i 11 11)
       OR push_bit 1 (cbits i 5 3)) 12"

definition cb_offset :: "u32 \<Rightarrow> u32" where
  "cb_offset i = csext
     (push_bit 8 (cbits i 12 12)
       OR push_bit 6 (cbits i 6 5)
       OR push_bit 5 (cbits i 2 2)
       OR push_bit 3 (cbits i 11 10)
       OR push_bit 1 (cbits i 4 3)) 9"

section \<open>Expansion\<close>

definition decompress_q0 :: "u32 \<Rightarrow> bool \<Rightarrow> u32 option" where
  "decompress_q0 i rv64 =
    (let funct3 = cbits i 15 13;
         word_imm = push_bit 6 (cbits i 5 5) OR push_bit 3 (cbits i 12 10)
                      OR push_bit 2 (cbits i 6 6);
         double_imm = push_bit 6 (cbits i 6 5) OR push_bit 3 (cbits i 12 10)
     in if funct3 = 0b000 then
          (let imm = push_bit 6 (cbits i 10 7) OR push_bit 4 (cbits i 12 11)
                       OR push_bit 3 (cbits i 5 5) OR push_bit 2 (cbits i 6 6)
           in if imm = 0 then None else Some (i_type OP_IMM 0x0 (rp i 2) 2 imm))
        else if funct3 = 0b010 then Some (i_type LOAD 0x2 (rp i 2) (rp i 7) word_imm)
        else if funct3 = 0b011 \<and> rv64 then Some (i_type LOAD 0x3 (rp i 2) (rp i 7) double_imm)
        else if funct3 = 0b001 then Some (i_type LOAD_FP 0x3 (rp i 2) (rp i 7) double_imm)
        else if funct3 = 0b011 \<and> \<not> rv64 then Some (i_type LOAD_FP 0x2 (rp i 2) (rp i 7) word_imm)
        else if funct3 = 0b101 then Some (s_type STORE_FP 0x3 (rp i 7) (rp i 2) double_imm)
        else if funct3 = 0b111 \<and> \<not> rv64 then Some (s_type STORE_FP 0x2 (rp i 7) (rp i 2) word_imm)
        else if funct3 = 0b110 then Some (s_type STORE 0x2 (rp i 7) (rp i 2) word_imm)
        else if funct3 = 0b111 \<and> rv64 then Some (s_type STORE 0x3 (rp i 7) (rp i 2) double_imm)
        else None)"

definition decompress_q1_alu :: "u32 \<Rightarrow> bool \<Rightarrow> u32 option" where
  "decompress_q1_alu i rv64 =
    (let imm6 = push_bit 5 (cbits i 12 12) OR cbits i 6 2;
         sel2 = cbits i 11 10
     in if sel2 = 0b00 \<or> sel2 = 0b01 then
          (if \<not> rv64 \<and> imm6 \<ge> 32 then None
           else (let sel = if sel2 = 0b01 then 0x400 else 0x000
                 in Some (i_type OP_IMM 0x5 (rp i 7) (rp i 7) (sel OR imm6))))
        else if sel2 = 0b10 then
          Some (i_type OP_IMM 0x7 (rp i 7) (rp i 7) (csext imm6 6))
        else
          (let d = rp i 7; s = rp i 2; b12 = cbits i 12 12; f2 = cbits i 6 5
           in if b12 = 0 \<and> f2 = 0b00 then Some (r_type OP 0x0 0x20 d d s)
              else if b12 = 0 \<and> f2 = 0b01 then Some (r_type OP 0x4 0x00 d d s)
              else if b12 = 0 \<and> f2 = 0b10 then Some (r_type OP 0x6 0x00 d d s)
              else if b12 = 0 \<and> f2 = 0b11 then Some (r_type OP 0x7 0x00 d d s)
              else if b12 = 1 \<and> f2 = 0b00 \<and> rv64 then Some (r_type OP32 0x0 0x20 d d s)
              else if b12 = 1 \<and> f2 = 0b01 \<and> rv64 then Some (r_type OP32 0x0 0x00 d d s)
              else None))"

definition decompress_q1 :: "u32 \<Rightarrow> bool \<Rightarrow> u32 option" where
  "decompress_q1 i rv64 =
    (let r = cbits i 11 7;
         funct3 = cbits i 15 13;
         imm6 = push_bit 5 (cbits i 12 12) OR cbits i 6 2
     in if funct3 = 0b000 then Some (i_type OP_IMM 0x0 r r (csext imm6 6))
        else if funct3 = 0b001 then
          (if rv64 then
             (if r = 0 then None else Some (i_type OP_IMM32 0x0 r r (csext imm6 6)))
           else Some (j_type 1 (cj_offset i)))
        else if funct3 = 0b010 then Some (i_type OP_IMM 0x0 r 0 (csext imm6 6))
        else if funct3 = 0b011 then
          (if r = 2 then
             (let imm = push_bit 9 (cbits i 12 12) OR push_bit 7 (cbits i 4 3)
                          OR push_bit 6 (cbits i 5 5) OR push_bit 5 (cbits i 2 2)
                          OR push_bit 4 (cbits i 6 6)
              in if imm = 0 then None else Some (i_type OP_IMM 0x0 2 2 (csext imm 10)))
           else if imm6 = 0 \<or> r = 0 then None
           else Some (u_type 0x37 r (push_bit 12 (csext imm6 6))))
        else if funct3 = 0b100 then decompress_q1_alu i rv64
        else if funct3 = 0b101 then Some (j_type 0 (cj_offset i))
        else if funct3 = 0b110 then Some (b_type 0x0 (rp i 7) 0 (cb_offset i))
        else Some (b_type 0x1 (rp i 7) 0 (cb_offset i)))"

definition decompress_q2 :: "u32 \<Rightarrow> bool \<Rightarrow> u32 option" where
  "decompress_q2 i rv64 =
    (let r = cbits i 11 7;
         s = cbits i 6 2;
         funct3 = cbits i 15 13;
         wordsp = push_bit 6 (cbits i 3 2) OR push_bit 5 (cbits i 12 12) OR push_bit 2 (cbits i 6 4);
         doublesp = push_bit 6 (cbits i 4 2) OR push_bit 5 (cbits i 12 12)
                      OR push_bit 3 (cbits i 6 5);
         swordsp = push_bit 6 (cbits i 8 7) OR push_bit 2 (cbits i 12 9);
         sdoublesp = push_bit 6 (cbits i 9 7) OR push_bit 3 (cbits i 12 10)
     in if funct3 = 0b000 then
          (let shamt = push_bit 5 (cbits i 12 12) OR s
           in if \<not> rv64 \<and> shamt \<ge> 32 then None else Some (i_type OP_IMM 0x1 r r shamt))
        else if funct3 = 0b010 then
          (if r = 0 then None else Some (i_type LOAD 0x2 r 2 wordsp))
        else if funct3 = 0b011 \<and> rv64 then
          (if r = 0 then None else Some (i_type LOAD 0x3 r 2 doublesp))
        else if funct3 = 0b100 then
          (if cbits i 12 12 = 0 then
             (if r = 0 then None
              else if s = 0 then Some (i_type JALR 0x0 0 r 0)
              else Some (r_type OP 0x0 0x00 r 0 s))
           else
             (if r = 0 \<and> s = 0 then Some 0x00100073
              else if s = 0 then Some (i_type JALR 0x0 1 r 0)
              else Some (r_type OP 0x0 0x00 r r s)))
        else if funct3 = 0b001 then Some (i_type LOAD_FP 0x3 r 2 doublesp)
        else if funct3 = 0b011 \<and> \<not> rv64 then Some (i_type LOAD_FP 0x2 r 2 wordsp)
        else if funct3 = 0b101 then Some (s_type STORE_FP 0x3 2 s sdoublesp)
        else if funct3 = 0b111 \<and> \<not> rv64 then Some (s_type STORE_FP 0x2 2 s swordsp)
        else if funct3 = 0b110 then Some (s_type STORE 0x2 2 s swordsp)
        else if funct3 = 0b111 \<and> rv64 then Some (s_type STORE 0x3 2 s sdoublesp)
        else None)"

definition decompress :: "u32 \<Rightarrow> xlen \<Rightarrow> u32 option" where
  "decompress i x =
    (let rv64 = (x = Rv64); q = cbits i 1 0
     in if q = 0b00 then decompress_q0 i rv64
        else if q = 0b01 then decompress_q1 i rv64
        else if q = 0b10 then decompress_q2 i rv64
        else None)"

section \<open>Encoding and decoding\<close>

lemma field_bits:
  "v < 128 \<Longrightarrow> 7 \<le> k \<Longrightarrow> \<not> bit (v :: u32) k"
  "v < 32 \<Longrightarrow> 5 \<le> k \<Longrightarrow> \<not> bit v k"
  "v < 8 \<Longrightarrow> 3 \<le> k \<Longrightarrow> \<not> bit v k"
  using bit_less_exp [of v 7 k] bit_less_exp [of v 5 k] bit_less_exp [of v 3 k] by auto

lemma s_type_decode:
  assumes "op3 < 128" "f3 < 8" "s1 < 32" "s2 < 32"
  shows "opcode (s_type op3 f3 s1 s2 imm) = op3"
    and "funct3 (s_type op3 f3 s1 s2 imm) = f3"
    and "rs1 (s_type op3 f3 s1 s2 imm) = unat s1"
    and "rs2 (s_type op3 f3 s1 s2 imm) = unat s2"
    and "imm_s (s_type op3 f3 s1 s2 imm) = csext imm 12"
  unfolding decode_defs s_type_def and_numeral_take_bit word_unat_eq_iff [symmetric] word32_eq_bits
  using assms by (simp_all add: bit_simps csext_def Let_def field_bits del: bit_0)

lemma i_type_decode:
  assumes "op3 < 128" "f3 < 8" "d < 32" "s1 < 32"
  shows "opcode (i_type op3 f3 d s1 imm) = op3"
    and "funct3 (i_type op3 f3 d s1 imm) = f3"
    and "rd (i_type op3 f3 d s1 imm) = unat d"
    and "rs1 (i_type op3 f3 d s1 imm) = unat s1"
    and "imm_i (i_type op3 f3 d s1 imm) = csext imm 12"
  unfolding decode_defs i_type_def and_numeral_take_bit word_unat_eq_iff [symmetric] word32_eq_bits
  using assms by (simp_all add: bit_simps csext_def Let_def field_bits del: bit_0)

lemma r_type_decode:
  assumes "op3 < 128" "f3 < 8" "f7 < 128" "d < 32" "s1 < 32" "s2 < 32"
  shows "opcode (r_type op3 f3 f7 d s1 s2) = op3"
    and "funct3 (r_type op3 f3 f7 d s1 s2) = f3"
    and "funct7 (r_type op3 f3 f7 d s1 s2) = f7"
    and "rd (r_type op3 f3 f7 d s1 s2) = unat d"
    and "rs1 (r_type op3 f3 f7 d s1 s2) = unat s1"
    and "rs2 (r_type op3 f3 f7 d s1 s2) = unat s2"
  unfolding decode_defs r_type_def and_numeral_take_bit word_unat_eq_iff [symmetric] word32_eq_bits
  using assms by (simp_all add: bit_simps csext_def Let_def field_bits del: bit_0)

lemma u_type_decode:
  assumes "op3 < 128" "d < 32"
  shows "opcode (u_type op3 d imm) = op3"
    and "rd (u_type op3 d imm) = unat d"
    and "imm_u (u_type op3 d imm) = imm AND 0xfffff000"
  unfolding decode_defs u_type_def and_numeral_take_bit word_unat_eq_iff [symmetric] word32_eq_bits
  using assms by (simp_all add: bit_simps csext_def Let_def field_bits del: bit_0)

lemma b_type_decode:
  assumes "f3 < 8" "s1 < 32" "s2 < 32"
  shows "opcode (b_type f3 s1 s2 imm) = 0x63"
    and "funct3 (b_type f3 s1 s2 imm) = f3"
    and "rs1 (b_type f3 s1 s2 imm) = unat s1"
    and "rs2 (b_type f3 s1 s2 imm) = unat s2"
    and "imm_b (b_type f3 s1 s2 imm) = csext (imm AND NOT 1) 13"
  unfolding decode_defs b_type_def and_numeral_take_bit word_unat_eq_iff [symmetric] word32_eq_bits csext_def Let_def
  using assms by ((simp_all only: ball_simps bit_simps)?, simp_all add: field_bits eval_bits del: bit_0)

lemma j_type_decode:
  assumes "d < 32"
  shows "opcode (j_type d imm) = 0x6f"
    and "rd (j_type d imm) = unat d"
    and "imm_j (j_type d imm) = csext (imm AND NOT 1) 21"
  unfolding decode_defs j_type_def and_numeral_take_bit word_unat_eq_iff [symmetric] word32_eq_bits csext_def Let_def
  using assms by ((simp_all only: ball_simps bit_simps)?, simp_all add: field_bits eval_bits del: bit_0)

lemma cbits_take_bit: "cbits i hi lo = take_bit (hi - lo + 1) (drop_bit lo i)"
  by (simp only: cbits_def and_mask_take_bit)

lemma cbits_less: "hi - lo < 31 \<Longrightarrow> cbits i hi lo < 2 ^ (hi - lo + 1)"
  unfolding cbits_take_bit by (rule take_bit_less_exp) simp

lemma cbits_5: "cbits i 11 7 < 32" "cbits i 6 2 < 32"
  using cbits_less [of 11 7 i] cbits_less [of 6 2 i] by simp_all

lemma rp_range: "rp i 2 < 32" "rp i 7 < 32"
  using cbits_less [of 4 2 i] cbits_less [of 9 7 i] unfolding rp_def
  by (simp_all add: word_less_nat_alt unat_word_ariths)

section \<open>Jumps and branches\<close>

text \<open>
  The CJ and CB encodings of the architecture manual for an offset: the reference that the
  scattered bits of \<open>cj_offset\<close> and \<open>cb_offset\<close> have to undo.
\<close>

definition cj_code :: "u32 \<Rightarrow> u32" where
  "cj_code off = 0xa001 OR push_bit 12 (drop_bit 11 off AND 1) OR push_bit 11 (drop_bit 4 off AND 1)
     OR push_bit 9 (drop_bit 8 off AND 3) OR push_bit 8 (drop_bit 10 off AND 1)
     OR push_bit 7 (drop_bit 6 off AND 1) OR push_bit 6 (drop_bit 7 off AND 1)
     OR push_bit 3 (drop_bit 1 off AND 7) OR push_bit 2 (drop_bit 5 off AND 1)"

definition cb_code :: "u32 \<Rightarrow> u32 \<Rightarrow> u32 \<Rightarrow> u32" where
  "cb_code f3 r off = 0xc001 OR push_bit 13 (f3 AND 1) OR push_bit 12 (drop_bit 8 off AND 1)
     OR push_bit 10 (drop_bit 3 off AND 3) OR push_bit 7 (r AND 7) OR push_bit 5 (drop_bit 6 off AND 3)
     OR push_bit 3 (drop_bit 1 off AND 3) OR push_bit 2 (drop_bit 5 off AND 1)"

lemma cj_offset_code: "cj_offset (cj_code off) = csext (off AND NOT 1) 12"
  unfolding cj_offset_def cj_code_def cbits_take_bit and_numeral_take_bit word32_eq_bits csext_def Let_def
  by ((simp_all only: ball_simps bit_simps)?, simp_all add: eval_bits del: bit_0)

lemma cj_fields: "cbits (cj_code off) 15 13 = 5" "cbits (cj_code off) 1 0 = 1"
  unfolding cj_code_def cbits_take_bit and_numeral_take_bit word32_eq_bits
  by ((simp_all only: ball_simps bit_simps)?, simp_all add: eval_bits del: bit_0)

lemma cb_offset_code: "cb_offset (cb_code f3 r off) = csext (off AND NOT 1) 9"
  unfolding cb_offset_def cb_code_def cbits_take_bit and_numeral_take_bit word32_eq_bits csext_def Let_def
  by ((simp_all only: ball_simps bit_simps)?, simp_all add: eval_bits del: bit_0)

lemma cb_fields: "cbits (cb_code f3 r off) 15 13 = 6 OR (f3 AND 1)" "cbits (cb_code f3 r off) 1 0 = 1"
    "cbits (cb_code f3 r off) 9 7 = take_bit 3 r"
  unfolding cb_code_def cbits_take_bit and_numeral_take_bit word32_eq_bits
  by ((simp_all only: ball_simps bit_simps)?, (simp_all add: eval_bits del: bit_0)?, simp_all add: bit_0)

lemma csext_widen:
  "csext (csext (off AND NOT 1) 12 AND NOT 1) 21 = csext (off AND NOT 1) 12"
  "csext (csext (off AND NOT 1) 9 AND NOT 1) 13 = csext (off AND NOT 1) 9"
  unfolding word32_eq_bits csext_def Let_def
  by (simp_all add: bit_simps del: bit_0)

lemma decompress_quadrant_1: "cbits i 1 0 = 1 \<Longrightarrow> decompress i x = decompress_q1 i (x = Rv64)"
  by (simp add: decompress_def Let_def)

text \<open>
  Every C.J of the architecture expands to a JAL that discards the link and jumps by the
  offset that was encoded, sign-extended from twelve bits.
\<close>

theorem compressed_jump_roundtrip:
  "\<exists>w. decompress (cj_code off) x = Some w \<and> opcode w = 0x6f \<and> rd w = 0
        \<and> imm_j w = csext (off AND NOT 1) 12"
  unfolding decompress_quadrant_1 [OF cj_fields(2)]
  by (simp add: decompress_q1_def cj_fields cj_offset_code j_type_decode csext_widen [simplified] Let_def)

text \<open>
  Every C.BEQZ and C.BNEZ expands to the branch on the same register against zero, by the
  offset that was encoded, sign-extended from nine bits.
\<close>

theorem compressed_branch_roundtrip:
  assumes "r < 8" and "f3 < 2"
  shows "\<exists>w. decompress (cb_code f3 r off) x = Some w \<and> opcode w = 0x63 \<and> funct3 w = f3
        \<and> rs1 w = 8 + unat r \<and> rs2 w = 0 \<and> imm_b w = csext (off AND NOT 1) 9"
proof -
  have f3: "f3 = 0 \<or> f3 = 1" using assms by (auto simp: word_less_nat_alt word_unat_eq_iff)
  have rp: "rp (cb_code f3 r off) 7 = r + 8" "r + 8 < 32" "unat (r + 8) = 8 + unat r"
    using assms by (auto simp: rp_def cb_fields take_bit_eq_self_iff_less word_less_nat_alt unat_word_ariths)
  have "decompress (cb_code f3 r off) x = Some (b_type f3 (r + 8) 0 (csext (off AND NOT 1) 9))"
    unfolding decompress_quadrant_1 [OF cb_fields(2)] using f3
    by (auto simp: decompress_q1_def cb_fields cb_offset_code rp(1) Let_def)
  then show ?thesis
    using f3 rp(2,3) by (auto simp: b_type_decode csext_widen [simplified])
qed

theorem compressed_branch_roundtrip_witness:
  "\<exists>w. decompress (cb_code 1 5 (- 4)) Rv32 = Some w \<and> opcode w = 0x63 \<and> funct3 w = 1 \<and> rs1 w = 13
        \<and> imm_b w = - 4"
  using compressed_branch_roundtrip [of 5 1 "- 4" Rv32] by (auto simp: csext_def Let_def)

end
