(* ===== verification/Cpu.thy ===== *)
theory Cpu
  imports Mmu Fpu Alu Compress Decode
begin

text \<open>
  The hart, \<^verbatim>\<open>emu/src/cpu.rs\<close>: its state, the register file, the floating-point context, the
  translation cache, and memory access through the MMU up to instruction fetch. The arrays
  \<^verbatim>\<open>[u64; 32]\<close> and the cache's rows are functions on \<open>nat\<close>; register numbers stay below 32
  and cache rows below \<open>TLB_ENTRIES\<close>.
\<close>

abbreviation TLB_ENTRIES :: u64 where "TLB_ENTRIES \<equiv> 1024"
abbreviation DEVICE_POLL_INTERVAL :: u64 where "DEVICE_POLL_INTERVAL \<equiv> 256"

definition TLB_STATUS_BITS :: u64 where
  "TLB_STATUS_BITS = ST_SUM OR ST_MXR OR ST_MPRV"

section \<open>State\<close>

record tlb_entry =
  tl_valid :: bool
  tl_vpn :: u64
  tl_ppn :: u64
  tl_satp :: u64
  tl_ctx :: u64

definition tlb_default :: tlb_entry where
  "tlb_default = \<lparr>tl_valid = False, tl_vpn = 0, tl_ppn = 0, tl_satp = 0, tl_ctx = 0\<rparr>"

record cpu =
  regs :: "nat \<Rightarrow> u64"
  fregs :: "nat \<Rightarrow> u64"
  pc :: u64
  xlen :: xlen
  csrs :: csrfile
  mem :: memory
  cycle :: u64
  reservation :: "u64 option"
  priv_mode :: priv
  sbi :: bool
  timer_armed :: bool
  shutdown :: bool
  wrote_instret :: bool
  tlb :: "nat \<Rightarrow> nat \<Rightarrow> tlb_entry"

definition cpu_new :: "nat \<Rightarrow> xlen \<Rightarrow> cpu" where
  "cpu_new mem_size x =
    \<lparr>regs = (\<lambda>_. 0)(2 := DRAM_BASE + of_nat mem_size), fregs = (\<lambda>_. 0), pc = DRAM_BASE,
     xlen = x, csrs = csr_new x, mem = mem_new mem_size, cycle = 0, reservation = None,
     priv_mode = Machine, sbi = False, timer_armed = False, shutdown = False,
     wrote_instret = False, tlb = (\<lambda>_ _. tlb_default)\<rparr>"

definition rv32 :: "nat \<Rightarrow> cpu" where
  "rv32 mem_size = cpu_new mem_size Rv32"

definition rv64 :: "nat \<Rightarrow> cpu" where
  "rv64 mem_size = cpu_new mem_size Rv64"

section \<open>Registers\<close>

definition xbits :: "cpu \<Rightarrow> nat" where
  "xbits c = xlen_bits (xlen c)"

definition rr :: "cpu \<Rightarrow> nat \<Rightarrow> u64" where
  "rr c r = (if r = 0 then 0 else regs c r)"

definition wr :: "nat \<Rightarrow> u64 \<Rightarrow> cpu \<Rightarrow> cpu" where
  "wr r v c = (if r \<noteq> 0 then c\<lparr>regs := (regs c)(r := trunc v (xbits c))\<rparr> else c)"

definition rs :: "cpu \<Rightarrow> nat \<Rightarrow> u64" where
  "rs c r = sext (rr c r) (xbits c)"

section \<open>The floating-point context\<close>

definition fp_enabled :: "cpu \<Rightarrow> bool" where
  "fp_enabled c \<longleftrightarrow> csr_read (csrs c) MSTATUS AND ST_FS \<noteq> 0"

definition dirty_fp :: "cpu \<Rightarrow> cpu" where
  "dirty_fp c =
    (let status = csr_read (csrs c) MSTATUS
     in c\<lparr>csrs := csr_force MSTATUS ((status AND NOT ST_FS) OR ST_FS) (csrs c)\<rparr>)"

definition set_fflags :: "u32 \<Rightarrow> cpu \<Rightarrow> cpu" where
  "set_fflags flags c =
    dirty_fp (if flags \<noteq> 0
              then (let old = csr_read (csrs c) FCSR
                    in c\<lparr>csrs := csr_force FCSR (old OR ucast flags) (csrs c)\<rparr>)
              else c)"

definition fw :: "nat \<Rightarrow> u64 \<Rightarrow> cpu \<Rightarrow> cpu" where
  "fw r v c = dirty_fp (c\<lparr>fregs := (fregs c)(r := v)\<rparr>)"

definition unbox :: "u64 \<Rightarrow> u64" where
  "unbox v = (if drop_bit 32 v = 0xffffffff then v AND 0xffffffff else fnan fmt_S)"

definition box32 :: "u64 \<Rightarrow> u64" where
  "box32 v = 0xffffffff00000000 OR (v AND 0xffffffff)"

definition rounding :: "cpu \<Rightarrow> u32 \<Rightarrow> rm option" where
  "rounding c f3 =
    rm_from_bits (if f3 = 0x7
                  then ucast (drop_bit RM_SHIFT (csr_read (csrs c) FCSR AND FCSR_RM))
                  else f3)"

definition fp_fmt :: "u32 \<Rightarrow> fmt option" where
  "fp_fmt b = (if b = 0 then Some fmt_S else if b = 1 then Some fmt_D else None)"

definition freg :: "cpu \<Rightarrow> fmt \<Rightarrow> nat \<Rightarrow> u64" where
  "freg c f r = (if f = fmt_S then unbox (fregs c r) else fregs c r)"

definition write_freg :: "fmt \<Rightarrow> nat \<Rightarrow> u64 \<Rightarrow> cpu \<Rightarrow> cpu" where
  "write_freg f r v c = fw r (if f = fmt_S then box32 v else v) c"

section \<open>Translation\<close>

definition access_way :: "access \<Rightarrow> nat" where
  "access_way acc = (case acc of Fetch \<Rightarrow> 0 | Load \<Rightarrow> 1 | Store \<Rightarrow> 2)"

definition tlb_ctx :: "cpu \<Rightarrow> u64" where
  "tlb_ctx c = (csr_read (csrs c) MSTATUS AND TLB_STATUS_BITS) OR priv_bits (priv_mode c)"

definition tlb_slot :: "u64 \<Rightarrow> nat" where
  "tlb_slot va = unat (drop_bit 12 va AND (TLB_ENTRIES - 1))"

definition tlb_hit :: "cpu \<Rightarrow> u64 \<Rightarrow> access \<Rightarrow> bool" where
  "tlb_hit c va acc \<longleftrightarrow>
    (let e = tlb c (tlb_slot va) (access_way acc)
     in tl_valid e \<and> tl_vpn e = drop_bit 12 va \<and> tl_satp e = csr_read (csrs c) SATP
        \<and> tl_ctx e = tlb_ctx c)"

text \<open>\<open>on_mem\<close> runs a program of the memory component on the hart's memory.\<close>

definition on_mem :: "(memory, 'e, 'a) prog \<Rightarrow> (cpu, 'e, 'a) prog" where
  "on_mem f c = (let (r, m) = f (mem c) in (r, c\<lparr>mem := m\<rparr>))"

definition tlb_fill :: "u64 \<Rightarrow> access \<Rightarrow> u64 \<Rightarrow> u64 \<Rightarrow> u64 \<Rightarrow> cpu \<Rightarrow> cpu" where
  "tlb_fill va acc pa satp ctx c =
    c\<lparr>tlb := (tlb c)(tlb_slot va := (tlb c (tlb_slot va))(access_way acc :=
        \<lparr>tl_valid = True, tl_vpn = drop_bit 12 va, tl_ppn = pa AND NOT 0xfff,
         tl_satp = satp, tl_ctx = ctx\<rparr>))\<rparr>"

definition translate :: "u64 \<Rightarrow> access \<Rightarrow> (cpu, exception, u64) prog" where
  "translate va acc c =
    (let satp = csr_read (csrs c) SATP;
         status = csr_read (csrs c) MSTATUS;
         ctx = tlb_ctx c;
         e = tlb c (tlb_slot va) (access_way acc)
     in if tlb_hit c va acc then (Inr (tl_ppn e OR (va AND 0xfff)), c)
        else bindE (on_mem (mmu_translate (xlen c) satp status (priv_mode c) va acc))
               (\<lambda>pa. bindE (update (tlb_fill va acc pa satp ctx)) (\<lambda>_. ret pa)) c)"

definition flush_tlb :: "cpu \<Rightarrow> cpu" where
  "flush_tlb c = c\<lparr>tlb := (\<lambda>slot way. (tlb c slot way)\<lparr>tl_valid := False\<rparr>)\<rparr>"

section \<open>Memory access\<close>

fun read_bytes :: "u64 \<Rightarrow> nat list \<Rightarrow> u64 \<Rightarrow> (cpu, exception, u64) prog" where
  "read_bytes va [] v = ret v"
| "read_bytes va (k # ks) v =
     bindE (translate (va + of_nat k) Load) (\<lambda>pa.
     bindE (map_err (\<lambda>_. LoadAccessFault va) (on_mem (mem_read pa 1))) (\<lambda>b.
     read_bytes va ks (v OR push_bit (8 * k) b)))"

definition read_mem :: "u64 \<Rightarrow> nat \<Rightarrow> (cpu, exception, u64) prog" where
  "read_mem va sz =
    (if unat (va AND 0xfff) + sz \<le> 0x1000
     then bindE (translate va Load) (\<lambda>pa.
            map_err (\<lambda>_. LoadAccessFault va) (on_mem (mem_read pa sz)))
     else read_bytes va [0..<sz] 0)"

fun translate_bytes :: "u64 \<Rightarrow> nat list \<Rightarrow> (cpu, exception, unit) prog" where
  "translate_bytes va [] = ret ()"
| "translate_bytes va (k # ks) =
     bindE (translate (va + of_nat k) Store) (\<lambda>_. translate_bytes va ks)"

fun write_bytes :: "u64 \<Rightarrow> nat list \<Rightarrow> u64 \<Rightarrow> (cpu, exception, unit) prog" where
  "write_bytes va [] value = ret ()"
| "write_bytes va (k # ks) value =
     bindE (translate (va + of_nat k) Store) (\<lambda>pa.
     bindE (map_err (\<lambda>_. StoreAccessFault va) (on_mem (mem_write pa 1 (drop_bit (8 * k) value))))
       (\<lambda>_. write_bytes va ks value))"

definition write_mem :: "u64 \<Rightarrow> nat \<Rightarrow> u64 \<Rightarrow> (cpu, exception, unit) prog" where
  "write_mem va sz value =
    (if unat (va AND 0xfff) + sz \<le> 0x1000
     then bindE (translate va Store) (\<lambda>pa.
            map_err (\<lambda>_. StoreAccessFault va) (on_mem (mem_write pa sz value)))
     else bindE (translate_bytes va [0..<sz]) (\<lambda>_. write_bytes va [0..<sz] value))"

section \<open>Fetch\<close>

definition fetch_half :: "u64 \<Rightarrow> (cpu, exception, u64) prog" where
  "fetch_half va =
    bindE (translate va Fetch) (\<lambda>pa.
      map_err (\<lambda>_. InstructionAccessFault va) (on_mem (mem_read pa 2)))"

definition expand :: "u32 \<Rightarrow> (cpu, exception, u32 \<times> u64) prog" where
  "expand lo c =
    (case decompress lo (xlen c) of
       None \<Rightarrow> (Inl (IllegalInstruction lo), c)
     | Some i \<Rightarrow> (Inr (i, 2), c))"

definition fetch :: "(cpu, exception, u32 \<times> u64) prog" where
  "fetch c =
    (if pc c AND 0x1 \<noteq> 0 then (Inl (InstructionAddressMisaligned (pc c)), c)
     else if pc c AND 0xfff \<le> 0xffc then
       bindE (translate (pc c) Fetch) (\<lambda>pa.
       bindE (map_err (\<lambda>_. InstructionAccessFault (pc c)) (on_mem (mem_read pa 4))) (\<lambda>w.
         let word = ucast w :: u32
         in if word AND 0x3 \<noteq> 0x3 then expand (word AND 0xffff) else ret (word, 4))) c
     else
       bindE (fetch_half (pc c)) (\<lambda>l.
         let lo = ucast l :: u32
         in if lo AND 0x3 \<noteq> 0x3 then expand lo
            else bindE (fetch_half (pc c + 2)) (\<lambda>h.
                   ret (push_bit 16 (ucast h) OR lo, 4))) c)"

section \<open>Memory programs inside the hart\<close>

lemma on_mem_ret [simp]: "on_mem (ret x) = ret x"
  by (rule ext) (simp add: on_mem_def)

lemma on_mem_raise [simp]: "on_mem (raise e) = raise e"
  by (rule ext) (simp add: on_mem_def)

lemma on_mem_Pair [simp]: "on_mem (Pair r) = Pair r"
  by (rule ext) (simp add: on_mem_def)

lemma on_mem_bindE: "on_mem (bindE p k) = bindE (on_mem p) (\<lambda>x. on_mem (k x))"
  by (rule ext) (auto simp: on_mem_def bindE_def Let_def split: prod.splits sum.splits)

lemma on_mem_map_err: "on_mem (map_err f p) = map_err f (on_mem p)"
  by (rule ext) (auto simp: on_mem_def map_err_def Let_def split: prod.splits sum.splits)

lemma on_mem_if: "on_mem (if b then p else q) = (if b then on_mem p else on_mem q)"
  by simp

lemma on_mem_run: "on_mem p c = (fst (p (mem c)), c\<lparr>mem := snd (p (mem c))\<rparr>)"
  by (simp add: on_mem_def split: prod.splits)

lemmas on_mem_push = on_mem_bindE on_mem_map_err on_mem_if on_mem_ret on_mem_raise

section \<open>The translation cache\<close>

lemma translate_miss:
  assumes "\<not> tlb_hit c va acc"
  shows "translate va acc c =
    (case mmu_translate (xlen c) (csr_read (csrs c) SATP) (csr_read (csrs c) MSTATUS) (priv_mode c) va acc (mem c) of
       (Inl e, m) \<Rightarrow> (Inl e, c\<lparr>mem := m\<rparr>)
     | (Inr pa, m) \<Rightarrow> (Inr pa, tlb_fill va acc pa (csr_read (csrs c) SATP) (tlb_ctx c) (c\<lparr>mem := m\<rparr>)))"
  using assms by (simp add: translate_def Let_def bindE_def on_mem_def split: prod.split sum.split)

lemma translate_hit:
  "tlb_hit c va acc \<Longrightarrow> translate va acc c = (Inr (tl_ppn (tlb c (tlb_slot va) (access_way acc)) OR (va AND 0xfff)), c)"
  by (simp add: translate_def Let_def)

lemma in_page_numeral: "((pa AND NOT 0xfff) OR (va AND 0xfff)) = in_page pa va"
  by (simp add: in_page_def and_numeral_take_bit mask_eq_exp_minus_1)

text \<open>
  One page at a time: after a translation that missed, every address of
  that page hits, and gives what a walk of the tables made now would give and would leave the
  memory as it is, for tables in DRAM.
\<close>

theorem cached_translation_is_fresh:
  fixes c va vb acc
  defines "fresh \<equiv> mmu_translate (xlen c) (csr_read (csrs c) SATP) (csr_read (csrs c) MSTATUS) (priv_mode c) vb acc"
  assumes "addressable (mem c)" and dram: "leaf_of (xlen c) (csr_read (csrs c) SATP) va (mem c) \<noteq> Outside"
    and miss: "\<not> tlb_hit c va acc" and run: "translate va acc c = (Inr pa, c')"
    and page: "drop_bit 12 va = drop_bit 12 vb"
  shows "tlb_hit c' vb acc \<and> translate vb acc c' = (Inr (in_page pa vb), c')
       \<and> fresh (mem c') = (Inr (in_page pa vb), mem c')"
proof -
  let ?satp = "csr_read (csrs c) SATP" and ?status = "csr_read (csrs c) MSTATUS"
  obtain m where m: "mmu_translate (xlen c) ?satp ?status (priv_mode c) va acc (mem c) = (Inr pa, m)"
    and c': "c' = tlb_fill va acc pa ?satp (tlb_ctx c) (c\<lparr>mem := m\<rparr>)"
    using run by (auto simp: translate_miss [OF miss] split: prod.splits sum.splits)
  have slot: "tlb_slot vb = tlb_slot va" by (simp only: tlb_slot_def page)
  have hit: "tlb_hit c' vb acc" and ppn: "tl_ppn (tlb c' (tlb_slot vb) (access_way acc)) = pa AND NOT 0xfff"
    and mem: "mem c' = m"
    by (simp_all add: c' slot page tlb_fill_def tlb_hit_def tlb_ctx_def Let_def)
  have "translate vb acc c' = (Inr (in_page pa vb), c')"
    by (simp only: translate_hit [OF hit] ppn in_page_numeral)
  moreover have "fresh (mem c') = (Inr (in_page pa vb), mem c')"
  proof -
    have "leaf_of (xlen c) ?satp vb (mem c) \<noteq> Outside"
      using dram same_page_leaf [OF page, of "xlen c" ?satp "mem c"] by simp
    then show ?thesis
      unfolding fresh_def mem by (rule translate_stable [OF assms(2) _ translate_same_page [OF page dram m]])
  qed
  ultimately show ?thesis using hit by blast
qed

definition paged_hart :: cpu where
  "paged_hart = (rv32 4)\<lparr>csrs := csr_force SATP 0x80080000 (csr_new Rv32), mem := one_page 0xdf, priv_mode := User\<rparr>"

lemma paged_hart_reads:
  "xlen paged_hart = Rv32" "mem paged_hart = one_page 0xdf" "priv_mode paged_hart = User"
  "csr_read (csrs paged_hart) SATP = 0x80080000"
  "csr_read (csrs paged_hart) MSTATUS AND ST_MPRV = 0" "csr_read (csrs paged_hart) MSTATUS AND ST_MXR = 0" 
  "tlb paged_hart s w = tlb_default"
  by (simp_all add: paged_hart_def rv32_def cpu_new_def csr_read_def csr_read_value_def csr_force_def csr_new_def csr_status_def)

lemma paged_hart_leaf: "leaf_of Rv32 0x80080000 0x1234 (one_page 0xdf) = Leaf 1 0x80000000 0x200000df"
  by (simp add: leaf_of_def mode_of_def root_table_def ppn_mask_def shape_def one_page_leaf)

theorem cached_translation_is_fresh_witness:
  "\<exists>c'. translate 0x1234 Load paged_hart = (Inr 0x80001234, c')
     \<and> tlb_hit c' 0x1ffc Load \<and> translate 0x1ffc Load c' = (Inr 0x80001ffc, c')"
proof -
  have run: "mmu_translate Rv32 0x80080000 status User 0x1234 Load (one_page 0xdf) = (Inr 0x80001234, one_page 0xdf)"
    if "status AND ST_MPRV = 0" for status
    using walk_spec [of Sv32 "one_page 0xdf" "0x1234" 2 "0x80000000" User status Load] that
    by (simp add: translate_run mode_of_def effective_mode_def root_table_def ppn_mask_def shape_def canonical_address_def
      one_page_leaf grants_def vpn_bits_def mapped_def marked_def pte_need_def mask_eq_exp_minus_1)
  obtain c' where c': "translate 0x1234 Load paged_hart = (Inr 0x80001234, c')"
    by (simp add: translate_miss tlb_hit_def paged_hart_reads tlb_default_def run)
  have miss: "\<not> tlb_hit paged_hart 0x1234 Load"
    by (simp add: tlb_hit_def paged_hart_reads tlb_default_def)
  have start: "addressable (mem paged_hart)" "leaf_of (xlen paged_hart) (csr_read (csrs paged_hart) SATP) 0x1234 (mem paged_hart) \<noteq> Outside"
    by (simp_all add: paged_hart_reads paged_hart_leaf del: one_page_def) (simp add: addressable_def one_page_def)
  show ?thesis
    using cached_translation_is_fresh [OF start miss c', of "0x1ffc"] c' by (simp add: in_page_def mask_eq_exp_minus_1 del: Let_def)
qed

definition mprv_hart :: cpu where
  "mprv_hart = paged_hart\<lparr>priv_mode := Machine, csrs := csr_write MSTATUS ST_MPRV (csrs paged_hart)\<rparr>"

lemma mprv_hart_reads:
  "xlen mprv_hart = Rv32" "mem mprv_hart = one_page 0xdf" "priv_mode mprv_hart = Machine"
  "csr_read (csrs mprv_hart) SATP = 0x80080000" "csr_read (csrs mprv_hart) MSTATUS = ST_MPRV"
  "tlb mprv_hart s w = tlb_default"
  by (simp_all add: mprv_hart_def paged_hart_def rv32_def cpu_new_def csr_read_def csr_read_value_def csr_force_def
    csr_new_def csr_status_def csr_write_def csr_masks)

lemma one_page_walk:
  "status AND ST_MXR = 0 \<Longrightarrow>
   mmu_walk Sv32 User status 0x1234 Load 2 0x80000000 (one_page 0xdf) = (Inr 0x80001234, one_page 0xdf)"
  using walk_spec [of Sv32 "one_page 0xdf" "0x1234" 2 "0x80000000" User status Load]
  by (simp add: one_page_leaf grants_def vpn_bits_def mapped_def marked_def pte_need_def ppn_mask_def shape_def mask_eq_exp_minus_1)

text \<open>
  The cache's tag leaves out MPP. A machine-mode handler that loads through MPRV and then changes
  MPP is given the translation of the old privilege, where a walk would now give another.
\<close>

lemma stale_translation_after_mpp_change:
  "\<exists>c'. translate 0x1234 Load mprv_hart = (Inr 0x80001234, c')
     \<and> (let c2 = c'\<lparr>csrs := csr_write MSTATUS (ST_MPRV OR ST_MPP) (csrs c')\<rparr>
        in fst (translate 0x1234 Load c2) = Inr 0x80001234
           \<and> fst (mmu_translate (xlen c2) (csr_read (csrs c2) SATP) (csr_read (csrs c2) MSTATUS) (priv_mode c2) 0x1234 Load (mem c2))
               = Inr 0x1234)"
proof -
  have m: "mmu_translate Rv32 0x80080000 ST_MPRV Machine 0x1234 Load (one_page 0xdf) = (Inr 0x80001234, one_page 0xdf)"
    by (simp add: translate_run mode_of_def effective_mode_def root_table_def ppn_mask_def shape_def canonical_address_def
      one_page_walk priv_from_bits_def)
  let ?c = "tlb_fill 0x1234 Load 0x80001234 0x80080000 (tlb_ctx mprv_hart) mprv_hart"
  let ?f = "csr_write MSTATUS (ST_MPRV OR ST_MPP) (csrs ?c)"
  have "csr_read ?f SATP = 0x80080000" "csr_read ?f MSTATUS = ST_MPRV OR ST_MPP"
    by (simp_all add: tlb_fill_def mprv_hart_def paged_hart_def rv32_def cpu_new_def csr_read_def csr_read_value_def csr_force_def
      csr_new_def csr_status_def csr_write_def csr_masks)
  moreover have "translate 0x1234 Load mprv_hart = (Inr 0x80001234, ?c)"
    by (simp add: translate_miss tlb_hit_def mprv_hart_reads tlb_default_def m)
       (simp add: tlb_fill_def mprv_hart_def paged_hart_def)
  moreover have "tlb_ctx mprv_hart = ST_MPRV OR 3"
    by (simp add: tlb_ctx_def mprv_hart_reads TLB_STATUS_BITS_def priv_bits_def)
  ultimately show ?thesis
    by (auto simp: translate_hit tlb_hit_def tlb_fill_def tlb_ctx_def TLB_STATUS_BITS_def mprv_hart_reads
      translate_run effective_mode_def priv_from_bits_def priv_bits_def Let_def mode_of_def)
qed

end
