(* ===== verification/Tlb.thy ===== *)
theory Tlb
  imports Cpu
begin

text \<open>
  The translation cache of \<^verbatim>\<open>emu/src/cpu.rs\<close> against the page-table walk of \<^verbatim>\<open>emu/src/mmu.rs\<close>: as long
  as every entry that can hit agrees with the tables, translating through the cache is the walk, and
  the cache goes on agreeing, although walks set accessed and dirty bits in the tables.
\<close>

section \<open>What marking one leaf does to other walks\<close>

definition remark :: "access \<Rightarrow> u64 \<Rightarrow> leaf \<Rightarrow> leaf" where
  "remark acc a lf =
     (case lf of Leaf k b p \<Rightarrow> Leaf k b (if b = a then p OR pte_need acc else p) | _ \<Rightarrow> lf)"

lemma remark_simps [simp]:
  "remark acc a NoLeaf = NoLeaf" "remark acc a Outside = Outside"
  "remark acc a (Leaf k b p) = Leaf k b (if b = a then p OR pte_need acc else p)"
  by (simp_all add: remark_def)

lemma marked_length: "length (dram (marked md acc a pte m)) = length (dram m)"
  by (simp add: marked_def)

lemma marked_reads_apart:
  assumes md: "md \<noteq> Bare" and m: "addressable m" and a: "in_dram m a (pte_size md)"
    and pte: "fst (mem_read a (pte_size md) m) = Inr pte" and aligned: "take_bit (pte_log md) a = 0"
    and b: "take_bit (pte_log md) b = 0" "b \<noteq> a" "\<not> b < DRAM_BASE"
  shows "fst (mem_read b (pte_size md) (marked md acc a pte m)) = fst (mem_read b (pte_size md) m)"
proof (cases "in_dram m b (pte_size md)")
  case True
  then show ?thesis using marked_reads(2) [OF md m a pte aligned b(1,2)] by simp
next
  case False
  have "pte_size md \<in> {1, 2, 4, 8}" using md by (cases md) (simp_all add: pte_size_def shape_def)
  then have "mem_index n b (pte_size md) = None" if "length (dram n) = length (dram m)" for n
    using False b(3) that by (auto simp: in_dram_def mem_index_def Let_def not_less)
  then show ?thesis using b(3) by (simp add: mem_read_def not_less marked_length)
qed

lemma find_leaf_remarked:
  assumes md: "md \<noteq> Bare" and m: "addressable m" and a: "in_dram m a (pte_size md)"
    and pte: "fst (mem_read a (pte_size md) m) = Inr pte" and aligned: "take_bit (pte_log md) a = 0"
    and leaf: "pte_valid pte" "\<not> pte_points pte" and table: "take_bit (pte_log md) table = 0"
  shows "find_leaf md (marked md acc a pte m) vb l table = remark acc a (find_leaf md m vb l table)"
  using table
proof (induction l arbitrary: table)
  case (Suc l)
  let ?b = "pte_address md vb l table"
  note apart = marked_reads_apart [OF md m a pte aligned pte_address_aligned [OF md Suc.prems]]
  show ?case
  proof (cases "?b = a")
    case True
    then show ?thesis
      using pte leaf marked_reads(1) [OF md m a pte aligned, of acc] by (simp add: Let_def need_keeps)
  next
    case False
    then show ?thesis
      using apart [of vb l] Suc.IH [OF page_aligned [OF md]] by (auto simp: Let_def split: sum.split)
  qed
qed simp

lemma marked_unchanged:
  assumes md: "md \<noteq> Bare" and m: "addressable m" and a: "in_dram m a (pte_size md)"
    and pte: "fst (mem_read a (pte_size md) m) = Inr pte" and aligned: "take_bit (pte_log md) a = 0"
    and same: "marked md acc a pte m = m"
  shows "pte AND pte_need acc = pte_need acc"
proof -
  have "pte OR pte_need acc = pte"
    using marked_reads(1) [OF md m a pte aligned, of acc] pte unfolding same by simp
  then show ?thesis by (metis word_ao_absorbs(1) word_bw_comms(1) word_bw_comms(2))
qed

section \<open>Walks do not disturb each other\<close>

definition walk_of :: "xlen \<Rightarrow> u64 \<Rightarrow> u64 \<Rightarrow> priv \<Rightarrow> u64 \<Rightarrow> access \<Rightarrow> memory \<Rightarrow> (exception + u64) \<times> memory" where
  "walk_of x satp status mode va acc m =
     translation (mode_of satp x) (effective_mode status mode acc) status va acc (leaf_of x satp va m) m"

lemma walk_cases:
  assumes "walk_of x satp status mode va acc m = (Inr pa, t)"
  obtains (direct) "mode_of satp x = Bare \<or> effective_mode status mode acc = Machine" "pa = va" "t = m"
  | (leaf) k a pte where "mode_of satp x \<noteq> Bare" "effective_mode status mode acc \<noteq> Machine"
      "leaf_of x satp va m = Leaf k a pte" "canonical_address (mode_of satp x) va"
      "grants (mode_of satp x) (effective_mode status mode acc) status acc k pte"
      "pa = mapped (mode_of satp x) k pte va" "t = marked (mode_of satp x) acc a pte m"
proof (cases "mode_of satp x = Bare \<or> effective_mode status mode acc = Machine")
  case True
  then show thesis using assms direct by (simp add: walk_of_def translation_def)
next
  case False
  then show thesis
    using assms leaf by (simp add: walk_of_def translation_def split: leaf.splits if_splits)
qed

lemma root_aligned: "md \<noteq> Bare \<Longrightarrow> take_bit (pte_log md) (root_table md satp) = 0"
  unfolding root_table_def by (rule page_aligned)

lemma leaf_facts:
  assumes "mode_of satp x \<noteq> Bare" and "leaf_of x satp va m = Leaf k a pte"
  shows "in_dram m a (pte_size (mode_of satp x)) \<and> fst (mem_read a (pte_size (mode_of satp x)) m) = Inr pte
    \<and> pte_valid pte \<and> \<not> pte_points pte \<and> take_bit (pte_log (mode_of satp x)) a = 0"
  using find_leaf_facts [OF assms(1) _ root_aligned [OF assms(1)]] assms(2) by (simp add: leaf_of_def Let_def)

lemma leaf_of_marked:
  assumes "addressable m" and md: "mode_of satp x \<noteq> Bare" and leaf: "leaf_of x satp va m = Leaf k a pte"
  shows "leaf_of x satp vb (marked (mode_of satp x) acc a pte m) = remark acc a (leaf_of x satp vb m)"
  using find_leaf_remarked [OF md assms(1), of a pte "root_table (mode_of satp x) satp"]
    leaf_facts [OF md leaf] root_aligned [OF md] by (simp add: leaf_of_def Let_def)

lemma leaf_of_after_walk:
  assumes "addressable m" and "walk_of x satp status mode va acc m = (Inr pa, t)"
  shows "(leaf_of x satp vb t = Outside) = (leaf_of x satp vb m = Outside)"
  using assms(2)
proof (cases rule: walk_cases)
  case (leaf k a pte)
  then show ?thesis
    using leaf_of_marked [OF assms(1), of satp x va k a pte vb acc] by (cases "leaf_of x satp vb m") simp_all
qed simp

lemma need_keeps_grants: "grants md eff status acc k (pte OR pte_need acc') = grants md eff status acc k pte"
  by (simp only: grants_def need_flags)

lemma walks_do_not_disturb:
  assumes m: "addressable m" and first: "walk_of x satp status mode va acc m = (Inr pa, t)"
    and settled: "walk_of x satp status mode vb acc' m = (Inr pb, m)"
  shows "walk_of x satp status mode vb acc' t = (Inr pb, t)"
  using first
proof (cases rule: walk_cases)
  case (leaf k a pte)
  note one = leaf
  show ?thesis
    using settled
  proof (cases rule: walk_cases)
    case direct
    then show ?thesis by (auto simp: walk_of_def translation_def)
  next
    case (leaf l b p)
    have full: "p AND pte_need acc' = pte_need acc'"
      using marked_unchanged [of "mode_of satp x" m b p acc'] leaf leaf_facts [OF leaf(1,3)] m by simp
    let ?p = "if b = a then p OR pte_need acc else p"
    have now: "leaf_of x satp vb t = Leaf l b ?p"
      using leaf_of_marked [OF m one(1,3), of vb acc] leaf(3) one(7) by simp
    have "?p AND pte_need acc' = pte_need acc'"
      using full by (simp add: word_ao_dist)
    then have "marked (mode_of satp x) acc' b ?p t = t" by (simp add: marked_def)
    then show ?thesis
      using leaf by (simp add: walk_of_def translation_def now need_keeps need_keeps_grants)
  qed
qed (use settled in simp)

section \<open>The cache is transparent\<close>

definition walk_now :: "cpu \<Rightarrow> u64 \<Rightarrow> access \<Rightarrow> memory \<Rightarrow> (exception + u64) \<times> memory" where
  "walk_now c va acc m =
     mmu_translate (xlen c) (csr_read (csrs c) SATP) (csr_read (csrs c) MSTATUS) (priv_mode c) va acc m"

definition tables_in_dram :: "cpu \<Rightarrow> bool" where
  "tables_in_dram c \<longleftrightarrow> (\<forall>va. leaf_of (xlen c) (csr_read (csrs c) SATP) va (mem c) \<noteq> Outside)"

text \<open>Every entry that hits holds what the tables say now, with the bits of the access already set.\<close>

definition cache_coherent :: "cpu \<Rightarrow> bool" where
  "cache_coherent c \<longleftrightarrow>
     (\<forall>va acc. tlb_hit c va acc \<longrightarrow>
        walk_now c va acc (mem c) = (Inr (tl_ppn (tlb c (tlb_slot va) (access_way acc)) OR (va AND 0xfff)), mem c))"

lemma walk_now_of:
  "leaf_of (xlen c) (csr_read (csrs c) SATP) va m \<noteq> Outside \<Longrightarrow>
     walk_now c va acc m =
       walk_of (xlen c) (csr_read (csrs c) SATP) (csr_read (csrs c) MSTATUS) (priv_mode c) va acc m"
  by (simp add: walk_now_def walk_of_def mmu_translate_translation)

lemma access_way_inject: "access_way acc = access_way acc' \<longleftrightarrow> acc = acc'"
  by (cases acc; cases acc') (simp_all add: access_way_def)

lemma flushed_cache_is_coherent: "cache_coherent (flush_tlb c)"
  by (simp add: cache_coherent_def tlb_hit_def flush_tlb_def Let_def)

lemma reset_cache_is_coherent: "cache_coherent (cpu_new n x)"
  by (simp add: cache_coherent_def tlb_hit_def cpu_new_def tlb_default_def Let_def)

lemma fill_reads:
  "xlen (tlb_fill va acc pa satp ctx c) = xlen c" "csrs (tlb_fill va acc pa satp ctx c) = csrs c"
  "priv_mode (tlb_fill va acc pa satp ctx c) = priv_mode c" "mem (tlb_fill va acc pa satp ctx c) = mem c"
  by (simp_all add: tlb_fill_def)

lemma walk_now_fill [simp]: "walk_now (tlb_fill va acc pa satp ctx c) = walk_now c"
  by (simp add: walk_now_def fill_reads fun_eq_iff)

lemma walk_now_mem [simp]: "walk_now (c\<lparr>mem := m\<rparr>) = walk_now c"
  by (simp add: walk_now_def fun_eq_iff)

lemma fill_hits:
  fixes c c' :: cpu
  assumes c': "c' = tlb_fill va acc pa (csr_read (csrs c) SATP) (tlb_ctx c) (c\<lparr>mem := m\<rparr>)"
    and hit: "tlb_hit c' vb acc'"
  obtains (fresh) "acc' = acc" "drop_bit 12 va = drop_bit 12 vb"
      "tl_ppn (tlb c' (tlb_slot vb) (access_way acc')) = pa AND NOT 0xfff"
  | (old) "tlb_hit c vb acc'"
      "tlb c' (tlb_slot vb) (access_way acc') = tlb c (tlb_slot vb) (access_way acc')"
proof (cases "tlb_slot vb = tlb_slot va \<and> acc' = acc")
  case True
  then show thesis using hit fresh by (simp add: c' tlb_fill_def tlb_hit_def Let_def)
next
  case False
  then have "tlb c' (tlb_slot vb) (access_way acc') = tlb c (tlb_slot vb) (access_way acc')"
    by (auto simp: c' tlb_fill_def access_way_inject)
  moreover from this have "tlb_hit c vb acc'"
    using hit by (simp add: c' tlb_hit_def fill_reads tlb_ctx_def Let_def)
  ultimately show thesis using old by blast
qed

lemma fill_keeps_coherent:
  assumes m: "addressable (mem c)" and dram: "tables_in_dram c" and coh: "cache_coherent c"
    and walk: "walk_now c va acc (mem c) = (Inr pa, m)"
    and c': "c' = tlb_fill va acc pa (csr_read (csrs c) SATP) (tlb_ctx c) (c\<lparr>mem := m\<rparr>)"
  shows "cache_coherent c'"
  unfolding cache_coherent_def
proof (intro allI impI)
  fix vb acc'
  assume hit: "tlb_hit c' vb acc'"
  have here: "leaf_of (xlen c) (csr_read (csrs c) SATP) w (mem c) \<noteq> Outside" for w
    using dram by (simp add: tables_in_dram_def)
  have there: "leaf_of (xlen c) (csr_read (csrs c) SATP) w m \<noteq> Outside" for w
    using leaf_of_after_walk [OF m walk [unfolded walk_now_of [OF here]]] here by simp
  have "walk_now c vb acc' m = (Inr (tl_ppn (tlb c' (tlb_slot vb) (access_way acc')) OR (vb AND 0xfff)), m)"
    using c' hit
  proof (cases rule: fill_hits)
    case fresh
    have "walk_now c vb acc (mem c) = (Inr (in_page pa vb), m)"
      using translate_same_page [OF fresh(2) here] walk by (simp add: walk_now_def)
    then have "walk_now c vb acc m = (Inr (in_page pa vb), m)"
      unfolding walk_now_def by (rule translate_stable [OF m here])
    moreover have "tl_ppn (tlb c' (tlb_slot vb) (access_way acc)) = pa AND NOT 0xfff"
      using fresh(3) unfolding fresh(1) .
    ultimately show ?thesis unfolding fresh(1) by (metis in_page_numeral)
  next
    case old
    let ?pb = "tl_ppn (tlb c (tlb_slot vb) (access_way acc')) OR (vb AND 0xfff)"
    have "walk_now c vb acc' (mem c) = (Inr ?pb, mem c)"
      using coh old(1) by (simp add: cache_coherent_def)
    then have "walk_now c vb acc' m = (Inr ?pb, m)"
      using walks_do_not_disturb [OF m walk [unfolded walk_now_of [OF here]]]
      by (simp add: walk_now_of here there)
    then show ?thesis by (simp only: old(2))
  qed
  then show "walk_now c' vb acc' (mem c')
      = (Inr (tl_ppn (tlb c' (tlb_slot vb) (access_way acc')) OR (vb AND 0xfff)), mem c')"
    by (simp add: c' fill_reads)
qed

lemma walk_keeps_size: "walk_of x satp status mode va acc m = (r, t) \<Longrightarrow> length (dram t) = length (dram m)"
  by (auto simp: walk_of_def translation_def marked_length split: if_splits leaf.splits)

lemma failed_walk_keeps_memory: "walk_of x satp status mode va acc m = (Inl e, t) \<Longrightarrow> t = m"
  by (auto simp: walk_of_def translation_def split: if_splits leaf.splits)

text \<open>
  C16. The translation cache is transparent. While every entry that can hit agrees with the page
  tables, a translation through the cache yields what a walk of the tables yields, result, fault
  and memory, and leaves a cache of which the same is true, whatever accessed and dirty bits the
  walk set; nothing of the hart but the memory and the cache changes.
\<close>

theorem cached_translation_is_the_walk:
  assumes "addressable (mem c)" and "tables_in_dram c" and "cache_coherent c"
    and "translate va acc c = (r, c')"
  shows "walk_now c va acc (mem c) = (r, mem c') \<and> cache_coherent c' \<and> tables_in_dram c'
    \<and> addressable (mem c') \<and> c' = c\<lparr>mem := mem c', tlb := tlb c'\<rparr>"
proof (cases "tlb_hit c va acc")
  case True
  then have r: "r = Inr (tl_ppn (tlb c (tlb_slot va) (access_way acc)) OR (va AND 0xfff))" and c': "c' = c"
    using assms(4) translate_hit [OF True] by auto
  have "walk_now c va acc (mem c) = (r, mem c)"
    using assms(3) True unfolding cache_coherent_def r by blast
  then show ?thesis using assms(1-3) by (simp add: c')
next
  case False
  have here: "leaf_of (xlen c) (csr_read (csrs c) SATP) w (mem c) \<noteq> Outside" for w
    using assms(2) by (simp add: tables_in_dram_def)
  obtain m where walk: "walk_now c va acc (mem c) = (r, m)"
    using assms(4) by (auto simp: translate_miss [OF False] walk_now_def split: prod.splits sum.splits)
  note walk_of = walk [unfolded walk_now_of [OF here]]
  show ?thesis
  proof (cases r)
    case (Inl e)
    then have "m = mem c" and "c' = c"
      using failed_walk_keeps_memory walk_of assms(4) walk
      by (auto simp: translate_miss [OF False] walk_now_def)
    then show ?thesis using assms walk by simp
  next
    case (Inr pa)
    then have c': "c' = tlb_fill va acc pa (csr_read (csrs c) SATP) (tlb_ctx c) (c\<lparr>mem := m\<rparr>)"
      using assms(4) walk by (simp add: translate_miss [OF False] walk_now_def)
    have "cache_coherent c'"
      by (rule fill_keeps_coherent [OF assms(1-3) walk [unfolded Inr] c'])
    moreover have "tables_in_dram c'"
      using leaf_of_after_walk [OF assms(1) walk_of [unfolded Inr]] here
      by (simp add: tables_in_dram_def c' fill_reads)
    ultimately show ?thesis
      using walk walk_keeps_size [OF walk_of] assms(1)
      by (simp add: c' fill_reads addressable_def) (simp add: tlb_fill_def)
  qed
qed

lemma one_page_in_dram: "leaf_of Rv32 0x80080000 va (one_page 0xdf) \<noteq> Outside"
proof -
  define t where "t = take_bit 10 (drop_bit 22 va)"
  have "t < 2 ^ 10" unfolding t_def by (rule take_bit_less_exp) simp
  then have bound: "unat t < 1024" by (simp add: word_less_nat_alt)
  then have four: "unat (t * 4) = unat t * 4" by (simp add: unat_word_ariths)
  then have "unat (0x80000000 + t * 4) = 0x80000000 + unat t * 4" using bound by (simp add: unat_word_ariths)
  then have place: "\<not> 0x80000000 + t * 4 < (0x80000000 :: u64)" by (simp add: word_less_nat_alt)
  have a: "pte_address Sv32 va 1 0x80000000 = 0x80000000 + t * 4"
    by (simp add: pte_address_def vpn_bits_def pte_size_def shape_def t_def)
  have "find_leaf Sv32 (one_page 0xdf) va 2 0x80000000 \<noteq> Outside"
  proof (cases "t = 0")
    case True
    then show ?thesis
      unfolding numeral_2_eq_2 find_leaf.simps Let_def One_nat_def [symmetric] a
      by (simp add: pte_size_def shape_def one_page_reads pte_valid_def pte_points_def)
  next
    case False
    then have "0 < unat t" by (simp add: unat_gt_0)
    then have "fst (mem_read (0x80000000 + t * 4) 4 (one_page 0xdf)) = Inl Unmapped"
      using place four bound by (simp add: mem_read_def mem_index_def one_page_def not_less Let_def)
    then show ?thesis
      unfolding numeral_2_eq_2 find_leaf.simps Let_def One_nat_def [symmetric] a
      using place by (simp add: pte_size_def shape_def)
  qed
  then show ?thesis by (simp add: leaf_of_def mode_of_def root_table_def ppn_mask_def shape_def)
qed

theorem cached_translation_is_the_walk_witness:
  "\<exists>c'. translate 0x1234 Load paged_hart = (Inr 0x80001234, c') \<and> cache_coherent c'"
proof -
  have run: "walk_now paged_hart 0x1234 Load (one_page 0xdf) = (Inr 0x80001234, one_page 0xdf)"
    unfolding walk_now_def paged_hart_reads
    by (simp add: mmu_translate_translation one_page_in_dram paged_hart_leaf translation_def mode_of_def
      effective_mode_def paged_hart_reads canonical_address_def grants_def mapped_def marked_def pte_need_def
      vpn_bits_def shape_def ppn_mask_def mask_eq_exp_minus_1)
  have start: "addressable (mem paged_hart)" "tables_in_dram paged_hart" "cache_coherent paged_hart"
    by (simp_all add: addressable_def tables_in_dram_def cache_coherent_def tlb_hit_def tlb_default_def paged_hart_reads
      one_page_in_dram Let_def) (simp add: one_page_def)
  obtain r c' where c': "translate 0x1234 Load paged_hart = (r, c')" by fastforce
  have "walk_now paged_hart 0x1234 Load (one_page 0xdf) = (r, mem c') \<and> cache_coherent c'"
    using cached_translation_is_the_walk [OF start c'] by (simp add: paged_hart_reads)
  then show ?thesis using c' run by simp
qed

end
