(* ===== verification/Exec_Fp.thy ===== *)
theory Exec_Fp
  imports Cpu
begin

text \<open>
  The floating-point instructions, \<^verbatim>\<open>emu/src/cpu.rs\<close>: OP-FP (\<^verbatim>\<open>execute_op_fp\<close>, one
  definition per group of its arms), the fused multiply-adds, and the loads and stores.
\<close>

definition fp_result :: "fmt \<Rightarrow> nat \<Rightarrow> u64 \<times> u32 \<Rightarrow> (cpu, exception, unit) prog" where
  "fp_result f d res = update (\<lambda>c. set_fflags (snd res) (write_freg f d (fst res) c))"

definition int_result :: "nat \<Rightarrow> u64 \<times> u32 \<Rightarrow> (cpu, exception, unit) prog" where
  "int_result d res = update (\<lambda>c. set_fflags (snd res) (wr d (fst res) c))"

definition fp_arith :: "u32 \<Rightarrow> fmt \<Rightarrow> u64 \<Rightarrow> u64 \<Rightarrow> rm \<Rightarrow> u64 \<times> u32" where
  "fp_arith op3 f a b r =
    (if op3 = 0x00 then fadd f a b r
     else if op3 = 0x01 then fsub f a b r
     else if op3 = 0x02 then fmul f a b r
     else fdiv f a b r)"

definition fsgnj :: "u32 \<Rightarrow> fmt \<Rightarrow> u64 \<Rightarrow> u64 \<Rightarrow> u64 option" where
  "fsgnj f3 f a b =
    (let sign = (if f3 = 0x0 then Some (b AND sign_mask f)
                 else if f3 = 0x1 then Some (NOT b AND sign_mask f)
                 else if f3 = 0x2 then Some ((a XOR b) AND sign_mask f)
                 else None)
     in map_option (\<lambda>s. (a AND NOT (sign_mask f)) OR s) sign)"

definition fcmp :: "u32 \<Rightarrow> fmt \<Rightarrow> u64 \<Rightarrow> u64 \<Rightarrow> (bool \<times> u32) option" where
  "fcmp f3 f a b =
    (if f3 = 0x0 then Some (flt f a b True)
     else if f3 = 0x1 then Some (flt f a b False)
     else if f3 = 0x2 then Some (feq f a b)
     else None)"

definition int_format :: "nat \<Rightarrow> nat \<Rightarrow> (nat \<times> bool) option" where
  "int_format s2 xb =
    (if s2 = 0 then Some (32, True)
     else if s2 = 1 then Some (32, False)
     else if s2 = 2 \<and> xb = 64 then Some (64, True)
     else if s2 = 3 \<and> xb = 64 then Some (64, False)
     else None)"

text \<open>The sign and magnitude of an integer source; \<^verbatim>\<open>unsigned_abs\<close> of an \<open>i64\<close>.\<close>

definition unsigned_abs :: "u64 \<Rightarrow> u64" where
  "unsigned_abs v = (if sint v < 0 then - v else v)"

definition int_source :: "nat \<Rightarrow> nat \<Rightarrow> u64 \<Rightarrow> (bool \<times> u64) option" where
  "int_source s2 xb src =
    (if s2 = 0 then (let v = sext src 32 in Some (sint v < 0, unsigned_abs v))
     else if s2 = 1 then Some (False, src AND 0xffffffff)
     else if s2 = 2 \<and> xb = 64 then Some (sint src < 0, unsigned_abs src)
     else if s2 = 3 \<and> xb = 64 then Some (False, src)
     else None)"

definition op_fp_move :: "u32 \<Rightarrow> fmt \<Rightarrow> nat \<Rightarrow> nat \<Rightarrow> nat \<Rightarrow> u32 \<Rightarrow> u32 \<Rightarrow> (cpu, exception, unit) prog" where
  "op_fp_move inst f d s1 s2 f3 sel c =
    (if sel = 0x1c then
       (if s2 \<noteq> 0 then (Inl (IllegalInstruction inst), c)
        else if f3 = 0x0 \<and> f = fmt_S then (Inr (), wr d (sext (fregs c s1) 32) c)
        else if f3 = 0x0 \<and> xbits c = 64 then (Inr (), wr d (fregs c s1) c)
        else if f3 = 0x1 then (Inr (), wr d (classify f (freg c f s1)) c)
        else (Inl (IllegalInstruction inst), c))
     else
       (if s2 \<noteq> 0 \<or> f3 \<noteq> 0 then (Inl (IllegalInstruction inst), c)
        else if f = fmt_S then (Inr (), fw d (box32 (rr c s1)) c)
        else if xbits c = 64 then (Inr (), fw d (rr c s1) c)
        else (Inl (IllegalInstruction inst), c)))"

definition execute_op_fp ::
  "u32 \<Rightarrow> nat \<Rightarrow> nat \<Rightarrow> nat \<Rightarrow> u32 \<Rightarrow> u32 \<Rightarrow> (cpu, exception, unit) prog" where
  "execute_op_fp inst d s1 s2 f3 f7 c =
    (let illegal = (Inl (IllegalInstruction inst), c); sel = drop_bit 2 f7
     in case fp_fmt (f7 AND 0x3) of None \<Rightarrow> illegal | Some f \<Rightarrow>
     (let a = freg c f s1; b = freg c f s2; rmode = rounding c f3
      in if sel \<le> 0x03 then
           (case rmode of None \<Rightarrow> illegal
            | Some r \<Rightarrow> fp_result f d (fp_arith sel f a b r) c)
         else if sel = 0x0b then
           (case rmode of None \<Rightarrow> illegal
            | Some r \<Rightarrow> if s2 \<noteq> 0 then illegal else fp_result f d (fsqrt f a r) c)
         else if sel = 0x04 then
           (case fsgnj f3 f a b of None \<Rightarrow> illegal
            | Some v \<Rightarrow> (Inr (), write_freg f d v c))
         else if sel = 0x05 then
           (if f3 = 0x0 then fp_result f d (min_max f a b False) c
            else if f3 = 0x1 then fp_result f d (min_max f a b True) c
            else illegal)
         else if sel = 0x08 then
           (case rmode of None \<Rightarrow> illegal
            | Some r \<Rightarrow>
                (case fp_fmt (of_nat s2) of None \<Rightarrow> illegal
                 | Some from \<Rightarrow>
                     if from = f then illegal
                     else fp_result f d (fconvert from f (freg c from s1) r) c))
         else if sel = 0x14 then
           (case fcmp f3 f a b of None \<Rightarrow> illegal
            | Some (v, flags) \<Rightarrow> int_result d (of_bool v, flags) c)
         else if sel = 0x18 then
           (case rmode of None \<Rightarrow> illegal
            | Some r \<Rightarrow>
                (case int_format s2 (xbits c) of None \<Rightarrow> illegal
                 | Some (width, signd) \<Rightarrow>
                     (let (v, flags) = to_int f a width signd r
                      in int_result d (sext v width, flags) c)))
         else if sel = 0x1a then
           (case rmode of None \<Rightarrow> illegal
            | Some r \<Rightarrow>
                (case int_source s2 (xbits c) (rr c s1) of None \<Rightarrow> illegal
                 | Some (sign, magnitude) \<Rightarrow> fp_result f d (from_int f sign magnitude r) c))
         else if sel = 0x1c \<or> sel = 0x1e then op_fp_move inst f d s1 s2 f3 sel c
         else illegal))"

definition exec_fma :: "u32 \<Rightarrow> (cpu, exception, unit) prog" where
  "exec_fma inst c =
    (let f7 = funct7 inst; op3 = opcode inst
     in case (fp_fmt (f7 AND 0x3), rounding c (funct3 inst)) of
          (Some f, Some r) \<Rightarrow>
            if fp_enabled c then
              (let s3 = unat (drop_bit 2 f7);
                   (neg_product, neg_addend) =
                     (if op3 = 0x43 then (False, False)
                      else if op3 = 0x47 then (False, True)
                      else if op3 = 0x4b then (True, False)
                      else (True, True))
               in fp_result f (rd inst)
                    (fma f (freg c f (rs1 inst)) (freg c f (rs2 inst)) (freg c f s3)
                       neg_product neg_addend r) c)
            else (Inl (IllegalInstruction inst), c)
        | _ \<Rightarrow> (Inl (IllegalInstruction inst), c))"

definition exec_fp_mem :: "u32 \<Rightarrow> (cpu, exception, unit) prog" where
  "exec_fp_mem inst c =
    (if \<not> fp_enabled c then (Inl (IllegalInstruction inst), c)
     else
       let store = (opcode inst = 0x27);
           off = (if store then imm_s inst else imm_i inst);
           addr = trunc (rr c (rs1 inst) + scast off) (xbits c);
           f3 = funct3 inst
       in if f3 = 0x2 \<and> \<not> store then
            bindE (read_mem addr 4) (\<lambda>v. update (fw (rd inst) (box32 v))) c
          else if f3 = 0x3 \<and> \<not> store then
            bindE (read_mem addr 8) (\<lambda>v. update (fw (rd inst) v)) c
          else if f3 = 0x2 \<and> store then write_mem addr 4 (fregs c (rs2 inst)) c
          else if f3 = 0x3 \<and> store then write_mem addr 8 (fregs c (rs2 inst)) c
          else (Inl (IllegalInstruction inst), c))"

end
