(* ===== verification/Interrupts.thy ===== *)
theory Interrupts
  imports Cpu
begin

text \<open>
  Time, interrupts and traps of the hart, \<^verbatim>\<open>emu/src/cpu.rs\<close>: the timer tick with the device
  sweep, interrupt selection, trap entry and trap return.
\<close>

definition upd_csrs :: "(csrfile \<Rightarrow> csrfile) \<Rightarrow> cpu \<Rightarrow> cpu" where
  "upd_csrs g c = c\<lparr>csrs := g (csrs c)\<rparr>"

definition upd_mem :: "(memory \<Rightarrow> memory) \<Rightarrow> cpu \<Rightarrow> cpu" where
  "upd_mem g c = c\<lparr>mem := g (mem c)\<rparr>"

lemma upd_csrs_simps [simp]:
  "csrs (upd_csrs g c) = g (csrs c)" "mem (upd_csrs g c) = mem c" "regs (upd_csrs g c) = regs c"
  "fregs (upd_csrs g c) = fregs c" "pc (upd_csrs g c) = pc c" "xlen (upd_csrs g c) = xlen c"
  "cycle (upd_csrs g c) = cycle c" "reservation (upd_csrs g c) = reservation c"
  "priv_mode (upd_csrs g c) = priv_mode c" "sbi (upd_csrs g c) = sbi c"
  "timer_armed (upd_csrs g c) = timer_armed c" "shutdown (upd_csrs g c) = shutdown c"
  "wrote_instret (upd_csrs g c) = wrote_instret c" "tlb (upd_csrs g c) = tlb c"
  by (simp_all add: upd_csrs_def)

lemma upd_mem_simps [simp]:
  "mem (upd_mem g c) = g (mem c)" "csrs (upd_mem g c) = csrs c" "regs (upd_mem g c) = regs c"
  "fregs (upd_mem g c) = fregs c" "pc (upd_mem g c) = pc c" "xlen (upd_mem g c) = xlen c"
  "cycle (upd_mem g c) = cycle c" "reservation (upd_mem g c) = reservation c"
  "priv_mode (upd_mem g c) = priv_mode c" "sbi (upd_mem g c) = sbi c"
  "timer_armed (upd_mem g c) = timer_armed c" "shutdown (upd_mem g c) = shutdown c"
  "wrote_instret (upd_mem g c) = wrote_instret c" "tlb (upd_mem g c) = tlb c"
  by (simp_all add: upd_mem_def)

definition set_mip :: "u64 \<Rightarrow> bool \<Rightarrow> cpu \<Rightarrow> cpu" where
  "set_mip b on c = upd_csrs (if on then csr_set_bits MIP b else csr_clear_bits MIP b) c"

section \<open>The timer tick\<close>

definition advance_mtime :: "cpu \<Rightarrow> cpu" where
  "advance_mtime c =
    (let c1 = upd_mem (\<lambda>m. m\<lparr>clint := (clint m)\<lparr>mtime := mtime (clint m) + 1\<rparr>\<rparr>) c
     in upd_csrs (csr_force TIME (mtime (clint (mem c1)))) c1)"

definition tick_timer_bits :: "cpu \<Rightarrow> cpu" where
  "tick_timer_bits c =
    (let due = (mtime (clint (mem c)) \<ge> mtimecmp (clint (mem c)));
         c1 = (if sbi c then
                 (if timer_armed c \<and> due then (set_mip STIP True c)\<lparr>timer_armed := False\<rparr> else c)
               else set_mip MTIP due c)
     in set_mip MSIP (msip (clint (mem c)) \<noteq> 0) c1)"

definition sweep_due :: "cpu \<Rightarrow> bool" where
  "sweep_due c \<longleftrightarrow>
    devices_dirty (mem c) \<or> has_input (uart (mem c)) \<or> cycle c mod DEVICE_POLL_INTERVAL = 0"

definition sweep_devices :: "cpu \<Rightarrow> cpu" where
  "sweep_devices c =
    (let uart_active = is_interrupting (uart (mem c));
         c1 = upd_mem (\<lambda>m. m\<lparr>devices_dirty := False, plic := set_level UART_IRQ uart_active (plic m)\<rparr>) c;
         c2 = set_mip MEIP (is_pending (plic (mem c1)) CONTEXT_MACHINE) c1
     in set_mip SEIP (is_pending (plic (mem c2)) CONTEXT_SUPERVISOR) c2)"

definition tick_timer :: "cpu \<Rightarrow> cpu" where
  "tick_timer c =
    (let c1 = tick_timer_bits (advance_mtime c)
     in if \<not> sweep_due c1 then c1 else sweep_devices c1)"

section \<open>Interrupt selection\<close>

definition ORDER :: "(u64 \<times> u64) list" where
  "ORDER = [(MEIP, MACHINE_EXTERNAL), (MSIP, MACHINE_SOFTWARE), (MTIP, MACHINE_TIMER),
            (SEIP, SUPERVISOR_EXTERNAL), (SSIP, SUPERVISOR_SOFTWARE), (STIP, SUPERVISOR_TIMER)]"

definition int_enabled :: "priv \<Rightarrow> u64 \<Rightarrow> u64 \<Rightarrow> u64 \<Rightarrow> bool" where
  "int_enabled mode status mideleg b =
    (if mideleg AND b \<noteq> 0
     then (case mode of Machine \<Rightarrow> False | Supervisor \<Rightarrow> status AND ST_SIE \<noteq> 0 | User \<Rightarrow> True)
     else mode < Machine \<or> status AND ST_MIE \<noteq> 0)"

fun select_interrupt :: "priv \<Rightarrow> u64 \<Rightarrow> u64 \<Rightarrow> u64 \<Rightarrow> (u64 \<times> u64) list \<Rightarrow> u64 option" where
  "select_interrupt mode status mideleg pend [] = None"
| "select_interrupt mode status mideleg pend ((b, cs) # rest) =
     (if pend AND b = 0 then select_interrupt mode status mideleg pend rest
      else if int_enabled mode status mideleg b then Some cs
      else select_interrupt mode status mideleg pend rest)"

definition pending_interrupt :: "cpu \<Rightarrow> u64 option" where
  "pending_interrupt c =
    (let pend = csr_read (csrs c) MIE AND csr_read (csrs c) MIP
     in if pend = 0 then None
        else select_interrupt (priv_mode c) (csr_read (csrs c) MSTATUS)
               (csr_read (csrs c) MIDELEG) pend ORDER)"

section \<open>Trap entry\<close>

definition trap_vector :: "cpu \<Rightarrow> u16 \<Rightarrow> u64 \<Rightarrow> bool \<Rightarrow> u64" where
  "trap_vector c which cs is_interrupt =
    (let tvec = csr_read (csrs c) which;
         base = tvec AND NOT 0x3
     in if tvec AND 0x3 = 1 \<and> is_interrupt then base + 4 * cs else base)"

definition to_supervisor :: "cpu \<Rightarrow> u64 \<Rightarrow> bool \<Rightarrow> bool" where
  "to_supervisor c cs is_interrupt \<longleftrightarrow>
    (let deleg = csr_read (csrs c) (if is_interrupt then MIDELEG else MEDELEG)
     in priv_mode c \<le> Supervisor \<and> shr64 deleg cs AND 1 = 1)"

definition cause_flag :: "cpu \<Rightarrow> bool \<Rightarrow> u64" where
  "cause_flag c is_interrupt = (if is_interrupt then push_bit (xbits c - 1) 1 else 0)"

definition enter_supervisor :: "u64 \<Rightarrow> u64 \<Rightarrow> u64 \<Rightarrow> bool \<Rightarrow> cpu \<Rightarrow> cpu" where
  "enter_supervisor cs tv epc is_interrupt c =
    (let status = csr_read (csrs c) MSTATUS;
         s0 = status AND NOT (ST_SPIE OR ST_SIE OR ST_SPP);
         s1 = (if status AND ST_SIE \<noteq> 0 then s0 OR ST_SPIE else s0);
         s2 = (if priv_mode c = Supervisor then s1 OR ST_SPP else s1);
         c1 = upd_csrs (\<lambda>f. csr_force MSTATUS s2 (csr_force STVAL tv
                (csr_force SCAUSE (cs OR cause_flag c is_interrupt) (csr_force SEPC epc f)))) c;
         c2 = c1\<lparr>priv_mode := Supervisor\<rparr>
     in c2\<lparr>pc := trap_vector c2 STVEC cs is_interrupt\<rparr>)"

definition enter_machine :: "u64 \<Rightarrow> u64 \<Rightarrow> u64 \<Rightarrow> bool \<Rightarrow> cpu \<Rightarrow> cpu" where
  "enter_machine cs tv epc is_interrupt c =
    (let status = csr_read (csrs c) MSTATUS;
         s0 = status AND NOT (ST_MPIE OR ST_MIE OR ST_MPP);
         s1 = (if status AND ST_MIE \<noteq> 0 then s0 OR ST_MPIE else s0);
         s2 = s1 OR push_bit MPP_SHIFT (priv_bits (priv_mode c));
         c1 = upd_csrs (\<lambda>f. csr_force MSTATUS s2 (csr_force MTVAL tv
                (csr_force MCAUSE (cs OR cause_flag c is_interrupt) (csr_force MEPC epc f)))) c;
         c2 = c1\<lparr>priv_mode := Machine\<rparr>
     in c2\<lparr>pc := trap_vector c2 MTVEC cs is_interrupt\<rparr>)"

definition take_trap :: "u64 \<Rightarrow> u64 \<Rightarrow> u64 \<Rightarrow> bool \<Rightarrow> cpu \<Rightarrow> cpu" where
  "take_trap cs tv epc is_interrupt c =
    (if to_supervisor c cs is_interrupt
     then enter_supervisor cs tv epc is_interrupt c
     else enter_machine cs tv epc is_interrupt c)"

definition trap :: "exception \<Rightarrow> u64 \<Rightarrow> cpu \<Rightarrow> cpu" where
  "trap e inst_pc c = take_trap (cause e (priv_mode c)) (tval e) inst_pc False c"

section \<open>Trap return\<close>

definition trap_return :: "bool \<Rightarrow> cpu \<Rightarrow> cpu" where
  "trap_return from_machine c =
    (let status = csr_read (csrs c) MSTATUS;
         pie = (if from_machine then ST_MPIE else ST_SPIE);
         ie = (if from_machine then ST_MIE else ST_SIE);
         pp_mask = (if from_machine then ST_MPP else ST_SPP);
         epc = (if from_machine then MEPC else SEPC);
         target = (if from_machine then priv_from_bits (drop_bit MPP_SHIFT (status AND ST_MPP))
                   else if status AND ST_SPP \<noteq> 0 then Supervisor else User);
         s0 = status AND NOT (ie OR pp_mask);
         s1 = (if status AND pie \<noteq> 0 then s0 OR ie else s0);
         s2 = s1 OR pie;
         s3 = (if target \<noteq> Machine then s2 AND NOT ST_MPRV else s2);
         c1 = (upd_csrs (csr_force MSTATUS s3) c)\<lparr>priv_mode := target\<rparr>
     in c1\<lparr>pc := csr_read (csrs c1) epc\<rparr>)"

section \<open>Returning from a trap\<close>

lemma enable_bit_cases:
  "(w :: u64) AND ST_MIE = 0 \<or> w AND ST_MIE = ST_MIE"
  "(w :: u64) AND ST_SIE = 0 \<or> w AND ST_SIE = ST_SIE"
  using and_bit_cases [of w 3] and_bit_cases [of w 1] by simp_all

definition resumed :: "u64 \<Rightarrow> cpu \<Rightarrow> cpu \<Rightarrow> bool" where
  "resumed epc c c' \<longleftrightarrow>
     priv_mode c' = priv_mode c \<and> pc c' = trunc epc (xlen_bits (csr_xlen (csrs c)))
     \<and> csr_regs (csrs c') MSTATUS AND ST_MIE = csr_regs (csrs c) MSTATUS AND ST_MIE
     \<and> csr_regs (csrs c') MSTATUS AND ST_SIE = csr_regs (csrs c) MSTATUS AND ST_SIE
     \<and> regs c' = regs c \<and> fregs c' = fregs c \<and> mem c' = mem c"

lemma mret_resumes: "resumed epc c (trap_return True (enter_machine cs tv epc i c))"
  using enable_bit_cases(1) [of "csr_regs (csrs c) MSTATUS"]
  unfolding resumed_def trap_return_def enter_machine_def Let_def
  by (cases "priv_mode c")
     (auto simp: csr_read_plain status_fields word_ao_dist and.assoc priv_from_bits_def)

lemma sret_resumes:
  "priv_mode c \<noteq> Machine \<Longrightarrow> resumed epc c (trap_return False (enter_supervisor cs tv epc i c))"
  using enable_bit_cases(2) [of "csr_regs (csrs c) MSTATUS"]
  unfolding resumed_def trap_return_def enter_supervisor_def Let_def
  by (cases "priv_mode c")
     (auto simp: csr_read_plain status_fields word_ao_dist and.assoc priv_from_bits_def)

text \<open>
  C22. Taking a trap and returning from it resumes the interrupted program: the return of the
  mode that handled the trap restores the privilege, the interrupt enables, the address, and
  leaves registers and memory alone, whether or not the trap was delegated.
\<close>

theorem trap_return_resumes:
  "resumed epc c (trap_return (\<not> to_supervisor c cs i) (take_trap cs tv epc i c))"
  using mret_resumes sret_resumes [of c epc cs tv i]
  by (auto simp: take_trap_def to_supervisor_def Let_def)

lemma mret_priv:
  "priv_mode (trap_return True c) = priv_from_bits (drop_bit 11 (csr_regs (csrs c) MSTATUS AND ST_MPP))"
  by (simp only: trap_return_def Let_def status_fields simp_thms if_True) simp

lemma mret_clears_mpp: "csr_regs (csrs (trap_return True c)) MSTATUS AND ST_MPP = 0"
  by (simp add: trap_return_def Let_def word_ao_dist and.assoc)

text \<open>
  A machine-mode handler that returns twice cannot return to machine mode the second time:
  the first return leaves the least privileged mode in MPP.
\<close>

theorem second_mret_lands_in_user:
  "priv_mode (trap_return True (trap_return True c)) = User"
  by (simp only: mret_priv [of "trap_return True c"] mret_clears_mpp) (simp add: priv_from_bits_def)

section \<open>Which interrupt is taken\<close>

text \<open>
  The rule: an interrupt for a mode above the current one is always taken, one for the current
  mode only when that mode's global enable is set, one for a lower mode never.
\<close>

definition handler_mode :: "cpu \<Rightarrow> u64 \<Rightarrow> priv" where
  "handler_mode c b = (if csr_read (csrs c) MIDELEG AND b \<noteq> 0 then Supervisor else Machine)"

definition takeable :: "cpu \<Rightarrow> u64 \<Rightarrow> bool" where
  "takeable c b \<longleftrightarrow>
     csr_read (csrs c) MIE AND csr_read (csrs c) MIP AND b \<noteq> 0
     \<and> (priv_mode c < handler_mode c b
        \<or> priv_mode c = handler_mode c b
          \<and> csr_regs (csrs c) MSTATUS AND (if handler_mode c b = Machine then ST_MIE else ST_SIE) \<noteq> 0)"

lemma takeable_iff:
  "takeable c b \<longleftrightarrow>
     (csr_read (csrs c) MIE AND csr_read (csrs c) MIP) AND b \<noteq> 0
     \<and> int_enabled (priv_mode c) (csr_read (csrs c) MSTATUS) (csr_read (csrs c) MIDELEG) b"
  by (cases "priv_mode c")
     (auto simp: takeable_def int_enabled_def handler_mode_def status_fields and.assoc)

lemma select_interrupt_find:
  "select_interrupt md st dl pend xs =
     map_option snd (find (\<lambda>(b, cs). pend AND b \<noteq> 0 \<and> int_enabled md st dl b) xs)"
proof (induction xs)
  case (Cons x xs)
  then show ?case by (cases x) simp
qed simp

lemma takeable_number:
  "find (\<lambda>(b, cs). takeable c b) ORDER =
     (if takeable c 0x800 then Some (0x800, 11) else if takeable c 0x8 then Some (0x8, 3)
      else if takeable c 0x80 then Some (0x80, 7) else if takeable c 0x200 then Some (0x200, 9)
      else if takeable c 0x2 then Some (0x2, 1) else if takeable c 0x20 then Some (0x20, 5) else None)"
  by (simp add: ORDER_def)

text \<open>
  C23. Interrupt number \<open>n\<close> has bit \<open>n\<close> of \<open>mie\<close> and \<open>mip\<close>. The one a step takes is decided in
  this order, and there is none exactly when the rule lets none through: machine external (11),
  machine software (3), machine timer (7), supervisor external (9), supervisor software (1),
  supervisor timer (5). All three machine interrupts stand before any supervisor one; the comment
  in the source, which asks for machine before supervisor at each of external, software and timer,
  says something else.
\<close>

theorem pending_interrupt_is_first_takeable:
  "pending_interrupt c =
     (if takeable c 0x800 then Some 11
      else if takeable c 0x8 then Some 3
      else if takeable c 0x80 then Some 7
      else if takeable c 0x200 then Some 9
      else if takeable c 0x2 then Some 1
      else if takeable c 0x20 then Some 5
      else None)"
proof -
  have "pending_interrupt c = map_option snd (find (\<lambda>(b, cs). takeable c b) ORDER)"
    by (simp add: pending_interrupt_def Let_def select_interrupt_find takeable_iff find_None_iff)
  then show ?thesis by (simp add: takeable_number)
qed

end
