(* ===== verification/Exec.thy ===== *)
theory Exec
  imports Exec_Fp Interrupts
begin

text \<open>
  Execution of one instruction, \<^verbatim>\<open>Cpu::execute\<close> of \<^verbatim>\<open>emu/src/cpu.rs\<close>: one definition per
  opcode arm, composed by \<open>execute\<close> in the source's order. Each arm runs with \<open>pc\<close> already
  advanced, and returns the exception together with the state its effects have left.
\<close>

definition illegal :: "u32 \<Rightarrow> (cpu, exception, 'a) prog" where
  "illegal inst = raise (IllegalInstruction inst)"

definition exec_jal :: "u32 \<Rightarrow> u64 \<Rightarrow> u64 \<Rightarrow> cpu \<Rightarrow> cpu" where
  "exec_jal inst inst_pc next_pc c =
    (wr (rd inst) next_pc c)\<lparr>pc := inst_pc + scast (imm_j inst)\<rparr>"

definition exec_jalr :: "u32 \<Rightarrow> u64 \<Rightarrow> cpu \<Rightarrow> cpu" where
  "exec_jalr inst next_pc c =
    (let target = (rr c (rs1 inst) + scast (imm_i inst)) AND NOT 1
     in (wr (rd inst) next_pc c)\<lparr>pc := trunc target (xbits c)\<rparr>)"

definition branch_taken :: "cpu \<Rightarrow> u32 \<Rightarrow> nat \<Rightarrow> nat \<Rightarrow> bool option" where
  "branch_taken c f3 s1 s2 =
    (let a = rr c s1; b = rr c s2; sa = sint (rs c s1); sb = sint (rs c s2)
     in if f3 = 0x0 then Some (a = b)
        else if f3 = 0x1 then Some (a \<noteq> b)
        else if f3 = 0x4 then Some (sa < sb)
        else if f3 = 0x5 then Some (sa \<ge> sb)
        else if f3 = 0x6 then Some (a < b)
        else if f3 = 0x7 then Some (a \<ge> b)
        else None)"

definition exec_branch :: "u32 \<Rightarrow> u64 \<Rightarrow> (cpu, exception, unit) prog" where
  "exec_branch inst inst_pc c =
    (case branch_taken c (funct3 inst) (rs1 inst) (rs2 inst) of
       None \<Rightarrow> illegal inst c
     | Some taken \<Rightarrow>
         (Inr (), if taken then c\<lparr>pc := trunc (inst_pc + scast (imm_b inst)) (xbits c)\<rparr> else c))"

definition exec_load :: "u32 \<Rightarrow> (cpu, exception, unit) prog" where
  "exec_load inst c =
    (let addr = trunc (rr c (rs1 inst) + scast (imm_i inst)) (xbits c);
         f3 = funct3 inst; xb = xbits c;
         ld = (\<lambda>n k. bindE (read_mem addr n) (\<lambda>v. update (wr (rd inst) (k v))) c)
     in if f3 = 0x0 then ld 1 (\<lambda>v. sext v 8)
        else if f3 = 0x1 then ld 2 (\<lambda>v. sext v 16)
        else if f3 = 0x2 then ld 4 (\<lambda>v. sext v 32)
        else if f3 = 0x3 \<and> xb = 64 then ld 8 (\<lambda>v. v)
        else if f3 = 0x4 then ld 1 (\<lambda>v. v)
        else if f3 = 0x5 then ld 2 (\<lambda>v. v)
        else if f3 = 0x6 \<and> xb = 64 then ld 4 (\<lambda>v. v)
        else illegal inst c)"

definition exec_store :: "u32 \<Rightarrow> (cpu, exception, unit) prog" where
  "exec_store inst c =
    (let addr = trunc (rr c (rs1 inst) + scast (imm_s inst)) (xbits c);
         v = rr c (rs2 inst); f3 = funct3 inst
     in if f3 = 0x0 then write_mem addr 1 v c
        else if f3 = 0x1 then write_mem addr 2 v c
        else if f3 = 0x2 then write_mem addr 4 v c
        else if f3 = 0x3 \<and> xbits c = 64 then write_mem addr 8 v c
        else illegal inst c)"

definition exec_op_imm :: "u32 \<Rightarrow> (cpu, exception, unit) prog" where
  "exec_op_imm inst c =
    (let f3 = funct3 inst; f7 = funct7 inst; xb = xbits c; word_op = (opcode inst = 0x1b);
         width = (if word_op then 32 else xb);
         is_shift = (f3 = 0x1 \<or> f3 = 0x5);
         b = (if is_shift then ucast (drop_bit 20 inst AND 0x3f) else scast (imm_i inst));
         sel = (if is_shift then f7 AND NOT 1 else 0)
     in if width = 32 \<and> word_op \<and> xb = 32 then illegal inst c
        else if is_shift \<and> width = 32 \<and> f7 AND 1 \<noteq> 0 then illegal inst c
        else (case alu f3 sel (rr c (rs1 inst)) b width of
                Some v \<Rightarrow> (Inr (), wr (rd inst) v c)
              | None \<Rightarrow> illegal inst c))"

definition exec_op :: "u32 \<Rightarrow> (cpu, exception, unit) prog" where
  "exec_op inst c =
    (let f3 = funct3 inst; f7 = funct7 inst; xb = xbits c; word_op = (opcode inst = 0x3b);
         width = (if word_op then 32 else xb);
         a = rr c (rs1 inst); b = rr c (rs2 inst)
     in if word_op \<and> xb = 32 then illegal inst c
        else (case (if f7 = 0x01 then muldiv f3 a b width else alu f3 f7 a b width) of
                Some v \<Rightarrow> (Inr (), wr (rd inst) v c)
              | None \<Rightarrow> illegal inst c))"

definition amo_new :: "u32 \<Rightarrow> u64 \<Rightarrow> u64 \<Rightarrow> nat \<Rightarrow> u64 option" where
  "amo_new op3 a b width =
    (let sb = sext b width; ua = trunc a width; ub = trunc b width
     in if op3 = 0x00 then Some (a + b)
        else if op3 = 0x01 then Some b
        else if op3 = 0x04 then Some (a XOR b)
        else if op3 = 0x08 then Some (a OR b)
        else if op3 = 0x0c then Some (a AND b)
        else if op3 = 0x10 then Some (if sint sb < sint a then sb else a)
        else if op3 = 0x14 then Some (if sint a > sint sb then a else sb)
        else if op3 = 0x18 then Some (min ua ub)
        else if op3 = 0x1c then Some (max ua ub)
        else None)"

definition exec_amo :: "u32 \<Rightarrow> (cpu, exception, unit) prog" where
  "exec_amo inst c =
    (let f3 = funct3 inst; op3 = drop_bit 2 (funct7 inst); addr = rr c (rs1 inst)
     in if f3 \<noteq> 0x2 \<and> \<not> (f3 = 0x3 \<and> xbits c = 64) then illegal inst c
        else
          let width = (if f3 = 0x2 then 32 else 64); sz = width div 8
          in if addr mod of_nat sz \<noteq> 0 then (Inl (StoreAddressMisaligned addr), c)
             else if op3 = 0x02 then
               (if rs2 inst \<noteq> 0 then illegal inst c
                else bindE (read_mem addr sz) (\<lambda>v.
                       update (\<lambda>c. wr (rd inst) (sext v width) (c\<lparr>reservation := Some addr\<rparr>))) c)
             else if op3 = 0x03 then
               (let ok = (reservation c = Some addr)
                in bindE (if ok then write_mem addr sz (rr c (rs2 inst)) else ret ())
                     (\<lambda>_. update (\<lambda>c. wr (rd inst) (of_bool (\<not> ok)) (c\<lparr>reservation := None\<rparr>))) c)
             else bindE (read_mem addr sz) (\<lambda>old.
                 let a = sext old width
                 in case amo_new op3 a (rr c (rs2 inst)) width of
                      None \<Rightarrow> illegal inst
                    | Some new \<Rightarrow>
                        bindE (write_mem addr sz new) (\<lambda>_. update (wr (rd inst) a))) c)"

section \<open>SYSTEM\<close>

definition counter_enabled :: "cpu \<Rightarrow> u16 \<Rightarrow> bool" where
  "counter_enabled c addr =
    (let allowed = (\<lambda>b. \<not> (priv_mode c < Machine \<and> drop_bit b (csr_read (csrs c) MCOUNTEREN) AND 1 = 0)
                      \<and> \<not> (priv_mode c < Supervisor \<and> drop_bit b (csr_read (csrs c) SCOUNTEREN) AND 1 = 0))
     in if addr = CYCLE \<or> addr = CYCLEH then allowed 0
        else if addr = TIME \<or> addr = TIMEH then allowed 1
        else if addr = INSTRET \<or> addr = INSTRETH then allowed 2
        else True)"

definition is_fp_csr :: "u16 \<Rightarrow> bool" where
  "is_fp_csr addr \<longleftrightarrow> addr = FFLAGS \<or> addr = FRM \<or> addr = FCSR"

definition csr_denied :: "cpu \<Rightarrow> u16 \<Rightarrow> bool \<Rightarrow> bool" where
  "csr_denied c addr writes \<longleftrightarrow>
     \<not> csr_exists (csrs c) addr \<or> \<not> csr_accessible addr (priv_mode c) writes
       \<or> \<not> counter_enabled c addr
     \<or> (is_fp_csr addr \<and> \<not> fp_enabled c)
     \<or> (addr = SATP \<and> priv_mode c = Supervisor \<and> csr_read (csrs c) MSTATUS AND ST_TVM \<noteq> 0)"

definition csr_commit :: "u16 \<Rightarrow> u64 \<Rightarrow> cpu \<Rightarrow> cpu" where
  "csr_commit addr new c =
    (let c1 = upd_csrs (csr_write addr (trunc new (xbits c))) c;
         c2 = (if addr = MINSTRET \<or> addr = MINSTRETH \<or> addr = INSTRET
               then c1\<lparr>wrote_instret := True\<rparr> else c1)
     in if is_fp_csr addr then dirty_fp c2 else c2)"

definition exec_csr :: "u32 \<Rightarrow> (cpu, exception, unit) prog" where
  "exec_csr inst c =
    (let addr = csr inst; f3 = funct3 inst; s1 = rs1 inst;
         writes = (f3 AND 0x3 = 0x1 \<or> s1 \<noteq> 0)
     in if csr_denied c addr writes then illegal inst c
        else
          let old = csr_read (csrs c) addr;
              src = (if f3 AND 0x4 \<noteq> 0 then of_nat s1 else rr c s1);
              op2 = f3 AND 0x3
          in if op2 = 0 then illegal inst c
             else
               let new = (if op2 = 0x1 then src else if op2 = 0x2 then old OR src
                          else old AND NOT src)
               in (Inr (), wr (rd inst) old (if writes then csr_commit addr new c else c)))"

definition exec_priv :: "u32 \<Rightarrow> (cpu, exception, unit) prog" where
  "exec_priv inst c =
    (let v = drop_bit 20 inst; status = csr_read (csrs c) MSTATUS
     in if v = 0x000 then (Inl EnvironmentCall, c)
        else if v = 0x001 then (Inl Breakpoint, c)
        else if v = 0x102 then
          (if priv_mode c < Supervisor \<or> (priv_mode c = Supervisor \<and> status AND ST_TSR \<noteq> 0)
           then illegal inst c else (Inr (), trap_return False c))
        else if v = 0x302 then
          (if priv_mode c < Machine then illegal inst c else (Inr (), trap_return True c))
        else if v = 0x105 then
          (if priv_mode c < Machine \<and> status AND ST_TW \<noteq> 0 then illegal inst c else (Inr (), c))
        else if drop_bit 5 v = 0x09 then
          (if priv_mode c < Supervisor \<or> (priv_mode c = Supervisor \<and> status AND ST_TVM \<noteq> 0)
           then illegal inst c else (Inr (), flush_tlb c))
        else illegal inst c)"

definition exec_system :: "u32 \<Rightarrow> (cpu, exception, unit) prog" where
  "exec_system inst = (if funct3 inst = 0x0 then exec_priv inst else exec_csr inst)"

section \<open>Dispatch\<close>

definition exec_opcode :: "u32 \<Rightarrow> u64 \<Rightarrow> u64 \<Rightarrow> (cpu, exception, unit) prog" where
  "exec_opcode inst inst_pc next_pc =
    (let op3 = opcode inst
     in if op3 = 0x37 then update (wr (rd inst) (scast (imm_u inst)))
        else if op3 = 0x17 then update (wr (rd inst) (inst_pc + scast (imm_u inst)))
        else if op3 = 0x6f then update (exec_jal inst inst_pc next_pc)
        else if op3 = 0x67 \<and> funct3 inst = 0 then update (exec_jalr inst next_pc)
        else if op3 = 0x63 then exec_branch inst inst_pc
        else if op3 = 0x03 then exec_load inst
        else if op3 = 0x23 then exec_store inst
        else if op3 = 0x13 \<or> op3 = 0x1b then exec_op_imm inst
        else if op3 = 0x33 \<or> op3 = 0x3b then exec_op inst
        else if op3 = 0x2f then exec_amo inst
        else if op3 = 0x07 \<or> op3 = 0x27 then exec_fp_mem inst
        else if op3 = 0x43 \<or> op3 = 0x47 \<or> op3 = 0x4b \<or> op3 = 0x4f then exec_fma inst
        else if op3 = 0x53 then
          (\<lambda>c. if \<not> fp_enabled c then illegal inst c
               else execute_op_fp inst (rd inst) (rs1 inst) (rs2 inst) (funct3 inst) (funct7 inst) c)
        else if op3 = 0x0f then ret ()
        else if op3 = 0x73 then exec_system inst
        else illegal inst)"

definition execute :: "u32 \<Rightarrow> u64 \<Rightarrow> u64 \<Rightarrow> (cpu, exception, unit) prog" where
  "execute inst inst_pc next_pc c = exec_opcode inst inst_pc next_pc (c\<lparr>pc := next_pc\<rparr>)"

end
