(* ===== verification/Access.thy ===== *)
theory Access
  imports Cpu
begin

text \<open>
  The contract of a memory access. A preorder that reads and writes of physical memory and fills
  of the translation cache respect is respected by page-table walks, translation, loads, stores
  and fetches. It holds in particular that these change nothing of the hart but its memory and
  its translation cache.
\<close>

locale access_contract = state_contract R for R :: "cpu \<Rightarrow> cpu \<Rightarrow> bool" +
  assumes R_mem_read: "R c (c\<lparr>mem := snd (mem_read a n (mem c))\<rparr>)"
    and R_mem_write: "R c (c\<lparr>mem := snd (mem_write a n v (mem c))\<rparr>)"
    and R_tlb_fill: "R c (tlb_fill va acc pa satp ctx c)"
begin

lemma keeps_pointwise: "(\<And>c. R c (snd (m c))) \<Longrightarrow> keeps R m"
  by (simp add: keeps_def)

lemma keeps_mem_read: "keeps R (on_mem (mem_read a n))"
  by (rule keeps_pointwise) (simp add: on_mem_run R_mem_read)

lemma keeps_mem_write: "keeps R (on_mem (mem_write a n v))"
  by (rule keeps_pointwise) (simp add: on_mem_run R_mem_write)

lemmas memory_rules = keeps_ret keeps_raise keeps_Pair keeps_map_err keeps_bindE keeps_mem_read keeps_mem_write

lemma keeps_leaf: "keeps R (on_mem (mmu_leaf md eff status va acc level pa pte))"
  by (auto simp: mmu_leaf_def Let_def on_mem_push intro!: memory_rules)

lemma keeps_walk: "keeps R (on_mem (mmu_walk md eff status va acc level table))"
proof (induction level arbitrary: table)
  case 0
  then show ?case by (simp add: keeps_Pair)
next
  case (Suc level)
  then show ?case
    by (auto simp: Let_def on_mem_push intro!: memory_rules keeps_leaf)
qed

lemma keeps_mmu: "keeps R (on_mem (mmu_translate x satp status mode va acc))"
  by (auto simp: mmu_translate_def Let_def on_mem_push intro!: memory_rules keeps_walk)

lemma keeps_translate: "keeps R (translate va acc)"
proof (rule keeps_pointwise)
  fix c
  show "R c (snd (translate va acc c))"
    unfolding translate_def Let_def
    by (auto simp: refl intro!: keepsD [OF keeps_bindE] keeps_mmu keeps_bindE keeps_ret keeps_update R_tlb_fill)
qed

lemmas access_rules = memory_rules keeps_translate

lemma keeps_read_bytes: "keeps R (read_bytes va ks v)"
  by (induction ks arbitrary: v) (auto intro!: access_rules)

lemma keeps_read_mem: "keeps R (read_mem va n)"
  by (auto simp: read_mem_def intro!: access_rules keeps_read_bytes)

lemma keeps_translate_bytes: "keeps R (translate_bytes va ks)"
  by (induction ks) (auto intro!: access_rules)

lemma keeps_write_bytes: "keeps R (write_bytes va ks v)"
  by (induction ks) (auto intro!: access_rules)

lemma keeps_write_mem: "keeps R (write_mem va n v)"
  by (auto simp: write_mem_def intro!: access_rules keeps_translate_bytes keeps_write_bytes)

lemma keeps_fetch_half: "keeps R (fetch_half va)"
  by (auto simp: fetch_half_def intro!: access_rules)

lemma keeps_expand: "keeps R (expand lo)"
  by (rule keeps_pointwise) (simp add: expand_def refl split: option.split)

lemma keeps_fetch: "keeps R fetch"
proof (rule keeps_pointwise)
  fix c
  show "R c (snd (fetch c))"
    unfolding fetch_def Let_def
    by (auto simp: refl intro!: keepsD [OF keeps_bindE] access_rules keeps_expand keeps_fetch_half)
qed

end

section \<open>Nothing but memory and cache\<close>

definition same_context :: "cpu \<Rightarrow> cpu \<Rightarrow> bool" where
  "same_context c c' \<longleftrightarrow> (\<exists>m t. c' = c\<lparr>mem := m, tlb := t\<rparr>)"

lemma same_contextI: "c' = c\<lparr>mem := m, tlb := t\<rparr> \<Longrightarrow> same_context c c'"
  by (auto simp: same_context_def)

interpretation untouched: access_contract same_context
proof
  fix c d e :: cpu
  show "same_context c c" by (rule same_contextI [where m = "mem c" and t = "tlb c"]) simp
  show "same_context c e" if "same_context c d" "same_context d e"
    using that unfolding same_context_def by (elim exE, intro exI) simp
  show "same_context c (c\<lparr>mem := snd (mem_read a n (mem c))\<rparr>)" for a n
    by (rule same_contextI [where t = "tlb c"]) simp
  show "same_context c (c\<lparr>mem := snd (mem_write a n v (mem c))\<rparr>)" for a n v
    by (rule same_contextI [where t = "tlb c"]) simp
  show "same_context c (tlb_fill va acc pa satp ctx c)" for va acc pa satp ctx
    unfolding tlb_fill_def by (rule same_contextI [where m = "mem c"]) simp
qed

end
