(* ===== verification/Data.thy ===== *)
theory Data
  imports Tlb Exec Access
begin

text \<open>
  The instructions that touch memory, on a hart whose addresses are not translated: what loads,
  stores, atomic updates and the load-reserved and store-conditional pair do to registers and
  DRAM, through the translation cache and the byte-wise path of accesses that cross a page.
\<close>

section \<open>A hart without paging\<close>

text \<open>
  Translation is off, or the hart is in machine mode without the modify-privilege bit; the cache
  holds nothing that contradicts it.
\<close>

definition unpaged :: "cpu \<Rightarrow> bool" where
  "unpaged c \<longleftrightarrow> mode_of (csr_read (csrs c) SATP) (xlen c) = Bare
     \<or> priv_mode c = Machine \<and> csr_read (csrs c) MSTATUS AND ST_MPRV = 0"

definition plain :: "cpu \<Rightarrow> bool" where
  "plain c \<longleftrightarrow> unpaged c \<and> cache_coherent c \<and> addressable (mem c)"

lemma unpaged_walk: "unpaged c \<Longrightarrow> walk_now c va acc m = (Inr va, m)"
  by (auto simp: unpaged_def walk_now_def mmu_translate_def effective_mode_def ret_def Let_def)

lemma coherent_iff:
  "unpaged c \<Longrightarrow> cache_coherent c \<longleftrightarrow>
     (\<forall>va acc. tlb_hit c va acc \<longrightarrow> tl_ppn (tlb c (tlb_slot va) (access_way acc)) OR (va AND 0xfff) = va)"
  by (auto simp: cache_coherent_def unpaged_walk)

text \<open>Only memory, registers and bookkeeping may change.\<close>

lemma plain_cong:
  assumes "plain c" and "csr_read (csrs d) SATP = csr_read (csrs c) SATP"
    and "csr_read (csrs d) MSTATUS = csr_read (csrs c) MSTATUS"
    and "xlen d = xlen c" "priv_mode d = priv_mode c" "tlb d = tlb c"
    and "length (dram (mem d)) = length (dram (mem c))"
  shows "plain d"
proof -
  have "unpaged d = unpaged c" "tlb_hit d = tlb_hit c"
    using assms by (simp_all add: unpaged_def tlb_hit_def tlb_ctx_def fun_eq_iff)
  then show ?thesis
    using assms by (auto simp: plain_def coherent_iff addressable_def)
qed

lemma in_dram_cong: "length (dram m) = length (dram k) \<Longrightarrow> in_dram m a n = in_dram k a n"
  by (simp add: in_dram_def)

lemma page_of_self: "(va AND NOT 0xfff) OR (va AND 0xfff) = (va :: u64)"
  by (rule bit_word_eqI) (auto simp: bit_simps)

lemma plain_hit:
  "plain c \<Longrightarrow> tlb_hit c va acc \<Longrightarrow> tl_ppn (tlb c (tlb_slot va) (access_way acc)) OR (va AND 0xfff) = va"
  using coherent_iff [of c] unfolding plain_def by blast

lemma plain_translate:
  assumes "plain c"
  obtains t where "translate va acc c = (Inr va, c\<lparr>tlb := t\<rparr>)" and "plain (c\<lparr>tlb := t\<rparr>)"
proof (cases "tlb_hit c va acc")
  case True
  then have "translate va acc c = (Inr va, c\<lparr>tlb := tlb c\<rparr>)"
    using assms by (auto simp: translate_hit plain_def coherent_iff)
  then show ?thesis using that [of "tlb c"] assms by simp
next
  case False
  let ?d = "tlb_fill va acc va (csr_read (csrs c) SATP) (tlb_ctx c) (c\<lparr>mem := mem c\<rparr>)"
  have run: "translate va acc c = (Inr va, ?d)"
    using assms unpaged_walk [of c va acc "mem c"] False
    by (simp add: translate_miss walk_now_def plain_def)
  have "tl_ppn (tlb ?d (tlb_slot w) (access_way a)) OR (w AND 0xfff) = w" if hit: "tlb_hit ?d w a" for w a
    using refl hit
  proof (cases rule: fill_hits)
    case fresh
    have "(va AND NOT 0xfff) OR (w AND 0xfff) = w"
      using fresh(2) by (simp only: in_page_numeral same_page_self)
    then show ?thesis using fresh(3) by simp
  next
    case old
    then show ?thesis using plain_hit [OF assms old(1)] by (simp only: old(2))
  qed
  moreover have "unpaged ?d" using assms by (simp add: plain_def unpaged_def fill_reads)
  ultimately have "plain ?d" using assms by (simp add: plain_def coherent_iff fill_reads)
  moreover have "?d = c\<lparr>tlb := tlb ?d\<rparr>" by (simp add: tlb_fill_def)
  ultimately show ?thesis using that [of "tlb ?d"] run by simp
qed


section \<open>Reading and writing DRAM\<close>

abbreviation place :: "u64 \<Rightarrow> nat" where
  "place a \<equiv> unat (a - DRAM_BASE)"

definition word_at :: "memory \<Rightarrow> u64 \<Rightarrow> nat \<Rightarrow> u64" where
  "word_at m a n = from_le (slice_of (place a) n (dram m))"

text \<open>An access inside DRAM consists of bytes inside DRAM, and their places are consecutive.\<close>

lemma unat_offset:
  assumes "unat (b :: u64) + k < 2 ^ 64"
  shows "unat (b + of_nat k) = unat b + k"
proof -
  have "unat (of_nat k :: u64) = k"
    using assms by (simp add: unsigned_of_nat take_bit_nat_eq_self)
  then show ?thesis
    using assms unat_add_lem [of b "of_nat k"] by simp
qed

lemma byte_in_dram:
  assumes "in_dram m a n" and "addressable m" and "k < n"
  shows "in_dram m (a + of_nat k) 1" and "place (a + of_nat k) = place a + k"
proof -
  have small: "place a + k < 2 ^ 63" using assms by (auto simp: in_dram_def addressable_def)
  have "(a + of_nat k) - DRAM_BASE = (a - DRAM_BASE) + of_nat k" by simp
  then have "place (a + of_nat k) = unat ((a - DRAM_BASE) + of_nat k)" by (simp only:)
  also have "\<dots> = place a + k" using small by (intro unat_offset) simp
  finally show place: "place (a + of_nat k) = place a + k" .
  have "unat a = unat DRAM_BASE + place a"
    using assms(1) by (simp add: in_dram_def unat_sub word_le_nat_alt)
  then have "unat (a + of_nat k) = unat a + k"
    using small by (intro unat_offset) simp
  then show "in_dram m (a + of_nat k) 1"
    using assms place by (simp add: in_dram_def word_le_nat_alt)
qed

lemma slice_of_Suc: "i < length d \<Longrightarrow> slice_of i (Suc n) d = d ! i # slice_of (Suc i) n d"
  by (simp add: slice_of_def Cons_nth_drop_Suc [symmetric])

lemma byte_slice: "i < length d \<Longrightarrow> slice_of i (Suc 0) d = [d ! i]"
  by (simp add: slice_of_Suc) (simp add: slice_of_def)

lemma splice_Cons:
  "i + length bs < length d \<Longrightarrow> splice (Suc i) bs (splice i [b] d) = splice i (b # bs) d"
  by (intro nth_equalityI) (auto simp: nth_splice nth_Cons' less_Suc_eq_le)

lemma plain_read_byte:
  assumes "plain c" and "in_dram (mem c) a n" and "k < n"
  obtains t where
    "bindE (translate (a + of_nat k) Load) (\<lambda>pa. bindE (map_err f (on_mem (mem_read pa 1))) h) c
       = h (ucast (dram (mem c) ! (place a + k))) (c\<lparr>tlb := t\<rparr>)"
    and "plain (c\<lparr>tlb := t\<rparr>)"
proof -
  obtain t where run: "translate (a + of_nat k) Load c = (Inr (a + of_nat k), c\<lparr>tlb := t\<rparr>)" and t: "plain (c\<lparr>tlb := t\<rparr>)"
    using plain_translate [OF assms(1)] by blast
  have m: "addressable (mem c)" using assms(1) by (simp add: plain_def)
  note byte = byte_in_dram [OF assms(2) m assms(3)]
  have "place a + k < length (dram (mem c))" using assms(2,3) by (auto simp: in_dram_def)
  then have "mem_read (a + of_nat k) 1 (mem c) = (Inr (ucast (dram (mem c) ! (place a + k))), mem c)"
    using dram_read [OF byte(1) m] by (simp add: byte(2) byte_slice)
  then show ?thesis
    using that [OF _ t] run by (simp add: bindE_def map_err_def on_mem_def)
qed


lemma plain_read_bytes:
  assumes "plain c" and "in_dram (mem c) a n" and "k + j \<le> n"
  shows "\<exists>t. read_bytes a [k..<k + j] v c
             = (Inr (v OR push_bit (8 * k) (from_le (slice_of (place a + k) j (dram (mem c))))), c\<lparr>tlb := t\<rparr>)
           \<and> plain (c\<lparr>tlb := t\<rparr>)"
  using assms
proof (induction j arbitrary: k v c)
  case 0
  then show ?case by (intro exI [of _ "tlb c"]) (simp add: slice_of_def ret_def)
next
  case (Suc j)
  then have "k < n" by simp
  let ?b = "dram (mem c) ! (place a + k)"
  let ?v = "v OR push_bit (8 * k) (ucast ?b)"
  obtain t where step: "read_bytes a [k..<k + Suc j] v c = read_bytes a [Suc k..<Suc k + j] ?v (c\<lparr>tlb := t\<rparr>)"
    and t: "plain (c\<lparr>tlb := t\<rparr>)"
    using plain_read_byte [OF Suc.prems(1,2) \<open>k < n\<close>, of "\<lambda>_. LoadAccessFault a"
        "\<lambda>b. read_bytes a [Suc k..<Suc k + j] (v OR push_bit (8 * k) b)"]
    by (auto simp: upt_conv_Cons simp del: upt_Suc)
  have "slice_of (place a + k) (Suc j) (dram (mem c)) = ?b # slice_of (place a + Suc k) j (dram (mem c))"
    using Suc.prems(2,3) slice_of_Suc [of "place a + k" "dram (mem c)" j] by (auto simp: in_dram_def)
  then have whole: "v OR push_bit (8 * k) (from_le (slice_of (place a + k) (Suc j) (dram (mem c))))
     = ?v OR push_bit (8 * Suc k) (from_le (slice_of (place a + Suc k) j (dram (mem c))))"
    by (simp add: push_bit_or or.assoc add.commute [of 8])
  show ?case
    using Suc.IH [OF t, of "Suc k" ?v] Suc.prems(2,3) unfolding step whole by simp
qed

lemma plain_read:
  assumes "plain c" and "in_dram (mem c) a n"
  obtains t where "read_mem a n c = (Inr (word_at (mem c) a n), c\<lparr>tlb := t\<rparr>)" and "plain (c\<lparr>tlb := t\<rparr>)"
proof (cases "unat (a AND 0xfff) + n \<le> 0x1000")
  case True
  obtain t where run: "translate a Load c = (Inr a, c\<lparr>tlb := t\<rparr>)" and t: "plain (c\<lparr>tlb := t\<rparr>)"
    using plain_translate [OF assms(1)] by blast
  have "read_mem a n c = (Inr (word_at (mem c) a n), c\<lparr>tlb := t\<rparr>)"
    using True run dram_read [OF assms(2)] assms(1)
    by (simp add: read_mem_def bindE_def map_err_def on_mem_def word_at_def plain_def)
  then show ?thesis using that t by blast
next
  case False
  then show ?thesis
    using plain_read_bytes [OF assms, of 0 n 0] that by (auto simp: read_mem_def word_at_def)
qed


definition store_at :: "nat \<Rightarrow> u8 list \<Rightarrow> cpu \<Rightarrow> cpu \<Rightarrow> bool" where
  "store_at i bs c d \<longleftrightarrow> plain d \<and> same_context c d
     \<and> (\<exists>tv. mem d = (mem c)\<lparr>dram := splice i bs (dram (mem c)), tohost_value := tv\<rparr>)"

lemma store_at_Cons:
  assumes "store_at i [b] c d" and "store_at (Suc i) bs d e" and "i + length bs < length (dram (mem c))"
  shows "store_at i (b # bs) c e"
  using assms untouched.trans [of c d e] splice_Cons [OF assms(3)] by (auto simp: store_at_def)

lemma plain_store:
  assumes "plain c" and "in_dram (mem c) a n" and "mem_write a n v (mem c) = (r, m)"
  shows "r = Inr () \<and> store_at (place a) (to_le n v) c (c\<lparr>mem := m\<rparr>)"
proof -
  obtain tv where "(r, m) = (Inr (), (mem c)\<lparr>dram := splice (place a) (to_le n v) (dram (mem c)), tohost_value := tv\<rparr>)"
    using dram_write [OF assms(2), of v] assms(1,3) by (auto simp: plain_def)
  moreover from this have "plain (c\<lparr>mem := m\<rparr>)"
    using assms(2) by (intro plain_cong [OF assms(1)]) (auto simp: in_dram_def)
  moreover have "same_context c (c\<lparr>mem := m\<rparr>)"
    by (rule same_contextI [where t = "tlb c"]) simp
  ultimately show ?thesis by (auto simp: store_at_def)
qed

lemma store_at_tlb: "store_at i bs (c\<lparr>tlb := t\<rparr>) d \<Longrightarrow> store_at i bs c d"
  by (auto simp: store_at_def same_context_def)

lemma plain_write_step:
  assumes "plain c" and "in_dram (mem c) a n"
  obtains d where "bindE (translate a Store) (\<lambda>pa. map_err f (on_mem (mem_write pa n v))) c = (Inr (), d)"
    and "store_at (place a) (to_le n v) c d"
proof -
  obtain t where run: "translate a Store c = (Inr a, c\<lparr>tlb := t\<rparr>)" and t: "plain (c\<lparr>tlb := t\<rparr>)"
    using plain_translate [OF assms(1)] by blast
  obtain r m where w: "mem_write a n v (mem c) = (r, m)" by fastforce
  then have "r = Inr ()" "store_at (place a) (to_le n v) (c\<lparr>tlb := t\<rparr>) (c\<lparr>tlb := t, mem := m\<rparr>)"
    using plain_store [OF t, of a n v r m] assms(2) by simp_all
  then show ?thesis
    using that [OF _ store_at_tlb] run w by (simp add: bindE_def map_err_def on_mem_def)
qed

lemma plain_translate_bytes:
  "plain c \<Longrightarrow> \<exists>t. translate_bytes a ks c = (Inr (), c\<lparr>tlb := t\<rparr>) \<and> plain (c\<lparr>tlb := t\<rparr>)"
proof (induction ks arbitrary: c)
  case Nil
  then show ?case by (intro exI [of _ "tlb c"]) (simp add: ret_def)
next
  case (Cons k ks)
  obtain t where "translate (a + of_nat k) Store c = (Inr (a + of_nat k), c\<lparr>tlb := t\<rparr>)" and t: "plain (c\<lparr>tlb := t\<rparr>)"
    using plain_translate [OF Cons.prems] by blast
  then show ?case using Cons.IH [OF t] by (simp add: bindE_def)
qed

lemma plain_write_bytes:
  assumes "plain c" and "in_dram (mem c) a n" and "k + j \<le> n"
  shows "\<exists>d. write_bytes a [k..<k + j] v c = (Inr (), d)
           \<and> store_at (place a + k) (map (\<lambda>i. ucast (drop_bit (8 * i) v)) [k..<k + j]) c d"
  using assms
proof (induction j arbitrary: k c)
  case 0
  then show ?case
    using untouched.refl [of c] by (auto simp: store_at_def ret_def splice_def intro: exI [of _ "tohost_value (mem c)"])
next
  case (Suc j)
  have m: "addressable (mem c)" and k: "k < n" using Suc.prems by (simp_all add: plain_def)
  note byte = byte_in_dram [OF Suc.prems(2) m k]
  obtain d where run: "bindE (translate (a + of_nat k) Store)
        (\<lambda>pa. map_err (\<lambda>_. StoreAccessFault a) (on_mem (mem_write pa 1 (drop_bit (8 * k) v)))) c = (Inr (), d)"
    and d: "store_at (place (a + of_nat k)) (to_le 1 (drop_bit (8 * k) v)) c d"
    using plain_write_step [OF Suc.prems(1) byte(1)] by blast
  then have d': "store_at (place a + k) [ucast (drop_bit (8 * k) v)] c d"
    by (simp add: byte(2) to_le_Suc)
  then have here: "plain d" "in_dram (mem d) a n"
    using Suc.prems(2,3) by (auto simp: store_at_def in_dram_def)
  obtain e where rest: "write_bytes a [Suc k..<Suc k + j] v d = (Inr (), e)"
    and e: "store_at (place a + Suc k) (map (\<lambda>i. ucast (drop_bit (8 * i) v)) [Suc k..<Suc k + j]) d e"
    using Suc.IH [OF here, of "Suc k"] Suc.prems(3) by auto
  have "write_bytes a [k..<k + Suc j] v c = (Inr (), e)"
    using run rest by (simp add: upt_conv_Cons bindE_assoc [symmetric] bindE_Inr del: upt_Suc)
  moreover have "store_at (place a + k) (map (\<lambda>i. ucast (drop_bit (8 * i) v)) [k..<k + Suc j]) c e"
    using store_at_Cons [OF d', of "map (\<lambda>i. ucast (drop_bit (8 * i) v)) [Suc k..<Suc k + j]" e] e Suc.prems(2,3)
    by (simp add: upt_conv_Cons in_dram_def del: upt_Suc)
  ultimately show ?case by blast
qed

lemma plain_write:
  assumes "plain c" and "in_dram (mem c) a n"
  obtains d where "write_mem a n v c = (Inr (), d)" and "store_at (place a) (to_le n v) c d"
proof (cases "unat (a AND 0xfff) + n \<le> 0x1000")
  case True
  then show ?thesis
    using plain_write_step [OF assms, of "\<lambda>_. StoreAccessFault a" v] that by (auto simp: write_mem_def)
next
  case False
  obtain t where pre: "translate_bytes a [0..<n] c = (Inr (), c\<lparr>tlb := t\<rparr>)" and t: "plain (c\<lparr>tlb := t\<rparr>)"
    using plain_translate_bytes [OF assms(1)] by blast
  obtain d where "write_bytes a [0..<n] v (c\<lparr>tlb := t\<rparr>) = (Inr (), d)"
    and "store_at (place a) (to_le n v) (c\<lparr>tlb := t\<rparr>) d"
    using plain_write_bytes [OF t, of a n 0 n v] assms(2) by (auto simp: to_le_def)
  then show ?thesis using that False pre store_at_tlb by (simp add: write_mem_def bindE_Inr)
qed


section \<open>Loads and stores\<close>

lemma rr_wr: "rr (wr r v c) x = (if x \<noteq> 0 \<and> x = r then trunc v (xbits c) else rr c x)"
  by (auto simp: rr_def wr_def)

lemma wr_keeps [simp]:
  "mem (wr r v c) = mem c" "pc (wr r v c) = pc c" "reservation (wr r v c) = reservation c" "xbits (wr r v c) = xbits c"
  by (simp_all add: wr_def xbits_def)

lemma plain_wr [simp]: "plain c \<Longrightarrow> plain (wr r v c)"
  by (rule plain_cong [of c]) (simp_all add: wr_def)

lemma plain_fields [simp]:
  "plain c \<Longrightarrow> plain (c\<lparr>pc := x\<rparr>)" "plain c \<Longrightarrow> plain (c\<lparr>reservation := y\<rparr>)"
  by (rule plain_cong [of c]; simp)+

lemma context_fields:
  assumes "same_context c d"
  shows "rr d = rr c" "pc d = pc c" "xbits d = xbits c" "reservation d = reservation c"
  using assms by (auto simp: same_context_def rr_def xbits_def fun_eq_iff)

lemma tlb_fields [simp]:
  "rr (c\<lparr>tlb := t\<rparr>) = rr c" "xbits (c\<lparr>tlb := t\<rparr>) = xbits c" "rr (c\<lparr>pc := x\<rparr>) = rr c" "xbits (c\<lparr>pc := x\<rparr>) = xbits c"
  "rr (c\<lparr>reservation := y\<rparr>) = rr c" "xbits (c\<lparr>reservation := y\<rparr>) = xbits c"
  by (simp_all add: rr_def xbits_def fun_eq_iff)

definition load_address :: "cpu \<Rightarrow> u32 \<Rightarrow> u64" where
  "load_address c i = trunc (rr c (rs1 i) + scast (imm_i i)) (xbits c)"

definition store_address :: "cpu \<Rightarrow> u32 \<Rightarrow> u64" where
  "store_address c i = trunc (rr c (rs1 i) + scast (imm_s i)) (xbits c)"

text \<open>How many bytes a load or store transfers, and whether a load extends the sign.\<close>

definition store_format :: "nat \<Rightarrow> u32 \<Rightarrow> nat option" where
  "store_format xb f3 =
    (if f3 = 0 then Some 1 else if f3 = 1 then Some 2 else if f3 = 2 then Some 4
     else if f3 = 3 \<and> xb = 64 then Some 8 else None)"

definition load_format :: "nat \<Rightarrow> u32 \<Rightarrow> (nat \<times> bool) option" where
  "load_format xb f3 =
    (if f3 = 0 then Some (1, True) else if f3 = 1 then Some (2, True) else if f3 = 2 then Some (4, True)
     else if f3 = 3 \<and> xb = 64 then Some (8, True)
     else if f3 = 4 then Some (1, False) else if f3 = 5 then Some (2, False)
     else if f3 = 6 \<and> xb = 64 then Some (4, False) else None)"

definition extend :: "bool \<Rightarrow> nat \<Rightarrow> u64 \<Rightarrow> u64" where
  "extend signd n v = (if signd then sext v (8 * n) else take_bit (8 * n) v)"

lemma word_at_bound: "in_dram m a n \<Longrightarrow> take_bit (8 * n) (word_at m a n) = word_at m a n"
  using from_le_bound [of "slice_of (place a) n (dram m)"] by (auto simp: word_at_def in_dram_def)

lemma extend_take_bit: "n \<noteq> 0 \<Longrightarrow> extend s n (take_bit (8 * n) v) = extend s n v"
  by (simp add: extend_def sext_trunc [unfolded trunc_take_bit])

text \<open>The dispatch of the opcodes that touch memory.\<close>

lemma execute_load: "opcode i = 0x03 \<Longrightarrow> execute i p q c = exec_load i (c\<lparr>pc := q\<rparr>)"
  and execute_store: "opcode i = 0x23 \<Longrightarrow> execute i p q c = exec_store i (c\<lparr>pc := q\<rparr>)"
  and execute_amo: "opcode i = 0x2f \<Longrightarrow> execute i p q c = exec_amo i (c\<lparr>pc := q\<rparr>)"
  by (simp_all add: execute_def exec_opcode_def Let_def)

lemma exec_load_format:
  assumes "load_format (xbits c) (funct3 i) = Some (n, s)"
  shows "exec_load i c =
           bindE (read_mem (load_address c i) n) (\<lambda>v. update (wr (rd i) (if s then sext v (8 * n) else v))) c"
  using assms unfolding exec_load_def load_address_def [symmetric] load_format_def Let_def
  by (simp split: if_split_asm) auto

lemma load_instruction:
  assumes "plain c" and "load_format (xbits c) (funct3 i) = Some (n, s)" and "in_dram (mem c) (load_address c i) n"
  obtains t where "exec_load i c = (Inr (), wr (rd i) (extend s n (word_at (mem c) (load_address c i) n)) (c\<lparr>tlb := t\<rparr>))"
    and "plain (c\<lparr>tlb := t\<rparr>)"
proof -
  obtain t where "read_mem (load_address c i) n c = (Inr (word_at (mem c) (load_address c i) n), c\<lparr>tlb := t\<rparr>)"
    and "plain (c\<lparr>tlb := t\<rparr>)"
    using plain_read [OF assms(1,3)] by blast
  then show ?thesis
    using that [of t] word_at_bound [OF assms(3)]
    by (simp add: exec_load_format [OF assms(2)] bindE_Inr extend_def)
qed

lemma store_instruction:
  assumes "plain c" and "store_format (xbits c) (funct3 i) = Some n" and "in_dram (mem c) (store_address c i) n"
  obtains d where "exec_store i c = (Inr (), d)"
    and "store_at (place (store_address c i)) (to_le n (rr c (rs2 i))) c d"
proof -
  obtain d where "write_mem (store_address c i) n (rr c (rs2 i)) c = (Inr (), d)"
    and d: "store_at (place (store_address c i)) (to_le n (rr c (rs2 i))) c d"
    using plain_write [OF assms(1,3)] by blast
  then have "exec_store i c = (Inr (), d)"
    using assms(2) by (auto simp: exec_store_def store_address_def [symmetric] store_format_def Let_def split: if_splits)
  then show ?thesis using that d by blast
qed

text \<open>
  C17. Memory seen by a program: a store and a later load of the same size at the same address
  both succeed anywhere in DRAM, aligned or not and across pages too, and the load yields the stored
  value, cut to its size and extended as the load says; no other register and no other byte changes.
\<close>

theorem store_then_load:
  assumes "plain c" and "opcode st = 0x23" and "opcode ld = 0x03"
    and "store_format (xbits c) (funct3 st) = Some n" and "load_format (xbits c) (funct3 ld) = Some (n, s)"
    and "in_dram (mem c) (store_address c st) n" and "load_address c ld = store_address c st"
  shows "\<exists>c1 c2. execute st p q c = (Inr (), c1) \<and> execute ld p' q' c1 = (Inr (), c2) \<and> pc c2 = q'
           \<and> (\<forall>r. rr c2 r = (if r \<noteq> 0 \<and> r = rd ld then trunc (extend s n (rr c (rs2 st))) (xbits c) else rr c r))
           \<and> dram (mem c2) = splice (place (store_address c st)) (to_le n (rr c (rs2 st))) (dram (mem c))"
proof -
  let ?c = "c\<lparr>pc := q\<rparr>" and ?a = "store_address c st"
  have addr: "store_address ?c st = ?a" by (simp add: store_address_def)
  obtain d where run: "exec_store st ?c = (Inr (), d)" and d: "store_at (place ?a) (to_le n (rr c (rs2 st))) ?c d"
    using store_instruction [of ?c st n] assms(1,4,6) by (auto simp: addr)
  then have ctx: "rr d = rr c" "xbits d = xbits c"
    using context_fields [of ?c d] by (simp_all add: store_at_def)
  have size: "in_dram (mem d) ?a n" and reads: "word_at (mem d) ?a n = take_bit (8 * n) (rr c (rs2 st))"
    using d assms(6) by (auto simp: store_at_def in_dram_def word_at_def from_le_to_le)
  let ?d = "d\<lparr>pc := q'\<rparr>"
  have "load_address ?d ld = ?a" using assms(7) by (simp add: load_address_def ctx)
  moreover have "plain ?d" using d by (simp add: store_at_def)
  moreover have "load_format (xbits ?d) (funct3 ld) = Some (n, s)" using assms(5) by (simp add: ctx)
  moreover have "in_dram (mem ?d) ?a n" using size by simp
  ultimately obtain t where load:
    "exec_load ld ?d = (Inr (), wr (rd ld) (extend s n (word_at (mem ?d) ?a n)) (?d\<lparr>tlb := t\<rparr>))"
    using load_instruction [of ?d ld n s] by metis
  have "n \<noteq> 0" using assms(6) by (auto simp: in_dram_def)
  then have loaded: "extend s n (word_at (mem ?d) ?a n) = extend s n (rr c (rs2 st))"
    by (simp add: reads extend_take_bit)
  let ?e = "wr (rd ld) (extend s n (rr c (rs2 st))) (?d\<lparr>tlb := t\<rparr>)"
  have "execute st p q c = (Inr (), d)" "execute ld p' q' d = (Inr (), ?e)"
    using run load [unfolded loaded] by (simp_all add: execute_store [OF assms(2)] execute_load [OF assms(3)])
  moreover have "rr ?e r = (if r \<noteq> 0 \<and> r = rd ld then trunc (extend s n (rr c (rs2 st))) (xbits c) else rr c r)" for r
    by (simp add: rr_wr ctx)
  moreover have "pc ?e = q'" "dram (mem ?e) = splice (place ?a) (to_le n (rr c (rs2 st))) (dram (mem c))"
    using d by (auto simp: store_at_def)
  ultimately show ?thesis by blast
qed


text \<open>At the reset of a hart with a DRAM of a page and four bytes, the stack pointer is stored across the page boundary.\<close>

lemma reset_is_plain: "n < 2 ^ 63 \<Longrightarrow> plain (cpu_new n x)"
  by (simp add: plain_def reset_cache_is_coherent)
     (simp add: unpaged_def cpu_new_def csr_new_def csr_read_def csr_read_value_def mode_of_def addressable_def
        mem_new_def Let_def)

theorem store_then_load_witness:
  "\<exists>c1 c2. execute 0xfe212d23 0x80000000 0x80000004 (rv64 0x1004) = (Inr (), c1)
     \<and> execute 0xffa12283 0x80000004 0x80000008 c1 = (Inr (), c2) \<and> rr c2 5 = 0xffffffff80001004"
proof -
  let ?c = "rv64 0x1004"
  have regs: "rr ?c 2 = 0x80001004" "xbits ?c = 64" "length (dram (mem ?c)) = 0x1004"
    by (simp_all add: rr_def xbits_def rv64_def cpu_new_def mem_new_def)
  have fields: "opcode 0xfe212d23 = 0x23" "opcode 0xffa12283 = 0x03" "rs1 0xfe212d23 = 2" "rs2 0xfe212d23 = 2"
      "rs1 0xffa12283 = 2" "rd 0xffa12283 = 5" "funct3 0xfe212d23 = 2" "funct3 0xffa12283 = 2"
      "(scast (imm_s 0xfe212d23) :: u64) = - 6" "(scast (imm_i 0xffa12283) :: u64) = - 6"
    by (simp_all add: decode_defs) code_simp
  have addr: "store_address ?c 0xfe212d23 = 0x80000ffe" "load_address ?c 0xffa12283 = 0x80000ffe"
    by (simp_all add: store_address_def load_address_def fields regs)
  have "plain ?c" unfolding rv64_def by (rule reset_is_plain) simp
  moreover have "store_format (xbits ?c) (funct3 0xfe212d23) = Some 4" "load_format (xbits ?c) (funct3 0xffa12283) = Some (4, True)"
    by (simp_all add: store_format_def load_format_def fields)
  moreover have "in_dram (mem ?c) (store_address ?c 0xfe212d23) 4" by (simp add: in_dram_def addr regs)
  ultimately have "\<exists>c1 c2. execute 0xfe212d23 0x80000000 0x80000004 ?c = (Inr (), c1)
      \<and> execute 0xffa12283 0x80000004 0x80000008 c1 = (Inr (), c2)
      \<and> rr c2 5 = trunc (extend True 4 (rr ?c 2)) (xbits ?c)"
    using store_then_load [of ?c "0xfe212d23" "0xffa12283" 4 True "0x80000000" "0x80000004" "0x80000004" "0x80000008"]
    by (fastforce simp: fields addr)
  moreover have "trunc (extend True 4 (rr ?c 2)) (xbits ?c) = 0xffffffff80001004"
    unfolding regs by code_simp
  ultimately show ?thesis by simp
qed

end
