(* ===== verification/Atomics.thy ===== *)
theory Atomics
  imports Data
begin

text \<open>
  The atomic instructions of \<^verbatim>\<open>Cpu::execute\<close> on a hart without paging: read-modify-write operations
  against their meaning on words of the operand width, and the load-reserved and store-conditional pair.
\<close>

section \<open>What the operations compute\<close>

definition amo_spec :: "u32 \<Rightarrow> 'w::len word \<Rightarrow> 'w word \<Rightarrow> 'w word option" where
  "amo_spec op3 a b =
    (if op3 = 0x00 then Some (a + b)
     else if op3 = 0x01 then Some b
     else if op3 = 0x04 then Some (a XOR b)
     else if op3 = 0x08 then Some (a OR b)
     else if op3 = 0x0c then Some (a AND b)
     else if op3 = 0x10 then Some (if sint b < sint a then b else a)
     else if op3 = 0x14 then Some (if sint b < sint a then a else b)
     else if op3 = 0x18 then Some (min a b)
     else if op3 = 0x1c then Some (max a b)
     else None)"

lemma amo_at_64: "amo_new op3 a b 64 = amo_spec op3 a b"
  by (simp add: amo_new_def amo_spec_def Let_def)

lemma amo_at_32:
  "map_option ucast (amo_new op3 (sext old 32) b 32) = amo_spec op3 (ucast old :: u32) (ucast b)"
proof -
  have [simp]: "(ucast (scast (x :: u32) :: u64) :: u32) = x" "(ucast (ucast x :: u64) :: u32) = x" for x
    by (simp_all only: narrow_wide)
  have less: "((ucast (x :: u32) :: u64) \<le> ucast (y :: u32)) \<longleftrightarrow> x \<le> y" for x y
    by (simp only: word_le_def uint_up)
  show ?thesis
    unfolding amo_new_def amo_spec_def Let_def sext_32 trunc_32
    by (simp add: narrow narrow_bits narrow_compare min_def max_def less)
qed

definition amo_value :: "nat \<Rightarrow> u32 \<Rightarrow> u64 \<Rightarrow> u64 \<Rightarrow> u64 option" where
  "amo_value w op3 old b =
    (if w = 32 then map_option ucast (amo_spec op3 (ucast old :: u32) (ucast b)) else amo_spec op3 old b)"

lemma amo_value_new:
  assumes "w = 32 \<or> w = 64" and "amo_value w op3 old b = Some v"
  obtains new where "amo_new op3 (sext old w) b w = Some new" and "take_bit w new = take_bit w v"
proof (cases "w = 32")
  case True
  obtain x where x: "amo_spec op3 (ucast old :: u32) (ucast b) = Some x" and v: "v = ucast x"
    using assms(2) True by (auto simp: amo_value_def)
  then obtain new where "amo_new op3 (sext old 32) b 32 = Some new" and new: "ucast new = x"
    using amo_at_32 [of op3 old b] by auto
  moreover have "take_bit 32 new = take_bit 32 v"
    by (rule bit_word_eqI) (auto simp: v new [symmetric] bit_simps)
  ultimately show ?thesis using that True by simp
next
  case False
  then show ?thesis using assms that [of v] by (auto simp: amo_value_def amo_at_64)
qed

section \<open>The operand of an atomic instruction\<close>

text \<open>
  The address and width of an atomic access that the source accepts: naturally aligned, in DRAM, on
  a hart without paging.
\<close>

definition atomic_at :: "cpu \<Rightarrow> u32 \<Rightarrow> u64 \<Rightarrow> nat \<Rightarrow> bool" where
  "atomic_at c i a w \<longleftrightarrow>
     plain c \<and> opcode i = 0x2f \<and> rr c (rs1 i) = a \<and> in_dram (mem c) a (w div 8) \<and> a mod of_nat (w div 8) = 0
     \<and> (funct3 i = 2 \<and> w = 32 \<or> funct3 i = 3 \<and> w = 64 \<and> xbits c = 64)"

abbreviation atomic_op :: "u32 \<Rightarrow> u32" where
  "atomic_op i \<equiv> drop_bit 2 (funct7 i)"

lemma atomic_width: "atomic_at c i a w \<Longrightarrow> w = 32 \<or> w = 64"
  by (auto simp: atomic_at_def)

lemma atomic_start: "atomic_at c i a w \<Longrightarrow> plain (c\<lparr>pc := q\<rparr>) \<and> in_dram (mem (c\<lparr>pc := q\<rparr>)) a (w div 8)"
  by (simp add: atomic_at_def)

lemma exec_amo_at:
  assumes "atomic_at c i a w"
  shows "exec_amo i (c\<lparr>pc := q\<rparr>) =
    (if atomic_op i = 2 then
       (if rs2 i \<noteq> 0 then illegal i (c\<lparr>pc := q\<rparr>)
        else bindE (read_mem a (w div 8)) (\<lambda>v.
               update (\<lambda>c. wr (rd i) (sext v w) (c\<lparr>reservation := Some a\<rparr>))) (c\<lparr>pc := q\<rparr>))
     else if atomic_op i = 3 then
       bindE (if reservation c = Some a then write_mem a (w div 8) (rr c (rs2 i)) else ret ())
         (\<lambda>_. update (\<lambda>d. wr (rd i) (of_bool (reservation c \<noteq> Some a)) (d\<lparr>reservation := None\<rparr>))) (c\<lparr>pc := q\<rparr>)
     else bindE (read_mem a (w div 8)) (\<lambda>old.
         case amo_new (atomic_op i) (sext old w) (rr c (rs2 i)) w of
           None \<Rightarrow> illegal i
         | Some new \<Rightarrow> bindE (write_mem a (w div 8) new) (\<lambda>_. update (wr (rd i) (sext old w)))) (c\<lparr>pc := q\<rparr>))"
  using assms unfolding atomic_at_def exec_amo_def Let_def
  by (elim conjE disjE) (simp_all cong: if_cong option.case_cong)

section \<open>Read-modify-write\<close>

lemma to_le_take_bit: "to_le n (take_bit (8 * n) v) = to_le n v"
  unfolding to_le_def by (rule map_cong [OF refl], rule bit_word_eqI) (auto simp: bit_simps)

text \<open>
  C18. An atomic memory operation on an aligned word of DRAM succeeds: the destination gets the old
  word, sign-extended, and the word becomes the operation's result on words of the operand width, with
  no other byte, no other register and not the reservation changed.
\<close>

theorem atomic_updates_memory:
  assumes "atomic_at c i a w" and "atomic_op i \<noteq> 2" and "atomic_op i \<noteq> 3"
    and "amo_value w (atomic_op i) (word_at (mem c) a (w div 8)) (rr c (rs2 i)) = Some v"
  shows "\<exists>d. execute i p q c = (Inr (), d) \<and> pc d = q \<and> reservation d = reservation c
           \<and> (\<forall>r. rr d r = (if r \<noteq> 0 \<and> r = rd i then trunc (sext (word_at (mem c) a (w div 8)) w) (xbits c) else rr c r))
           \<and> dram (mem d) = splice (place a) (to_le (w div 8) v) (dram (mem c))"
proof -
  let ?c = "c\<lparr>pc := q\<rparr>" and ?n = "w div 8" and ?old = "word_at (mem c) a (w div 8)"
  note start = conjunct1 [OF atomic_start [OF assms(1)]] conjunct2 [OF atomic_start [OF assms(1)]]
  obtain t where read: "read_mem a ?n ?c = (Inr ?old, ?c\<lparr>tlb := t\<rparr>)" and t: "plain (?c\<lparr>tlb := t\<rparr>)"
    using plain_read [OF start, of q] by auto
  obtain new where new: "amo_new (atomic_op i) (sext ?old w) (rr c (rs2 i)) w = Some new"
    and same: "take_bit w new = take_bit w v"
    using amo_value_new [OF atomic_width [OF assms(1)] assms(4)] by blast
  obtain d where put: "write_mem a ?n new (?c\<lparr>tlb := t\<rparr>) = (Inr (), d)"
    and d: "store_at (place a) (to_le ?n new) (?c\<lparr>tlb := t\<rparr>) d"
    using plain_write [OF t, of a ?n new] start(2) by auto
  have ctx: "rr d = rr c" "pc d = q" "xbits d = xbits c" "reservation d = reservation c"
    using context_fields [of "?c\<lparr>tlb := t\<rparr>" d] d by (simp_all add: store_at_def)
  have "8 * ?n = w" using atomic_width [OF assms(1)] by auto
  then have bytes: "to_le ?n new = to_le ?n v" using same to_le_take_bit [of ?n] by metis
  let ?e = "wr (rd i) (sext ?old w) d"
  have "execute i p q c = (Inr (), ?e)"
    using assms(1-3) read new put
    by (simp add: execute_amo atomic_at_def exec_amo_at [OF assms(1)] bindE_Inr)
  moreover have "rr ?e r = (if r \<noteq> 0 \<and> r = rd i then trunc (sext ?old w) (xbits c) else rr c r)" for r
    by (simp add: rr_wr ctx)
  moreover have "dram (mem ?e) = splice (place a) (to_le ?n v) (dram (mem c))"
    using d by (auto simp: store_at_def bytes)
  ultimately show ?thesis using ctx by auto
qed


text \<open>A hart whose DRAM is all ones, with a pointer into it in a0 and five in a1.\<close>

definition ones_hart :: cpu where
  "ones_hart = (rv64 64)\<lparr>regs := (\<lambda>_. 0)(10 := 0x80000008, 11 := 5), mem := (mem_new 64)\<lparr>dram := replicate 64 0xff\<rparr>\<rparr>"

lemma ones_hart_facts:
  "rr ones_hart 10 = 0x80000008" "rr ones_hart 11 = 5" "xbits ones_hart = 64" "reservation ones_hart = None"
  "dram (mem ones_hart) = replicate 64 0xff" "plain ones_hart"
proof -
  show "rr ones_hart 10 = 0x80000008" "rr ones_hart 11 = 5" "xbits ones_hart = 64" "reservation ones_hart = None"
    "dram (mem ones_hart) = replicate 64 0xff"
    by (simp_all add: ones_hart_def rr_def xbits_def rv64_def cpu_new_def)
  have "plain (rv64 64)" unfolding rv64_def by (rule reset_is_plain) simp
  then show "plain ones_hart"
    by (rule plain_cong) (simp_all add: ones_hart_def rv64_def cpu_new_def mem_new_def)
qed

lemma ones_word: "word_at (mem ones_hart) 0x80000008 4 = 0xffffffff"
proof -
  have "slice_of 8 4 (replicate 64 (0xff :: u8)) = [0xff, 0xff, 0xff, 0xff]"
    by (simp add: slice_of_def numeral_eq_Suc)
  then show ?thesis by (simp add: word_at_def ones_hart_facts)
qed

lemma amo_fields:
  "opcode 0xb522af = 0x2f" "rs1 0xb522af = 10" "rs2 0xb522af = 11" "rd 0xb522af = 5" "funct3 0xb522af = 2" "funct7 0xb522af = 0"
  "opcode 0x100522af = 0x2f" "rs1 0x100522af = 10" "rs2 0x100522af = 0" "rd 0x100522af = 5" "funct3 0x100522af = 2" "funct7 0x100522af = 8"
  "opcode 0x18b5232f = 0x2f" "rs1 0x18b5232f = 10" "rs2 0x18b5232f = 11" "rd 0x18b5232f = 6" "funct3 0x18b5232f = 2" "funct7 0x18b5232f = 12"
  by (simp_all add: decode_defs)

lemma ones_atomic: "opcode i = 0x2f \<Longrightarrow> rs1 i = 10 \<Longrightarrow> funct3 i = 2 \<Longrightarrow> atomic_at ones_hart i 0x80000008 32"
  by (simp add: atomic_at_def ones_hart_facts in_dram_def)

theorem atomic_updates_memory_witness:
  "\<exists>d. execute 0xb522af 0x80000000 0x80000004 ones_hart = (Inr (), d) \<and> rr d 5 = 0xffffffffffffffff
     \<and> dram (mem d) = splice 8 [4, 0, 0, 0] (replicate 64 0xff)"
proof -
  have "amo_value 32 (atomic_op 0xb522af) (word_at (mem ones_hart) 0x80000008 (32 div 8)) (rr ones_hart (rs2 0xb522af)) = Some 4"
    by (simp add: amo_fields ones_hart_facts ones_word amo_value_def amo_spec_def)
  then have "\<exists>d. execute 0xb522af 0x80000000 0x80000004 ones_hart = (Inr (), d)
      \<and> rr d 5 = trunc (sext (word_at (mem ones_hart) 0x80000008 (32 div 8)) 32) (xbits ones_hart)
      \<and> dram (mem d) = splice (place 0x80000008) (to_le (32 div 8) 4) (dram (mem ones_hart))"
    using atomic_updates_memory [of ones_hart "0xb522af" "0x80000008" 32 4 "0x80000000" "0x80000004"] ones_atomic
    by (fastforce simp: amo_fields)
  moreover have "trunc (sext (word_at (mem ones_hart) 0x80000008 (32 div 8)) 32) (xbits ones_hart) = 0xffffffffffffffff"
    unfolding ones_hart_facts by (simp add: ones_word) code_simp
  moreover have "to_le (32 div 8) 4 = [4, 0, 0, 0]" by code_simp
  ultimately show ?thesis by (simp add: ones_hart_facts)
qed

section \<open>Load-reserved and store-conditional\<close>

lemma load_reserved:
  assumes "atomic_at c i a w" and "atomic_op i = 2" and "rs2 i = 0"
  obtains d where "execute i p q c = (Inr (), d)" and "plain d" and "reservation d = Some a" and "mem d = mem c"
    and "xbits d = xbits c"
    and "\<And>r. rr d r = (if r \<noteq> 0 \<and> r = rd i then trunc (sext (word_at (mem c) a (w div 8)) w) (xbits c) else rr c r)"
proof -
  let ?c = "c\<lparr>pc := q\<rparr>" and ?old = "word_at (mem c) a (w div 8)"
  note start = conjunct1 [OF atomic_start [OF assms(1)]] conjunct2 [OF atomic_start [OF assms(1)]]
  obtain t where read: "read_mem a (w div 8) ?c = (Inr ?old, ?c\<lparr>tlb := t\<rparr>)" and t: "plain (?c\<lparr>tlb := t\<rparr>)"
    using plain_read [OF start, of q] by auto
  have "execute i p q c = (Inr (), wr (rd i) (sext ?old w) (?c\<lparr>tlb := t, reservation := Some a\<rparr>))"
    using assms(1-3) read by (simp add: execute_amo atomic_at_def exec_amo_at [OF assms(1)] bindE_Inr)
  moreover have "plain (?c\<lparr>tlb := t, reservation := Some a\<rparr>)"
    using plain_fields(2) [OF t, of "Some a"] by simp
  ultimately show ?thesis using that by (simp add: rr_wr)
qed

lemma store_conditional:
  assumes "atomic_at c i a w" and "atomic_op i = 3"
  obtains d where "execute i p q c = (Inr (), d)" and "plain d" and "reservation d = None" and "xbits d = xbits c"
    and "\<And>r. rr d r = (if r \<noteq> 0 \<and> r = rd i then of_bool (reservation c \<noteq> Some a) else rr c r)"
    and "reservation c \<noteq> Some a \<Longrightarrow> mem d = mem c"
    and "dram (mem d) = (if reservation c = Some a then splice (place a) (to_le (w div 8) (rr c (rs2 i))) (dram (mem c))
                         else dram (mem c))"
proof -
  let ?c = "c\<lparr>pc := q\<rparr>"
  note start = conjunct1 [OF atomic_start [OF assms(1)]] conjunct2 [OF atomic_start [OF assms(1)]]
  have bool: "trunc (of_bool b) (xbits c) = of_bool b" for b
    by (cases "xlen c"; cases b) (simp_all add: xbits_def trunc_def)
  have run: "execute i p q c =
      bindE (if reservation c = Some a then write_mem a (w div 8) (rr c (rs2 i)) else ret ())
         (\<lambda>_. update (\<lambda>d. wr (rd i) (of_bool (reservation c \<noteq> Some a)) (d\<lparr>reservation := None\<rparr>))) ?c"
    using assms by (simp add: execute_amo atomic_at_def exec_amo_at [OF assms(1)])
  show ?thesis
  proof (cases "reservation c = Some a")
    case True
    obtain d where put: "write_mem a (w div 8) (rr c (rs2 i)) ?c = (Inr (), d)"
      and d: "store_at (place a) (to_le (w div 8) (rr c (rs2 i))) ?c d"
      using plain_write [OF start] by blast
    have "rr d = rr c" "xbits d = xbits c"
      using context_fields [of ?c d] d by (simp_all add: store_at_def)
    then show ?thesis
      using that [of "wr (rd i) 0 (d\<lparr>reservation := None\<rparr>)"] run put d True
      by (auto simp: bindE_Inr store_at_def rr_wr)
  next
    case False
    then show ?thesis
      using that [of "wr (rd i) 1 (?c\<lparr>reservation := None\<rparr>)"] run start(1) bool [of True]
      by (simp add: rr_wr ret_def bindE_def)
  qed
qed

text \<open>
  C19. A store-conditional after a load-reserved at its address stores and reports success, and gives
  the reservation up: the same store-conditional again stores nothing and reports failure.
\<close>

theorem store_conditional_succeeds_once:
  assumes "atomic_at c lr a w" and "atomic_op lr = 2" and "rs2 lr = 0"
    and "opcode sc = 0x2f" and "atomic_op sc = 3" and "funct3 sc = funct3 lr" and "rs1 sc = rs1 lr"
    and "rs1 sc \<notin> {rd lr, rd sc}" and "rs2 sc \<noteq> rd lr" and "rd sc \<noteq> 0"
  shows "\<exists>c1 c2 c3. execute lr p q c = (Inr (), c1) \<and> reservation c1 = Some a \<and> mem c1 = mem c
     \<and> (rd lr \<noteq> 0 \<longrightarrow> rr c1 (rd lr) = trunc (sext (word_at (mem c) a (w div 8)) w) (xbits c))
     \<and> execute sc p' q' c1 = (Inr (), c2) \<and> reservation c2 = None \<and> rr c2 (rd sc) = 0
     \<and> dram (mem c2) = splice (place a) (to_le (w div 8) (rr c (rs2 sc))) (dram (mem c))
     \<and> execute sc p' q' c2 = (Inr (), c3) \<and> reservation c3 = None \<and> rr c3 (rd sc) = 1 \<and> mem c3 = mem c2"
proof -
  have at: "rr c (rs1 lr) = a" "in_dram (mem c) a (w div 8)" using assms(1) by (simp_all add: atomic_at_def)
  obtain c1 where lr: "execute lr p q c = (Inr (), c1)" "plain c1" "reservation c1 = Some a" "mem c1 = mem c"
      "xbits c1 = xbits c"
    and reg1: "\<And>r. rr c1 r = (if r \<noteq> 0 \<and> r = rd lr then trunc (sext (word_at (mem c) a (w div 8)) w) (xbits c) else rr c r)"
    using load_reserved [OF assms(1-3), of p q] by blast
  have at1: "atomic_at c1 sc a w"
    using assms(1,4,6-8) lr reg1 [of "rs1 sc"] by (auto simp: atomic_at_def)
  obtain c2 where sc: "execute sc p' q' c1 = (Inr (), c2)" "plain c2" "reservation c2 = None" "xbits c2 = xbits c1"
    and reg2: "\<And>r. rr c2 r = (if r \<noteq> 0 \<and> r = rd sc then of_bool (reservation c1 \<noteq> Some a) else rr c1 r)"
    and mem2: "dram (mem c2) = (if reservation c1 = Some a then splice (place a) (to_le (w div 8) (rr c1 (rs2 sc)))
                                  (dram (mem c1)) else dram (mem c1))"
    using store_conditional [OF at1 assms(5), of p' q'] by blast
  have mem2: "dram (mem c2) = splice (place a) (to_le (w div 8) (rr c (rs2 sc))) (dram (mem c))"
    using mem2 assms(9) lr(3,4) reg1 [of "rs2 sc"] by simp
  then have size: "length (dram (mem c2)) = length (dram (mem c))" using at(2) by (auto simp: in_dram_def)
  have at2: "atomic_at c2 sc a w"
    using assms(1,4,6-8) lr sc(2,4) reg1 [of "rs1 sc"] reg2 [of "rs1 sc"] in_dram_cong [OF size]
    by (auto simp: atomic_at_def)
  obtain c3 where "execute sc p' q' c2 = (Inr (), c3)" "reservation c3 = None"
    and "rr c3 (rd sc) = (if rd sc \<noteq> 0 \<and> rd sc = rd sc then of_bool (reservation c2 \<noteq> Some a) else rr c2 (rd sc))"
    and "reservation c2 \<noteq> Some a \<Longrightarrow> mem c3 = mem c2"
    using store_conditional [OF at2 assms(5), of p' q'] by blast
  then show ?thesis
    using lr sc reg1 [of "rd lr"] reg2 [of "rd sc"] assms(10) mem2 by auto
qed


theorem store_conditional_succeeds_once_witness:
  "\<exists>c1 c2 c3. execute 0x100522af 0x80000000 0x80000004 ones_hart = (Inr (), c1)
     \<and> execute 0x18b5232f 0x80000004 0x80000008 c1 = (Inr (), c2) \<and> rr c2 6 = 0
     \<and> dram (mem c2) = splice 8 [5, 0, 0, 0] (replicate 64 0xff)
     \<and> execute 0x18b5232f 0x80000004 0x80000008 c2 = (Inr (), c3) \<and> rr c3 6 = 1"
proof -
  have "to_le (32 div 8) 5 = [5, 0, 0, 0]" by code_simp
  then show ?thesis
    using store_conditional_succeeds_once [of ones_hart "0x100522af" "0x80000008" 32 "0x18b5232f"
        "0x80000000" "0x80000004" "0x80000004" "0x80000008"] ones_atomic
    by (fastforce simp: amo_fields ones_hart_facts)
qed

end
