(* ===== verification/Sbi.thy ===== *)
theory Sbi
  imports Interrupts
begin

text \<open>
  The firmware's answers to supervisor calls, \<^verbatim>\<open>emu/src/sbi.rs\<close>. \<open>handle_sbi\<close> returns False
  exactly when the guest asked to shut down.
\<close>

abbreviation EXT_BASE :: u64 where "EXT_BASE \<equiv> 0x10"
abbreviation EXT_TIME :: u64 where "EXT_TIME \<equiv> 0x54494D45"
abbreviation EXT_IPI :: u64 where "EXT_IPI \<equiv> 0x00735049"
abbreviation EXT_RFENCE :: u64 where "EXT_RFENCE \<equiv> 0x52464E43"
abbreviation EXT_HSM :: u64 where "EXT_HSM \<equiv> 0x0048534D"
abbreviation EXT_SRST :: u64 where "EXT_SRST \<equiv> 0x53525354"
abbreviation EXT_DBCN :: u64 where "EXT_DBCN \<equiv> 0x4442434E"

abbreviation LEGACY_SET_TIMER :: u64 where "LEGACY_SET_TIMER \<equiv> 0"
abbreviation LEGACY_CONSOLE_PUTCHAR :: u64 where "LEGACY_CONSOLE_PUTCHAR \<equiv> 1"
abbreviation LEGACY_CONSOLE_GETCHAR :: u64 where "LEGACY_CONSOLE_GETCHAR \<equiv> 2"
abbreviation LEGACY_CLEAR_IPI :: u64 where "LEGACY_CLEAR_IPI \<equiv> 3"
abbreviation LEGACY_SEND_IPI :: u64 where "LEGACY_SEND_IPI \<equiv> 4"
abbreviation LEGACY_REMOTE_FENCE_I :: u64 where "LEGACY_REMOTE_FENCE_I \<equiv> 5"
abbreviation LEGACY_REMOTE_SFENCE_VMA :: u64 where "LEGACY_REMOTE_SFENCE_VMA \<equiv> 6"
abbreviation LEGACY_REMOTE_SFENCE_VMA_ASID :: u64 where "LEGACY_REMOTE_SFENCE_VMA_ASID \<equiv> 7"
abbreviation LEGACY_SHUTDOWN :: u64 where "LEGACY_SHUTDOWN \<equiv> 8"

text \<open>The error is an \<open>i64\<close>: \<open>-2\<close> is the two's complement word.\<close>

record sbi_ret =
  sr_error :: u64
  sr_value :: u64

definition sbi_ok :: "u64 \<Rightarrow> sbi_ret" where
  "sbi_ok v = \<lparr>sr_error = 0, sr_value = v\<rparr>"

definition sbi_success :: sbi_ret where
  "sbi_success = \<lparr>sr_error = 0, sr_value = 0\<rparr>"

definition sbi_not_supported :: sbi_ret where
  "sbi_not_supported = \<lparr>sr_error = - 2, sr_value = 0\<rparr>"

definition set_reg :: "nat \<Rightarrow> u64 \<Rightarrow> cpu \<Rightarrow> cpu" where
  "set_reg r v c = c\<lparr>regs := (regs c)(r := v)\<rparr>"

definition sbi_putchar :: "u64 \<Rightarrow> cpu \<Rightarrow> cpu" where
  "sbi_putchar v = upd_mem (\<lambda>m. m\<lparr>uart := putchar (ucast v) (uart m)\<rparr>)"

definition set_timer :: "u64 \<Rightarrow> cpu \<Rightarrow> cpu" where
  "set_timer when c =
    upd_csrs (csr_clear_bits MIP STIP)
      ((upd_mem (\<lambda>m. m\<lparr>clint := (clint m)\<lparr>mtimecmp := when\<rparr>\<rparr>) c)\<lparr>timer_armed := True\<rparr>)"

definition hart_selected :: "u64 \<Rightarrow> u64 \<Rightarrow> u64 \<Rightarrow> bool" where
  "hart_selected hmask base hart =
    (if base = - 1 then True
     else if hart < base then False
     else (let b = hart - base in b < 64 \<and> hmask AND push_bit (unat b) 1 \<noteq> 0))"

section \<open>The legacy calls\<close>

definition legacy_getchar :: "cpu \<Rightarrow> cpu" where
  "legacy_getchar c =
    (let (b, u) = take_input (uart (mem c));
         c1 = upd_mem (\<lambda>m. m\<lparr>uart := u\<rparr>) c
     in set_reg 10 (case b of Some x \<Rightarrow> ucast x | None \<Rightarrow> - 1) c1)"

definition legacy_send_ipi :: "u64 \<Rightarrow> cpu \<Rightarrow> cpu" where
  "legacy_send_ipi a c =
    (let (selected, c1) =
           (if a = 0 then (True, c)
            else case on_mem (mem_read a 8) c of
                   (Inr hmask, c') \<Rightarrow> (hmask AND 1 \<noteq> 0, c')
                 | (Inl _, c') \<Rightarrow> (False, c'))
     in set_reg 10 0 (if selected then upd_csrs (csr_set_bits MIP SSIP) c1 else c1))"

definition sbi_legacy :: "u64 \<Rightarrow> cpu \<Rightarrow> bool \<times> cpu" where
  "sbi_legacy eid c =
    (let a0 = regs c 10
     in if eid = LEGACY_SET_TIMER then (True, set_reg 10 0 (set_timer a0 c))
        else if eid = LEGACY_CONSOLE_PUTCHAR then (True, set_reg 10 0 (sbi_putchar a0 c))
        else if eid = LEGACY_CONSOLE_GETCHAR then (True, legacy_getchar c)
        else if eid = LEGACY_SHUTDOWN then (False, c)
        else if eid = LEGACY_SEND_IPI then (True, legacy_send_ipi a0 c)
        else if eid = LEGACY_CLEAR_IPI then
          (True, set_reg 10 0 (upd_csrs (csr_clear_bits MIP SSIP) c))
        else if eid = LEGACY_REMOTE_FENCE_I \<or> eid = LEGACY_REMOTE_SFENCE_VMA
                \<or> eid = LEGACY_REMOTE_SFENCE_VMA_ASID then
          (True, set_reg 10 0 (flush_tlb c))
        else (True, set_reg 10 (- 2) c))"

section \<open>The modern calls\<close>

definition probe_supported :: "u64 \<Rightarrow> bool" where
  "probe_supported a \<longleftrightarrow>
    a \<in> {EXT_BASE, EXT_TIME, EXT_IPI, EXT_RFENCE, EXT_HSM, EXT_SRST, EXT_DBCN,
         LEGACY_SET_TIMER, LEGACY_CONSOLE_PUTCHAR, LEGACY_CONSOLE_GETCHAR, LEGACY_SHUTDOWN}"

text \<open>The console loop \<^verbatim>\<open>for i in 0..len\<close>: \<open>n\<close> iterations are left, \<open>i\<close> are done.\<close>

fun dbcn_loop :: "nat \<Rightarrow> u64 \<Rightarrow> u64 \<Rightarrow> cpu \<Rightarrow> u64 \<times> cpu" where
  "dbcn_loop 0 addr i c = (i, c)"
| "dbcn_loop (Suc n) addr i c =
     (case on_mem (mem_read (addr + i) 1) c of
        (Inl _, c') \<Rightarrow> (i, c')
      | (Inr b, c') \<Rightarrow> dbcn_loop n addr (i + 1) (sbi_putchar b c'))"

definition sbi_modern :: "u64 \<Rightarrow> u64 \<Rightarrow> cpu \<Rightarrow> (sbi_ret \<times> cpu) option" where
  "sbi_modern eid fid c =
    (let a0 = regs c 10; a1 = regs c 11
     in if eid = EXT_BASE \<and> fid = 0 then Some (sbi_ok (push_bit 24 2), c)
        else if eid = EXT_BASE \<and> fid = 1 then Some (sbi_ok 3, c)
        else if eid = EXT_BASE \<and> fid = 2 then Some (sbi_ok 1, c)
        else if eid = EXT_BASE \<and> fid = 3 then Some (sbi_ok (of_bool (probe_supported a0)), c)
        else if eid = EXT_BASE \<and> 4 \<le> fid \<and> fid \<le> 6 then Some (sbi_ok 0, c)
        else if eid = EXT_TIME \<and> fid = 0 then Some (sbi_success, set_timer a0 c)
        else if eid = EXT_IPI \<and> fid = 0 then
          Some (sbi_success,
                if hart_selected a0 a1 0 then upd_csrs (csr_set_bits MIP SSIP) c else c)
        else if eid = EXT_RFENCE then Some (sbi_success, flush_tlb c)
        else if eid = EXT_HSM \<and> fid = 2 then Some (sbi_ok 0, c)
        else if eid = EXT_HSM then Some (sbi_not_supported, c)
        else if eid = EXT_SRST \<and> fid = 0 then None
        else if eid = EXT_DBCN \<and> fid = 0 then
          (let (written, c') = dbcn_loop (unat a0) a1 0 c in Some (sbi_ok written, c'))
        else if eid = EXT_DBCN \<and> fid = 2 then Some (sbi_success, sbi_putchar a0 c)
        else Some (sbi_not_supported, c))"

definition handle_sbi :: "cpu \<Rightarrow> bool \<times> cpu" where
  "handle_sbi c =
    (let eid = regs c 17; fid = regs c 16
     in if eid < 0x10 then sbi_legacy eid c
        else case sbi_modern eid fid c of
               None \<Rightarrow> (False, c)
             | Some (r, c') \<Rightarrow> (True, set_reg 11 (sr_value r) (set_reg 10 (sr_error r) c')))"

section \<open>The contract of the firmware\<close>

text \<open>
  The firmware acts on the hart through few effects. A preorder they respect is respected by
  every call, whatever the guest asks for.
\<close>

locale firmware_contract = state_contract R for R :: "cpu \<Rightarrow> cpu \<Rightarrow> bool" +
  assumes R_reg: "r \<noteq> 0 \<Longrightarrow> R c (set_reg r v c)"
    and R_uart: "R c (c\<lparr>mem := (mem c)\<lparr>uart := u\<rparr>\<rparr>)"
    and R_read: "R c (c\<lparr>mem := snd (mem_read a n (mem c))\<rparr>)"
    and R_timer: "R c (set_timer w c)"
    and R_fence: "R c (flush_tlb c)"
    and R_send_ipi: "R c (upd_csrs (csr_set_bits MIP SSIP) c)"
    and R_clear_ipi: "R c (upd_csrs (csr_clear_bits MIP SSIP) c)"
begin

lemma R_then_reg: "R c c' \<Longrightarrow> r \<noteq> 0 \<Longrightarrow> R c (set_reg r v c')"
  by (rule trans [OF _ R_reg])

lemma R_putchar: "R c (sbi_putchar v c)"
  by (simp add: sbi_putchar_def upd_mem_def R_uart)

lemma R_getchar: "R c (legacy_getchar c)"
  by (auto simp: legacy_getchar_def upd_mem_def split: prod.split intro!: R_then_reg R_uart)

lemma R_legacy_ipi: "R c (legacy_send_ipi a c)"
proof -
  let ?c1 = "c\<lparr>mem := snd (mem_read a 8 (mem c))\<rparr>"
  have "R c (upd_csrs (csr_set_bits MIP SSIP) ?c1)"
    by (rule trans [OF R_read R_send_ipi])
  then show ?thesis
    by (auto simp: legacy_send_ipi_def on_mem_run R_send_ipi R_read refl intro!: R_then_reg split: sum.split)
qed

lemma R_dbcn: "R c (snd (dbcn_loop n a i c))"
proof (induction n arbitrary: i c)
  case (Suc n)
  let ?c1 = "c\<lparr>mem := snd (mem_read (a + i) 1 (mem c))\<rparr>"
  have "R c (snd (dbcn_loop n a (i + 1) (sbi_putchar b ?c1)))" for b
    by (rule trans [OF R_read trans [OF R_putchar Suc.IH]])
  then show ?case by (simp add: on_mem_run R_read split: sum.split)
qed (simp add: refl)

lemma R_legacy: "R c (snd (sbi_legacy eid c))"
  by (simp add: sbi_legacy_def Let_def refl R_reg R_getchar R_legacy_ipi R_then_reg R_timer R_putchar
      R_clear_ipi R_fence)

lemma R_modern: "sbi_modern eid fid c = Some (r, c') \<Longrightarrow> R c c'"
  using R_dbcn [of c "unat (regs c 10)" "regs c 11" 0]
  by (auto simp: sbi_modern_def Let_def refl R_timer R_send_ipi R_fence R_putchar
      split: if_splits prod.splits)

lemma R_handle_sbi: "R c (snd (handle_sbi c))"
  by (auto simp: handle_sbi_def Let_def R_legacy refl split: option.split intro!: R_then_reg dest: R_modern)

end

end
