(* ===== verification/Elf.thy ===== *)
theory Elf
  imports Prelude
begin

text \<open>
  The ELF reader, \<^verbatim>\<open>emu/src/elf.rs\<close>. Offsets are \<open>usize\<close>, that is \<open>u64\<close> words with the
  wrap-around of the release build; a range whose end lies before its start or past the file
  is what \<^verbatim>\<open>get\<close> answers with \<^verbatim>\<open>None\<close>. A symbol's name is kept as its bytes: the source
  stores the lossy UTF-8 decoding, which for the only name ever looked up, \<^verbatim>\<open>tohost\<close>, is
  the name exactly when the bytes are.
\<close>

datatype elf_error = TooShort | NotElf | BadClass | NotLittleEndian | NotRiscv | NotExecutable

record segment =
  seg_addr :: u64
  seg_data :: "u8 list"
  seg_zero_len :: u64

record elf =
  segments :: "segment list"
  entry :: u64
  symbols :: "u8 list \<rightharpoonup> u64"
  is_64 :: bool

abbreviation PT_LOAD :: u64 where "PT_LOAD \<equiv> 1"
abbreviation SHT_SYMTAB :: u64 where "SHT_SYMTAB \<equiv> 2"
abbreviation EM_RISCV :: u64 where "EM_RISCV \<equiv> 243"
abbreviation ET_EXEC :: u64 where "ET_EXEC \<equiv> 2"

definition get_range :: "u8 list \<Rightarrow> u64 \<Rightarrow> u64 \<Rightarrow> u8 list option" where
  "get_range b start stop =
    (if start \<le> stop \<and> unat stop \<le> length b
     then Some (slice_of (unat start) (unat stop - unat start) b) else None)"

definition le_at :: "nat \<Rightarrow> u8 list \<Rightarrow> u64 \<Rightarrow> u64" where
  "le_at n b off = (case get_range b off (off + of_nat n) of None \<Rightarrow> 0 | Some s \<Rightarrow> from_le s)"

definition u16le :: "u8 list \<Rightarrow> u64 \<Rightarrow> u64" where
  "u16le b off = le_at 2 b off"

definition u32le :: "u8 list \<Rightarrow> u64 \<Rightarrow> u64" where
  "u32le b off = le_at 4 b off"

definition u64le :: "u8 list \<Rightarrow> u64 \<Rightarrow> u64" where
  "u64le b off = le_at 8 b off"

definition elf_word :: "bool \<Rightarrow> u8 list \<Rightarrow> u64 \<Rightarrow> u64 \<Rightarrow> u64 \<Rightarrow> u64" where
  "elf_word b64 b off32 off64 base =
    (if b64 then u64le b (base + off64) else u32le b (base + off32))"

section \<open>Program headers\<close>

definition phdr_fields :: "bool \<Rightarrow> u8 list \<Rightarrow> u64 \<Rightarrow> u64 \<times> u64 \<times> u64 \<times> u64" where
  "phdr_fields b64 b ph =
    (if b64 then (u64le b (ph + 8), u64le b (ph + 24), u64le b (ph + 32), u64le b (ph + 40))
     else (u32le b (ph + 4), u32le b (ph + 12), u32le b (ph + 16), u32le b (ph + 20)))"

definition saturating_sub :: "u64 \<Rightarrow> u64 \<Rightarrow> u64" where
  "saturating_sub a b = (if a < b then 0 else a - b)"

fun read_segments :: "bool \<Rightarrow> u8 list \<Rightarrow> u64 list \<Rightarrow> segment list \<Rightarrow> elf_error + segment list" where
  "read_segments b64 b [] acc = Inr acc"
| "read_segments b64 b (ph # phs) acc =
     (if u32le b ph \<noteq> PT_LOAD then read_segments b64 b phs acc
      else let (offset, paddr, filesz, memsz) = phdr_fields b64 b ph
           in case get_range b offset (offset + filesz) of
                None \<Rightarrow> Inl TooShort
              | Some data \<Rightarrow>
                  read_segments b64 b phs
                    (acc @ [\<lparr>seg_addr = paddr, seg_data = data,
                             seg_zero_len = saturating_sub memsz filesz\<rparr>]))"

section \<open>The symbol table\<close>

definition symbol_at :: "bool \<Rightarrow> u8 list \<Rightarrow> u64 \<Rightarrow> u64 \<Rightarrow> (u8 list \<times> u64) option" where
  "symbol_at b64 b strtab sy =
    (let name_off = strtab + u32le b sy;
         value = (if b64 then u64le b (sy + 8) else u32le b (sy + 4))
     in if unat name_off > length b then None
        else let rest = drop (unat name_off) b;
                 name = (if 0 \<in> set rest then takeWhile (\<lambda>c. c \<noteq> 0) rest else [])
             in if name = [] then None else Some (name, value))"

definition section_symbols :: "bool \<Rightarrow> u8 list \<Rightarrow> u64 \<Rightarrow> u64 \<Rightarrow> u64 \<Rightarrow> (u8 list \<times> u64) list" where
  "section_symbols b64 b shoff shentsize sh =
    (let (o_off, o_size, o_link, o_entsize) =
           (if b64 then (24, 32, 40, 56) else (16, 20, 24, 36));
         symoff = elf_word b64 b o_off o_off sh;
         symsize = elf_word b64 b o_size o_size sh;
         entsize = elf_word b64 b o_entsize o_entsize sh;
         strtab_idx = u32le b (sh + o_link);
         strtab = elf_word b64 b o_off o_off (shoff + strtab_idx * shentsize)
     in if u32le b (sh + 4) \<noteq> SHT_SYMTAB \<or> entsize = 0 then []
        else List.map_filter
               (\<lambda>k. symbol_at b64 b strtab (symoff + of_nat k * entsize))
               [0..<(unat symsize + unat entsize - 1) div unat entsize])"

definition headers :: "u64 \<Rightarrow> u64 \<Rightarrow> u64 \<Rightarrow> u64 list" where
  "headers off n entsize = map (\<lambda>i. off + of_nat i * entsize) [0..<unat n]"

section \<open>Parsing\<close>

definition elf_magic :: "u8 list" where
  "elf_magic = [0x7f, 0x45, 0x4c, 0x46]"

definition elf_check :: "u8 list \<Rightarrow> elf_error + bool" where
  "elf_check b =
    (if length b < 52 then Inl TooShort
     else if take 4 b \<noteq> elf_magic then Inl NotElf
     else if b ! 4 \<noteq> 1 \<and> b ! 4 \<noteq> 2 then Inl BadClass
     else if b ! 5 \<noteq> 1 then Inl NotLittleEndian
     else if u16le b 18 \<noteq> EM_RISCV then Inl NotRiscv
     else if u16le b 16 \<noteq> ET_EXEC then Inl NotExecutable
     else Inr (b ! 4 = 2))"

definition elf_parse :: "u8 list \<Rightarrow> elf_error + elf" where
  "elf_parse b =
    (case elf_check b of Inl e \<Rightarrow> Inl e
     | Inr b64 \<Rightarrow>
        (let ent = elf_word b64 b 24 24 0;
             phoff = elf_word b64 b 28 32 0;
             shoff = elf_word b64 b 32 40 0;
             (phentsize_off, phnum_off, shentsize_off, shnum_off) =
               (if b64 then (54, 56, 58, 60) else (42, 44, 46, 48));
             phentsize = u16le b phentsize_off;
             phnum = u16le b phnum_off;
             shentsize = u16le b shentsize_off;
             shnum = u16le b shnum_off
         in case read_segments b64 b (headers phoff phnum phentsize) [] of
              Inl e \<Rightarrow> Inl e
            | Inr segs \<Rightarrow>
                Inr \<lparr>segments = segs, entry = ent,
                     symbols = foldl (\<lambda>m (k, v). m(k \<mapsto> v)) Map.empty
                       (concat (map (section_symbols b64 b shoff shentsize)
                                    (headers shoff shnum shentsize))),
                     is_64 = b64\<rparr>))"

end
