(* ===== verification/Hart.thy ===== *)
theory Hart
  imports Exec Sbi Elf
begin

text \<open>
  The hart as a whole, \<^verbatim>\<open>emu/src/cpu.rs\<close>: one step, the run loop with its exits, and the two
  ways of entering a program, from an ELF image and as a kernel under the firmware layer.
\<close>

section \<open>One step\<close>

definition begin_cycle :: "cpu \<Rightarrow> cpu" where
  "begin_cycle c =
    (let c1 = c\<lparr>cycle := cycle c + 1\<rparr>
     in tick_timer (upd_csrs (csr_force MCYCLE (cycle c1)) c1))"

text \<open>The clock and the devices leave the program alone.\<close>

lemma begin_cycle_keeps [simp]:
  "regs (begin_cycle c) = regs c" "fregs (begin_cycle c) = fregs c" "pc (begin_cycle c) = pc c"
  "xlen (begin_cycle c) = xlen c" "priv_mode (begin_cycle c) = priv_mode c" "tlb (begin_cycle c) = tlb c"
  "reservation (begin_cycle c) = reservation c" "dram (mem (begin_cycle c)) = dram (mem c)"
  by (simp_all add: begin_cycle_def tick_timer_def tick_timer_bits_def sweep_devices_def advance_mtime_def
      set_mip_def Let_def)

definition retire :: "cpu \<Rightarrow> cpu" where
  "retire c =
    (if \<not> wrote_instret c
     then upd_csrs (csr_force MINSTRET (csr_read (csrs c) MINSTRET + 1)) c else c)"

definition fetch_execute :: "(cpu, exception, unit) prog" where
  "fetch_execute c =
    bindE fetch (\<lambda>(inst, len) c'. execute inst (pc c) (pc c' + len) c') c"

definition finish_step :: "u64 \<Rightarrow> (exception + unit) \<times> cpu \<Rightarrow> (exception + unit) \<times> cpu" where
  "finish_step inst_pc res =
    (case res of
       (Inr _, c) \<Rightarrow> (Inr (), retire c)
     | (Inl e, c) \<Rightarrow>
         if e = EnvironmentCall \<and> sbi c \<and> priv_mode c = Supervisor
         then (let (goes_on, c') = handle_sbi c
               in (Inr (), if goes_on then c' else c'\<lparr>shutdown := True\<rparr>))
         else (Inl e, trap e inst_pc c))"

definition step :: "(cpu, exception, unit) prog" where
  "step c =
    (let c1 = begin_cycle c
     in case pending_interrupt c1 of
          Some cs \<Rightarrow> (Inr (), take_trap cs 0 (pc c1) True c1)
        | None \<Rightarrow> finish_step (pc c1) (fetch_execute (c1\<lparr>wrote_instret := False\<rparr>)))"

section \<open>The run loop\<close>

datatype exit = Pass | Fail u64 | Ecall | UnhandledTrap exception | StepLimit | Shutdown

definition no_handler :: "cpu \<Rightarrow> bool" where
  "no_handler c \<longleftrightarrow> csr_read (csrs c) (if sbi c then STVEC else MTVEC) = 0"

definition report_tohost :: "u64 \<Rightarrow> exit option" where
  "report_tohost v =
    (if v AND 1 = 1 then Some (if drop_bit 1 v = 0 then Pass else Fail (drop_bit 1 v)) else None)"

definition stop_on_error :: "exception + unit \<Rightarrow> cpu \<Rightarrow> exit option" where
  "stop_on_error r c =
    (case r of
       Inr _ \<Rightarrow> None
     | Inl e \<Rightarrow>
         if e = EnvironmentCall \<and> \<not> sbi c \<and> tohost (mem c) = None then Some Ecall
         else if no_handler c then Some (UnhandledTrap e)
         else None)"

definition after_step :: "exception + unit \<Rightarrow> cpu \<Rightarrow> exit option \<times> cpu" where
  "after_step r c =
    (if shutdown c then (Some Shutdown, c)
     else case tohost_value (mem c) of
            None \<Rightarrow> (stop_on_error r c, c)
          | Some v \<Rightarrow>
              (case report_tohost v of
                 Some x \<Rightarrow> (Some x, c)
               | None \<Rightarrow>
                   (let c' = upd_mem (\<lambda>m. m\<lparr>tohost_value := None\<rparr>) c
                    in (stop_on_error r c', c'))))"

fun run :: "nat \<Rightarrow> cpu \<Rightarrow> exit \<times> cpu" where
  "run 0 c = (StepLimit, c)"
| "run (Suc n) c =
     (let (r, c1) = step c
      in case after_step r c1 of
           (Some x, c2) \<Rightarrow> (x, c2)
         | (None, c2) \<Rightarrow> run n c2)"

section \<open>Entering a program\<close>

fun load_segments :: "segment list \<Rightarrow> (cpu, exception, unit) prog" where
  "load_segments [] = ret ()"
| "load_segments (seg # segs) =
     (let fault = StoreAccessFault (seg_addr seg)
      in bindE (map_err (\<lambda>_. fault) (on_mem (load_at (seg_addr seg) (seg_data seg)))) (\<lambda>_.
         bindE (if seg_zero_len seg > 0
                then map_err (\<lambda>_. fault)
                       (on_mem (mem_zero (seg_addr seg + of_nat (length (seg_data seg)))
                                  (seg_zero_len seg)))
                else ret ())
           (\<lambda>_. load_segments segs)))"

definition tohost_name :: "u8 list" where
  "tohost_name = [0x74, 0x6f, 0x68, 0x6f, 0x73, 0x74]"

definition load_elf :: "elf \<Rightarrow> (cpu, exception, unit) prog" where
  "load_elf e c =
    (let x = (if is_64 e then Rv64 else Rv32);
         c1 = upd_csrs (set_xlen x) (c\<lparr>xlen := x\<rparr>);
         c2 = c1\<lparr>regs := (regs c1)(2 := trunc (regs c1 2) (xbits c1))\<rparr>
     in bindE (load_segments (segments e))
          (\<lambda>_. update (\<lambda>c. upd_mem (\<lambda>m. m\<lparr>tohost := symbols e tohost_name\<rparr>) (c\<lparr>pc := entry e\<rparr>)))
          c2)"

definition boot_supervisor :: "u64 \<Rightarrow> u64 \<Rightarrow> u64 \<Rightarrow> cpu \<Rightarrow> cpu" where
  "boot_supervisor ent hartid dtb c =
    (let c1 = upd_csrs (\<lambda>f. csr_force SCOUNTEREN (- 1) (csr_force MCOUNTEREN (- 1)
                (csr_force MIDELEG (SSIP OR STIP OR SEIP) (csr_force MEDELEG 0xb1ff f)))) c
     in c1\<lparr>sbi := True, priv_mode := Supervisor, pc := ent,
           regs := (regs c1)(10 := hartid, 11 := dtb)\<rparr>)"

end
