(* ===== verification/Cycle.thy ===== *)
theory Cycle
  imports Data Hart
begin

text \<open>
  The instruction cycle: on a hart without paging, a step with no interrupt to take executes the
  instruction that the bytes at the program counter encode, compressed or not, wherever in a page
  they stand.
\<close>

section \<open>The instruction in memory\<close>

definition half_at :: "memory \<Rightarrow> u64 \<Rightarrow> u32" where
  "half_at m a = ucast (word_at m a 2)"

definition instruction_at :: "xlen \<Rightarrow> memory \<Rightarrow> u64 \<Rightarrow> (u32 \<times> u64) option" where
  "instruction_at x m a =
    (if half_at m a AND 0x3 = 0x3 then Some (push_bit 16 (half_at m (a + 2)) OR half_at m a, 4)
     else map_option (\<lambda>i. (i, 2)) (decompress (half_at m a) x))"

lemma halves_in_dram:
  assumes "in_dram m a 4" and "addressable m"
  shows "in_dram m a 2" "in_dram m (a + 2) 2" "place (a + 2) = place a + 2"
  using assms byte_in_dram [OF assms, of 2] by (auto simp: in_dram_def)

lemma word_of_halves:
  assumes "in_dram m a 4" and "addressable m"
  shows "ucast (word_at m a 4) = push_bit 16 (half_at m (a + 2)) OR half_at m a"
proof -
  have bound: "place a + 4 \<le> length (dram m)" using assms(1) by (simp add: in_dram_def)
  have four: "slice_of (place a) 4 (dram m) =
      [dram m ! place a, dram m ! Suc (place a), dram m ! Suc (Suc (place a)), dram m ! Suc (Suc (Suc (place a)))]"
    using bound by (simp add: numeral_eq_Suc slice_of_Suc) (simp add: slice_of_def)
  have two: "slice_of i 2 (dram m) = [dram m ! i, dram m ! Suc i]" if "i + 2 \<le> length (dram m)" for i
    using that by (simp add: numeral_eq_Suc slice_of_Suc) (simp add: slice_of_def)
  show ?thesis
    unfolding half_at_def word_at_def halves_in_dram(3) [OF assms] four
    using bound by (simp add: two) (rule bit_word_eqI, auto simp: bit_simps)
qed

lemma take_bit_of_ucast16: "(ucast (take_bit 16 (v :: u64)) :: u32) = take_bit 16 (ucast v)"
  by (rule bit_word_eqI) (auto simp: bit_simps)

lemma half_bound: "in_dram m a 2 \<Longrightarrow> take_bit 16 (half_at m a) = half_at m a"
  using word_at_bound [of m a 2] by (simp add: half_at_def take_bit_of_ucast16 [symmetric])

lemma low_half:
  assumes "in_dram m a 2"
  shows "(push_bit 16 h OR half_at m a) AND 0xffff = half_at m a"
    and "(push_bit 16 h OR half_at m a) AND 0x3 = half_at m a AND 0x3"
proof -
  have "v AND 0xffff = take_bit 16 v" for v :: u32 by (simp add: take_bit_eq_mask mask_eq_exp_minus_1)
  then have "(push_bit 16 h OR half_at m a) AND 0xffff = take_bit 16 (half_at m a)"
    by (simp add: take_bit_push_bit)
  then show "(push_bit 16 h OR half_at m a) AND 0xffff = half_at m a"
    by (simp only: half_bound [OF assms])
  show "(push_bit 16 h OR half_at m a) AND 0x3 = half_at m a AND 0x3"
    by (simp add: and_numeral_take_bit take_bit_push_bit)
qed

lemma fetch_half_plain:
  assumes "plain c" and "in_dram (mem c) a 2"
  obtains t where "fetch_half a c = (Inr (word_at (mem c) a 2), c\<lparr>tlb := t\<rparr>)" and "plain (c\<lparr>tlb := t\<rparr>)"
proof -
  obtain t where run: "translate a Fetch c = (Inr a, c\<lparr>tlb := t\<rparr>)" and t: "plain (c\<lparr>tlb := t\<rparr>)"
    using plain_translate [OF assms(1)] by blast
  have "fetch_half a c = (Inr (word_at (mem c) a 2), c\<lparr>tlb := t\<rparr>)"
    using run dram_read [OF assms(2)] assms(1)
    by (simp add: fetch_half_def bindE_def map_err_def on_mem_def word_at_def plain_def)
  then show ?thesis using that t by blast
qed


definition decoded :: "(u32 \<times> u64) option \<Rightarrow> u32 \<Rightarrow> exception + u32 \<times> u64" where
  "decoded r lo = (case r of None \<Rightarrow> Inl (IllegalInstruction lo) | Some i \<Rightarrow> Inr i)"

lemma expand_at:
  "half_at m a AND 0x3 \<noteq> 0x3 \<Longrightarrow> expand (half_at m a) c = (decoded (instruction_at (xlen c) m a) (half_at m a), c)"
  by (simp add: expand_def instruction_at_def decoded_def split: option.split)

lemma plain_fetch:
  assumes "plain c" and even: "pc c AND 1 = 0" and at: "in_dram (mem c) (pc c) 4"
  obtains t where "fetch c = (decoded (instruction_at (xlen c) (mem c) (pc c)) (half_at (mem c) (pc c)), c\<lparr>tlb := t\<rparr>)"
    and "plain (c\<lparr>tlb := t\<rparr>)"
proof -
  let ?m = "mem c" and ?a = "pc c"
  have m: "addressable ?m" using assms(1) by (simp add: plain_def)
  note half = halves_in_dram [OF at m]
  note low = low_half [OF half(1), of "half_at ?m (?a + 2)"]
  have full: "decoded (instruction_at (xlen c) ?m ?a) (half_at ?m ?a) =
      Inr (push_bit 16 (half_at ?m (?a + 2)) OR half_at ?m ?a, 4)" if "half_at ?m ?a AND 0x3 = 0x3"
    using that by (simp add: instruction_at_def decoded_def)
  show ?thesis
  proof (cases "?a AND 0xfff \<le> 0xffc")
    case True
    obtain t where run: "translate ?a Fetch c = (Inr ?a, c\<lparr>tlb := t\<rparr>)" and t: "plain (c\<lparr>tlb := t\<rparr>)"
      using plain_translate [OF assms(1)] by blast
    have "mem_read ?a 4 ?m = (Inr (word_at ?m ?a 4), ?m)"
      using dram_read [OF at m] by (simp add: word_at_def)
    then have "fetch c = (let word = push_bit 16 (half_at ?m (?a + 2)) OR half_at ?m ?a
        in if word AND 0x3 \<noteq> 0x3 then expand (word AND 0xffff) else ret (word, 4)) (c\<lparr>tlb := t\<rparr>)"
      using True even run word_of_halves [OF at m]
      by (simp add: fetch_def bindE_def map_err_def on_mem_def)
    then show ?thesis
      using that [OF _ t] full expand_at [of ?m ?a "c\<lparr>tlb := t\<rparr>"] by (simp add: low Let_def ret_def split: if_splits)
  next
    case False
    obtain t where lo: "fetch_half ?a c = (Inr (word_at ?m ?a 2), c\<lparr>tlb := t\<rparr>)" and t: "plain (c\<lparr>tlb := t\<rparr>)"
      using fetch_half_plain [OF assms(1) half(1)] by blast
    obtain u where hi: "fetch_half (?a + 2) (c\<lparr>tlb := t\<rparr>) = (Inr (word_at ?m (?a + 2) 2), c\<lparr>tlb := u\<rparr>)"
        and u: "plain (c\<lparr>tlb := u\<rparr>)"
      using fetch_half_plain [OF t, of "?a + 2"] half(2) by auto
    have run: "fetch c = (if half_at ?m ?a AND 0x3 \<noteq> 0x3 then expand (half_at ?m ?a) (c\<lparr>tlb := t\<rparr>)
        else (Inr (push_bit 16 (half_at ?m (?a + 2)) OR half_at ?m ?a, 4), c\<lparr>tlb := u\<rparr>))"
      using False even lo hi by (simp add: fetch_def bindE_def half_at_def Let_def ret_def)
    then show ?thesis
      using that [OF _ t] that [OF _ u] full expand_at [of ?m ?a "c\<lparr>tlb := t\<rparr>"] by (simp split: if_splits)
  qed
qed


section \<open>One step\<close>

text \<open>The tick of the timer writes the clocks and the pending bits, and no other control register.\<close>

lemma set_mip_csrs:
  "b \<noteq> MIP \<Longrightarrow> csr_regs (csrs (set_mip v on c)) b = csr_regs (csrs c) b"
  "csr_xlen (csrs (set_mip v on c)) = csr_xlen (csrs c)"
  by (simp_all add: set_mip_def csr_set_bits_def csr_clear_bits_def)

lemma set_mip_mem [simp]: "mem (set_mip v on c) = mem c"
  by (simp add: set_mip_def)

lemma advance_mtime_csrs:
  "b \<noteq> TIME \<Longrightarrow> csr_regs (csrs (advance_mtime c)) b = csr_regs (csrs c) b"
  "csr_xlen (csrs (advance_mtime c)) = csr_xlen (csrs c)"
  by (simp_all add: advance_mtime_def csr_force_def Let_def)

lemma tick_timer_bits_csrs:
  "b \<noteq> MIP \<Longrightarrow> csr_regs (csrs (tick_timer_bits c)) b = csr_regs (csrs c) b"
  "csr_xlen (csrs (tick_timer_bits c)) = csr_xlen (csrs c)"
  by (simp_all add: tick_timer_bits_def set_mip_csrs Let_def)

lemma sweep_devices_csrs:
  "b \<noteq> MIP \<Longrightarrow> csr_regs (csrs (sweep_devices c)) b = csr_regs (csrs c) b"
  "csr_xlen (csrs (sweep_devices c)) = csr_xlen (csrs c)"
  by (simp_all add: sweep_devices_def set_mip_csrs Let_def)

lemma begin_cycle_other_csrs:
  "b \<notin> {MCYCLE, TIME, MIP} \<Longrightarrow> csr_regs (csrs (begin_cycle c)) b = csr_regs (csrs c) b"
  "csr_xlen (csrs (begin_cycle c)) = csr_xlen (csrs c)"
  by (simp_all add: begin_cycle_def tick_timer_def tick_timer_bits_csrs sweep_devices_csrs advance_mtime_csrs csr_force_def
      Let_def)

lemma csr_read_three:
  "csr_read f SATP = (if csr_xlen f = Rv32 then csr_regs f SATP AND 0xffffffff else csr_regs f SATP)"
  "csr_read f MIE = (if csr_xlen f = Rv32 then csr_regs f MIE AND 0xffffffff else csr_regs f MIE)"
  "csr_read f MSTATUS = (if csr_xlen f = Rv32 then csr_status f AND 0xffffffff else csr_status f)"
  by (simp_all add: csr_read_def csr_read_value_def Let_def)

lemma begin_cycle_csrs:
  "csr_read (csrs (begin_cycle c)) SATP = csr_read (csrs c) SATP"
  "csr_read (csrs (begin_cycle c)) MSTATUS = csr_read (csrs c) MSTATUS"
  "csr_read (csrs (begin_cycle c)) MIE = csr_read (csrs c) MIE"
  using begin_cycle_other_csrs(1) [of SATP c] begin_cycle_other_csrs(1) [of MSTATUS c] begin_cycle_other_csrs(1) [of MIE c]
    begin_cycle_other_csrs(2) [of c]
  by (simp_all add: csr_read_three csr_status_def Let_def)

lemma plain_begin_cycle: "plain c \<Longrightarrow> plain (begin_cycle c)"
  by (rule plain_cong) (simp_all add: begin_cycle_csrs)

lemma word_at_cong: "dram m = dram k \<Longrightarrow> word_at m = word_at k"
  by (simp add: word_at_def fun_eq_iff)

lemma instruction_at_cong: "dram m = dram k \<Longrightarrow> half_at m = half_at k \<and> instruction_at x m = instruction_at x k"
  using word_at_cong [of m k] by (simp add: half_at_def instruction_at_def fun_eq_iff)

text \<open>
  C5. The instruction cycle: when no interrupt is to be taken, a step executes the instruction that
  the bytes at the program counter encode, four bytes or two, with the address of the next one
  behind it, and an undefined compressed encoding is an illegal instruction.
\<close>

theorem step_executes_instruction:
  assumes "plain c" and "pending_interrupt (begin_cycle c) = None"
    and "pc c AND 1 = 0" and "in_dram (mem c) (pc c) 4"
  shows "\<exists>t. let c1 = (begin_cycle c)\<lparr>wrote_instret := False, tlb := t\<rparr>
     in step c = finish_step (pc c)
          (case instruction_at (xlen c) (mem c) (pc c) of
             None \<Rightarrow> (Inl (IllegalInstruction (half_at (mem c) (pc c))), c1)
           | Some (i, len) \<Rightarrow> execute i (pc c) (pc c + len) c1)"
proof -
  let ?c = "(begin_cycle c)\<lparr>wrote_instret := False\<rparr>"
  have "plain ?c" by (rule plain_cong [OF plain_begin_cycle [OF assms(1)]]) simp_all
  moreover have same: "half_at (mem ?c) = half_at (mem c)" "instruction_at x (mem ?c) = instruction_at x (mem c)" for x
    using instruction_at_cong [of "mem ?c" "mem c"] by simp_all
  moreover have "in_dram (mem ?c) (pc ?c) 4" using assms(4) by (simp add: in_dram_def)
  ultimately obtain t where
    "fetch ?c = (decoded (instruction_at (xlen c) (mem c) (pc c)) (half_at (mem c) (pc c)), ?c\<lparr>tlb := t\<rparr>)"
    using plain_fetch [of ?c] assms(3) by auto
  then show ?thesis
    using assms(2)
    by (intro exI [of _ t])
       (simp add: step_def fetch_execute_def bindE_def decoded_def Let_def split: option.split prod.split)
qed

text \<open>A hart at reset with \<^verbatim>\<open>addi a0, zero, 5\<close> in its first word.\<close>

definition addi_hart :: cpu where
  "addi_hart = (rv64 64)\<lparr>mem := (mem_new 64)\<lparr>dram := [0x13, 0x05, 0x50, 0x00] @ replicate 60 0\<rparr>\<rparr>"

lemma addi_hart_facts:
  "pc addi_hart = 0x80000000" "xlen addi_hart = Rv64" "dram (mem addi_hart) = [0x13, 0x05, 0x50, 0x00] @ replicate 60 0"
  "plain addi_hart" "pending_interrupt (begin_cycle addi_hart) = None"
proof -
  show "pc addi_hart = 0x80000000" "xlen addi_hart = Rv64" "dram (mem addi_hart) = [0x13, 0x05, 0x50, 0x00] @ replicate 60 0"
    by (simp_all add: addi_hart_def rv64_def cpu_new_def)
  have "plain (rv64 64)" unfolding rv64_def by (rule reset_is_plain) simp
  then show "plain addi_hart"
    by (rule plain_cong) (simp_all add: addi_hart_def rv64_def cpu_new_def mem_new_def)
  have "csr_read (csrs addi_hart) MIE = 0"
    by (simp add: addi_hart_def rv64_def cpu_new_def csr_new_def csr_read_def csr_read_value_def Let_def)
  then show "pending_interrupt (begin_cycle addi_hart) = None"
    by (simp add: pending_interrupt_def begin_cycle_csrs)
qed

lemma addi_executes: "execute 0x00500513 p q c = (Inr (), wr 10 5 (c\<lparr>pc := q\<rparr>))" if "xlen c = Rv64"
  using that
  by (simp add: execute_def exec_opcode_def exec_op_imm_def decode_defs alu_def rr_def xbits_def Let_def)

theorem step_executes_instruction_witness:
  "\<exists>d. step addi_hart = (Inr (), d) \<and> rr d 10 = 5 \<and> pc d = 0x80000004"
proof -
  have "instruction_at Rv64 (mem addi_hart) 0x80000000 = Some (0x00500513, 4)"
    by (simp add: instruction_at_def half_at_def word_at_def addi_hart_facts slice_of_def)
  moreover have "in_dram (mem addi_hart) (pc addi_hart) 4" by (simp add: in_dram_def addi_hart_facts)
  ultimately obtain t where "step addi_hart =
      finish_step 0x80000000 (execute 0x00500513 0x80000000 0x80000004 ((begin_cycle addi_hart)\<lparr>wrote_instret := False, tlb := t\<rparr>))"
    using step_executes_instruction [of addi_hart] addi_hart_facts by (auto simp: Let_def)
  then show ?thesis
    by (simp add: addi_executes addi_hart_facts finish_step_def retire_def rr_def wr_def xbits_def trunc_def)
qed

end
