(* ===== verification/Stepping.thy ===== *)
theory Stepping
  imports Hart
begin

text \<open>
  The run loop of \<^verbatim>\<open>emu/src/cpu.rs\<close> as a machine: the relation that takes the hart from the start of
  one round to the start of the next, the rounds that end the run, and what a limit of steps means
  for the two.
\<close>

section \<open>Loops over a deterministic machine\<close>

text \<open>A round either goes on with a new state or stops with an exit; the loop gives up at its limit.\<close>

locale bounded_loop =
  fixes round :: "'s \<Rightarrow> 'x option \<times> 's" and gave_up :: 'x and loop :: "nat \<Rightarrow> 's \<Rightarrow> 'x \<times> 's"
  assumes loop_0: "loop 0 s = (gave_up, s)"
    and loop_Suc: "loop (Suc n) s = (case round s of (Some x, t) \<Rightarrow> (x, t) | (None, t) \<Rightarrow> loop n t)"
    and never_gives_up: "round s \<noteq> (Some gave_up, t)"
begin

lemma loop_add: "loop (m + n) s = (case loop m s of (x, t) \<Rightarrow> if x = gave_up then loop n t else (x, t))"
proof (induction m arbitrary: s)
  case (Suc m)
  obtain y t where r: "round s = (y, t)" by (cases "round s")
  with never_gives_up [of s t] have "y \<noteq> Some gave_up" by metis
  with r Suc show ?case by (cases y) (auto simp: loop_Suc)
qed (simp add: loop_0)

lemma loop_stays_stopped: "loop m s = (x, t) \<Longrightarrow> x \<noteq> gave_up \<Longrightarrow> loop (m + n) s = (x, t)"
  by (simp add: loop_add)

lemma loop_stops:
  assumes "(\<lambda>s t. round s = (None, t))\<^sup>*\<^sup>* s u" and "round u = (Some x, t)"
  shows "\<exists>n. \<forall>m. loop (n + m) s = (x, t)"
  using assms(1)
proof (induction s rule: converse_rtranclp_induct)
  case base
  have "loop (1 + m) u = (x, t)" for m using assms(2) by (simp add: loop_Suc)
  then show ?case by blast
next
  case (step s v)
  then obtain n where "\<forall>m. loop (n + m) v = (x, t)" by blast
  then have "\<forall>m. loop (Suc n + m) s = (x, t)" using step.hyps(1) by (simp add: loop_Suc)
  then show ?case by blast
qed

lemma stops_in_rounds:
  assumes "loop n s = (x, t)" and "x \<noteq> gave_up"
  shows "\<exists>u. (\<lambda>s t. round s = (None, t))\<^sup>*\<^sup>* s u \<and> round u = (Some x, t)"
  using assms
proof (induction n arbitrary: s)
  case (Suc n)
  obtain y v where r: "round s = (y, v)" by (cases "round s")
  show ?case
  proof (cases y)
    case None
    with r Suc obtain u where "(\<lambda>s t. round s = (None, t))\<^sup>*\<^sup>* v u" "round u = (Some x, t)"
      by (auto simp: loop_Suc)
    moreover have "round s = (None, v)" using r None by simp
    ultimately show ?thesis by (meson converse_rtranclp_into_rtranclp)
  next
    case (Some z)
    with r Suc.prems have "round s = (Some x, t)" by (simp add: loop_Suc)
    then show ?thesis by blast
  qed
qed (simp add: loop_0)

lemma stops_iff:
  "(\<exists>u. (\<lambda>s t. round s = (None, t))\<^sup>*\<^sup>* s u \<and> round u = (Some x, t))
     \<longleftrightarrow> x \<noteq> gave_up \<and> (\<exists>n. \<forall>m. loop (n + m) s = (x, t))" (is "?stops \<longleftrightarrow> ?loops")
proof
  assume ?stops
  then show ?loops using loop_stops never_gives_up by metis
next
  assume loops: ?loops
  then obtain n where "loop (n + 0) s = (x, t)" by blast
  with loops show ?stops using stops_in_rounds [of "n + 0"] by blast
qed

end

section \<open>The rounds of the hart\<close>

definition round_of_run :: "cpu \<Rightarrow> exit option \<times> cpu" where
  "round_of_run c = (let (r, c1) = step c in after_step r c1)"

lemma after_step_not_limit: "after_step r c \<noteq> (Some StepLimit, c2)"
  by (auto simp: after_step_def report_tohost_def stop_on_error_def Let_def
      split: option.splits sum.splits if_splits)

interpretation rounds: bounded_loop round_of_run StepLimit run
proof
  show "run 0 c = (StepLimit, c)" for c by simp
  show "run (Suc n) c = (case round_of_run c of (Some x, d) \<Rightarrow> (x, d) | (None, d) \<Rightarrow> run n d)" for n c
    by (simp add: round_of_run_def split: prod.splits)
  show "round_of_run c \<noteq> (Some StepLimit, d)" for c d
    by (simp add: round_of_run_def after_step_not_limit split: prod.splits)
qed

text \<open>One round that lets the run go on, and one that ends it.\<close>

inductive goes_on :: "cpu \<Rightarrow> cpu \<Rightarrow> bool" where
  "step c = (r, c1) \<Longrightarrow> after_step r c1 = (None, d) \<Longrightarrow> goes_on c d"

inductive halts :: "cpu \<Rightarrow> exit \<Rightarrow> cpu \<Rightarrow> bool" where
  "step c = (r, c1) \<Longrightarrow> after_step r c1 = (Some x, d) \<Longrightarrow> halts c x d"

inductive_simps goes_on_iff: "goes_on c d"
inductive_simps halts_iff: "halts c x d"
inductive_cases goes_onE: "goes_on c d"
inductive_cases haltsE: "halts c x d"

lemma goes_on_round: "goes_on c d \<longleftrightarrow> round_of_run c = (None, d)"
  by (auto simp: goes_on_iff round_of_run_def split: prod.splits)

lemma halts_round: "halts c x d \<longleftrightarrow> round_of_run c = (Some x, d)"
  by (auto simp: halts_iff round_of_run_def split: prod.splits)

lemma goes_on_deterministic: "goes_on c d \<Longrightarrow> goes_on c d' \<Longrightarrow> d = d'"
  by (simp add: goes_on_round)

lemma halted_does_not_go_on: "halts c x d \<Longrightarrow> \<not> goes_on c d'"
  by (simp add: goes_on_round halts_round)

text \<open>An invariant of the rounds holds of whatever a run can reach.\<close>

lemma reachable_invariant:
  assumes "goes_on\<^sup>*\<^sup>* c d" and "P c" and "\<And>c d. P c \<Longrightarrow> goes_on c d \<Longrightarrow> P d"
  shows "P d"
  using assms by (induction rule: rtranclp_induct) auto

text \<open>
  The run loop finds every exit and invents none: the guest can reach a round that ends with a
  given exit and state exactly when some number of steps is enough for the run loop to return
  them, and then every larger limit returns the same.
\<close>

lemma run_finds_every_exit:
  "(\<exists>d. goes_on\<^sup>*\<^sup>* c d \<and> halts d x c')
     \<longleftrightarrow> x \<noteq> StepLimit \<and> (\<exists>n. \<forall>m. run (n + m) c = (x, c'))"
proof -
  have "goes_on = (\<lambda>c d. round_of_run c = (None, d))"
    by (intro ext) (rule goes_on_round)
  then show ?thesis using rounds.stops_iff [of c x c'] by (simp add: halts_round)
qed

section \<open>The protocol of the test harness\<close>

text \<open>What the host sees of a program that posts a value at \<open>tohost\<close>.\<close>

lemma posted_value_ends_run:
  assumes "step c = (r, d)" and "\<not> shutdown d" and "tohost_value (mem d) = Some v" and "v AND 1 = 1"
  shows "halts c (if drop_bit 1 v = 0 then Pass else Fail (drop_bit 1 v)) d"
  using assms by (simp add: halts_iff after_step_def report_tohost_def)

lemma shutdown_ends_run: "step c = (r, d) \<Longrightarrow> shutdown d \<Longrightarrow> halts c Shutdown d"
  by (auto simp: halts_iff after_step_def)

end
