(* ===== verification/Tohost.thy ===== *)
theory Tohost
  imports Cycle Stepping
begin

text \<open>
  The end of a test, from the instruction that posts a verdict to the exit of the run loop: the fetch,
  the store, the word that \<^verbatim>\<open>emu/src/memory.rs\<close> records for the host and the check in \<^verbatim>\<open>Cpu::run\<close>.
\<close>

section \<open>The word the host sees\<close>

lemma posted_word:
  assumes "in_dram m a n" and "addressable m" and "tohost m = Some a" and "v \<noteq> 0"
  shows "mem_write a n v m = (Inr (), m\<lparr>dram := splice (place a) (to_le n v) (dram m), tohost_value := Some v\<rparr>)"
  using assms mem_index_in_dram [OF assms(1,2)] by (auto simp: mem_write_def in_dram_def Let_def)

lemma posting_write:
  assumes "plain c" and "in_dram (mem c) a n" and "unat (a AND 0xfff) + n \<le> 0x1000"
    and "tohost (mem c) = Some a" and "v \<noteq> 0"
  obtains t where "write_mem a n v c = (Inr (), c\<lparr>tlb := t, mem := (mem c)\<lparr>
      dram := splice (place a) (to_le n v) (dram (mem c)), tohost_value := Some v\<rparr>\<rparr>)"
proof -
  obtain t where "translate a Store c = (Inr a, c\<lparr>tlb := t\<rparr>)"
    using plain_translate [OF assms(1)] by blast
  then have "write_mem a n v c = (Inr (), c\<lparr>tlb := t, mem := (mem c)\<lparr>
      dram := splice (place a) (to_le n v) (dram (mem c)), tohost_value := Some v\<rparr>\<rparr>)"
    using assms posted_word [OF assms(2) _ assms(4,5)]
    by (simp add: write_mem_def bindE_def map_err_def on_mem_def plain_def)
  then show ?thesis by (rule that)
qed

lemma exec_store_format:
  "store_format (xbits c) (funct3 i) = Some n \<Longrightarrow> exec_store i c = write_mem (store_address c i) n (rr c (rs2 i)) c"
  by (auto simp: exec_store_def store_address_def [symmetric] store_format_def Let_def split: if_splits)

section \<open>The round that posts it\<close>

lemma begin_cycle_tohost [simp]:
  "tohost (mem (begin_cycle c)) = tohost (mem c)" "shutdown (begin_cycle c) = shutdown c" "xbits (begin_cycle c) = xbits c"
  by (simp_all add: begin_cycle_def tick_timer_def tick_timer_bits_def sweep_devices_def advance_mtime_def
      set_mip_def xbits_def Let_def)

text \<open>The instruction at the program counter is a store of a nonzero value to \<open>tohost\<close>, and no interrupt is in its way.\<close>

definition about_to_post :: "cpu \<Rightarrow> u64 \<Rightarrow> u64 \<Rightarrow> nat \<Rightarrow> u64 \<Rightarrow> bool" where
  "about_to_post c len a n v \<longleftrightarrow>
     plain c \<and> pending_interrupt (begin_cycle c) = None \<and> \<not> shutdown c
     \<and> pc c AND 1 = 0 \<and> in_dram (mem c) (pc c) 4
     \<and> (\<exists>st. instruction_at (xlen c) (mem c) (pc c) = Some (st, len) \<and> opcode st = 0x23
          \<and> store_format (xbits c) (funct3 st) = Some n \<and> store_address c st = a \<and> rr c (rs2 st) = v)
     \<and> in_dram (mem c) a n \<and> unat (a AND 0xfff) + n \<le> 0x1000 \<and> tohost (mem c) = Some a \<and> v \<noteq> 0"

lemma posting_step:
  assumes "about_to_post c len a n v"
  obtains d where "step c = (Inr (), d)" and "\<not> shutdown d" and "tohost_value (mem d) = Some v"
    and "regs d = regs c" and "pc d = pc c + len" and "dram (mem d) = splice (place a) (to_le n v) (dram (mem c))"
proof -
  let ?c = "(begin_cycle c)\<lparr>wrote_instret := False\<rparr>"
  obtain st where st: "instruction_at (xlen c) (mem c) (pc c) = Some (st, len)" "opcode st = 0x23"
      "store_format (xbits c) (funct3 st) = Some n" "store_address c st = a" "rr c (rs2 st) = v"
    using assms by (auto simp: about_to_post_def)
  have c: "plain c" "pending_interrupt (begin_cycle c) = None" "\<not> shutdown c" "pc c AND 1 = 0" "in_dram (mem c) (pc c) 4"
    "in_dram (mem c) a n" "unat (a AND 0xfff) + n \<le> 0x1000" "tohost (mem c) = Some a" "v \<noteq> 0"
    using assms by (simp_all add: about_to_post_def)
  have p: "plain ?c" by (rule plain_cong [OF plain_begin_cycle [OF c(1)]]) simp_all
  have same: "half_at (mem ?c) = half_at (mem c)" "instruction_at x (mem ?c) = instruction_at x (mem c)" for x
    using instruction_at_cong [of "mem ?c" "mem c"] by simp_all
  have "in_dram (mem ?c) (pc ?c) 4" "pc ?c AND 1 = 0" using c(4,5) by (simp_all add: in_dram_def)
  then obtain t where f: "fetch ?c = (Inr (st, len), ?c\<lparr>tlb := t\<rparr>)" and t: "plain (?c\<lparr>tlb := t\<rparr>)"
    using plain_fetch [OF p] st(1) same by (auto simp: decoded_def)
  let ?e = "?c\<lparr>tlb := t, pc := pc c + len\<rparr>"
  have "plain ?e" by (rule plain_cong [OF t]) simp_all
  moreover have "in_dram (mem ?e) a n" using c(6) by (simp add: in_dram_def)
  ultimately obtain u where w: "write_mem a n v ?e = (Inr (), ?e\<lparr>tlb := u, mem := (mem ?e)\<lparr>
      dram := splice (place a) (to_le n v) (dram (mem ?e)), tohost_value := Some v\<rparr>\<rparr>)"
    using posting_write [of ?e a n v] c(7-9) by auto
  have "rr ?e = rr c" "xbits ?e = xbits c"
    by (simp_all add: fun_eq_iff rr_def xbits_def)
  then have "store_address ?e st = a" "rr ?e (rs2 st) = v" "xbits ?e = xbits c"
    using st(4,5) by (simp_all add: store_address_def)
  then have "exec_store st ?e = write_mem a n v ?e"
    using st(3) exec_store_format [of ?e st n] by simp
  then have run: "step c = (Inr (), retire (?e\<lparr>tlb := u, mem := (mem ?e)\<lparr>
      dram := splice (place a) (to_le n v) (dram (mem ?e)), tohost_value := Some v\<rparr>\<rparr>))"
    using c(2) f w st(2) by (simp add: step_def fetch_execute_def bindE_def execute_store finish_step_def Let_def)
  show ?thesis by (rule that [OF run]) (simp_all add: retire_def c(3))
qed


section \<open>The end of the run\<close>

lemma posting_round:
  assumes "about_to_post c len a n v"
  obtains d where "if odd v then halts c (if v = 1 then Pass else Fail (v div 2)) d else goes_on c d \<and> tohost_value (mem d) = None"
    and "regs d = regs c" and "pc d = pc c + len" and "dram (mem d) = splice (place a) (to_le n v) (dram (mem c))"
proof -
  obtain d where d: "step c = (Inr (), d)" "\<not> shutdown d" "tohost_value (mem d) = Some v"
    "regs d = regs c" "pc d = pc c + len" "dram (mem d) = splice (place a) (to_le n v) (dram (mem c))"
    using posting_step [OF assms] by blast
  show ?thesis
  proof (cases "odd v")
    case True
    then have "v AND 1 = 1" "drop_bit 1 v = v div 2"
      by (simp_all add: and_one_eq odd_iff_mod_2_eq_one drop_bit_eq_div)
    moreover have "take_bit 1 v = 1" using True by (simp add: take_bit_Suc odd_iff_mod_2_eq_one)
    then have "drop_bit 1 v = 0 \<longleftrightarrow> v = 1" using bits_ident [of 1 v] by auto
    ultimately show ?thesis
      using that [of d] d True by (simp add: halts_iff after_step_def report_tohost_def)
  next
    case False
    then have "report_tohost v = None" by (simp add: report_tohost_def and_one_eq even_iff_mod_2_eq_zero)
    then show ?thesis
      using False that [of "upd_mem (\<lambda>m. m\<lparr>tohost_value := None\<rparr>) d"] d
      by (simp add: goes_on_iff after_step_def stop_on_error_def Let_def)
  qed
qed

text \<open>
  C20. A program ends by posting a verdict. From any start from which the rounds of the hart come to a
  store of an odd value to \<open>tohost\<close>, with no interrupt in its way, the run loop returns with every large
  enough limit of steps, and with the same exit and state each time: the test passed when the value is
  one, and failed with half of it otherwise. The state is the one behind the store.
\<close>

theorem posted_verdict_ends_run:
  assumes "goes_on\<^sup>*\<^sup>* s c" and "about_to_post c len a n v" and "odd v"
  shows "\<exists>k d. (\<forall>m. run (k + m) s = (if v = 1 then Pass else Fail (v div 2), d))
           \<and> regs d = regs c \<and> pc d = pc c + len \<and> dram (mem d) = splice (place a) (to_le n v) (dram (mem c))"
proof -
  obtain d where "halts c (if v = 1 then Pass else Fail (v div 2)) d" "regs d = regs c" "pc d = pc c + len"
    "dram (mem d) = splice (place a) (to_le n v) (dram (mem c))"
    using posting_round [OF assms(2)] assms(3) by auto
  moreover from this obtain k where "\<forall>m. run (k + m) s = (if v = 1 then Pass else Fail (v div 2), d)"
    using run_finds_every_exit [of s "if v = 1 then Pass else Fail (v div 2)" d] assms(1) by blast
  ultimately show ?thesis by blast
qed

text \<open>A hart at reset whose first word is \<^verbatim>\<open>sw a0, 0(t0)\<close>, with three in \<open>a0\<close> and the address of \<open>tohost\<close> in \<open>t0\<close>.\<close>

definition verdict_hart :: cpu where
  "verdict_hart = (rv64 64)\<lparr>regs := (\<lambda>_. 0)(5 := 0x80000020, 10 := 3),
     mem := (mem_new 64)\<lparr>dram := [0x23, 0xa0, 0xa2, 0x00] @ replicate 60 0, tohost := Some 0x80000020\<rparr>\<rparr>"

lemma verdict_hart_fields:
  "pc verdict_hart = 0x80000000" "xlen verdict_hart = Rv64" "xbits verdict_hart = 64" "\<not> shutdown verdict_hart"
  "rr verdict_hart 5 = 0x80000020" "rr verdict_hart 10 = 3" "tohost (mem verdict_hart) = Some 0x80000020"
  "dram (mem verdict_hart) = [0x23, 0xa0, 0xa2, 0x00] @ replicate 60 0"
  by (simp_all add: verdict_hart_def rv64_def cpu_new_def xbits_def rr_def)

lemma verdict_hart_ready: "about_to_post verdict_hart 4 0x80000020 4 3"
proof -
  have "plain (rv64 64)" unfolding rv64_def by (rule reset_is_plain) simp
  then have "plain verdict_hart"
    by (rule plain_cong) (simp_all add: verdict_hart_def rv64_def cpu_new_def mem_new_def)
  moreover have "csr_read (csrs verdict_hart) MIE = 0"
    by (simp add: verdict_hart_def rv64_def cpu_new_def csr_new_def csr_read_def csr_read_value_def Let_def)
  then have "pending_interrupt (begin_cycle verdict_hart) = None"
    by (simp add: pending_interrupt_def begin_cycle_csrs)
  moreover have "instruction_at Rv64 (mem verdict_hart) 0x80000000 = Some (0x00a2a023, 4)"
    by (simp add: instruction_at_def half_at_def word_at_def verdict_hart_fields slice_of_def)
  moreover have "opcode 0x00a2a023 = 0x23" "funct3 0x00a2a023 = 2" "rs1 0x00a2a023 = 5" "rs2 0x00a2a023 = 10" "imm_s 0x00a2a023 = 0"
    by code_simp+
  ultimately show ?thesis
    by (simp add: about_to_post_def verdict_hart_fields in_dram_def store_format_def store_address_def trunc_def)
qed

theorem posted_verdict_ends_run_witness:
  "\<exists>k d. \<forall>m. run (k + m) verdict_hart = (Fail 1, d)"
  using posted_verdict_ends_run [OF rtranclp.rtrancl_refl verdict_hart_ready] by simp blast

end
