(* ===== verification/Expansion.thy ===== *)
theory Expansion
  imports Compress
begin

text \<open>
  What the compressed instructions abbreviate: the opcode table and the immediate formats of the C
  extension, written as masks and lists of bits, against which the nested matches and the shifted
  fields of \<^verbatim>\<open>emu/src/compress.rs\<close> are checked.
\<close>

section \<open>Instructions by their fields\<close>

text \<open>
  A 32-bit instruction as the rest of the program takes it apart: major opcode, function codes,
  register numbers and the sign-extended immediate of its format.
\<close>

datatype base =
    Imm u32 u32 nat nat u32
  | Reg u32 u32 u32 nat nat nat
  | Store u32 u32 nat nat u32
  | Branch u32 nat nat u32
  | Upper nat u32
  | Jump nat u32
  | Other u32

definition base_of :: "u32 \<Rightarrow> base" where
  "base_of w =
     (if opcode w \<in> {0x03, 0x07, 0x13, 0x1b, 0x67} then Imm (opcode w) (funct3 w) (rd w) (rs1 w) (imm_i w)
      else if opcode w \<in> {0x33, 0x3b} then Reg (opcode w) (funct3 w) (funct7 w) (rd w) (rs1 w) (rs2 w)
      else if opcode w \<in> {0x23, 0x27} then Store (opcode w) (funct3 w) (rs1 w) (rs2 w) (imm_s w)
      else if opcode w = 0x63 then Branch (funct3 w) (rs1 w) (rs2 w) (imm_b w)
      else if opcode w = 0x37 then Upper (rd w) (imm_u w)
      else if opcode w = 0x6f then Jump (rd w) (imm_j w)
      else Other w)"

section \<open>The table\<close>

text \<open>
  An immediate is given by the bits of the halfword and what each is worth; a negative weight is that of
  the sign. A register number stands in five bits or, for the eight popular registers, in three.
\<close>

definition weigh :: "u32 \<Rightarrow> (nat \<times> u32) list \<Rightarrow> u32" where
  "weigh i ws = foldr (\<lambda>(n, w) v. (if bit i n then w else 0) OR v) ws 0"

definition full_reg :: "u32 \<Rightarrow> nat \<Rightarrow> nat" where
  "full_reg i lo = unat (take_bit 5 (drop_bit lo i))"

definition short_reg :: "u32 \<Rightarrow> nat \<Rightarrow> nat" where
  "short_reg i lo = 8 + unat (take_bit 3 (drop_bit lo i))"

abbreviation uimm_4spn :: "(nat \<times> u32) list" where
  "uimm_4spn \<equiv> [(12, 32), (11, 16), (10, 512), (9, 256), (8, 128), (7, 64), (6, 4), (5, 8)]"
abbreviation uimm_w :: "(nat \<times> u32) list" where
  "uimm_w \<equiv> [(12, 32), (11, 16), (10, 8), (6, 4), (5, 64)]"
abbreviation uimm_d :: "(nat \<times> u32) list" where
  "uimm_d \<equiv> [(12, 32), (11, 16), (10, 8), (6, 128), (5, 64)]"
abbreviation simm_6 :: "(nat \<times> u32) list" where
  "simm_6 \<equiv> [(12, - 32), (6, 16), (5, 8), (4, 4), (3, 2), (2, 1)]"
abbreviation shamt_6 :: "(nat \<times> u32) list" where
  "shamt_6 \<equiv> [(12, 32), (6, 16), (5, 8), (4, 4), (3, 2), (2, 1)]"
abbreviation simm_16sp :: "(nat \<times> u32) list" where
  "simm_16sp \<equiv> [(12, - 512), (6, 16), (5, 64), (4, 256), (3, 128), (2, 32)]"
abbreviation simm_lui :: "(nat \<times> u32) list" where
  "simm_lui \<equiv> [(12, - 0x20000), (6, 0x10000), (5, 0x8000), (4, 0x4000), (3, 0x2000), (2, 0x1000)]"
abbreviation simm_j :: "(nat \<times> u32) list" where
  "simm_j \<equiv> [(12, - 2048), (11, 16), (10, 512), (9, 256), (8, 1024), (7, 64), (6, 128), (5, 8), (4, 4), (3, 2), (2, 32)]"
abbreviation simm_b :: "(nat \<times> u32) list" where
  "simm_b \<equiv> [(12, - 256), (11, 16), (10, 8), (6, 128), (5, 64), (4, 4), (3, 2), (2, 32)]"
abbreviation uimm_lwsp :: "(nat \<times> u32) list" where
  "uimm_lwsp \<equiv> [(12, 32), (6, 16), (5, 8), (4, 4), (3, 128), (2, 64)]"
abbreviation uimm_ldsp :: "(nat \<times> u32) list" where
  "uimm_ldsp \<equiv> [(12, 32), (6, 16), (5, 8), (4, 256), (3, 128), (2, 64)]"
abbreviation uimm_swsp :: "(nat \<times> u32) list" where
  "uimm_swsp \<equiv> [(12, 32), (11, 16), (10, 8), (9, 4), (8, 128), (7, 64)]"
abbreviation uimm_sdsp :: "(nat \<times> u32) list" where
  "uimm_sdsp \<equiv> [(12, 32), (11, 16), (10, 8), (9, 256), (8, 128), (7, 64)]"

lemma bit_weigh:
  "bit (weigh i []) k \<longleftrightarrow> False"
  "bit (weigh i ((n, w) # ws)) k \<longleftrightarrow> bit i n \<and> bit w k \<or> bit (weigh i ws) k"
  by (simp_all add: weigh_def bit_or_iff)

text \<open>
  The rows of the opcode table, quadrant by quadrant: a mask, the value under it, and the instruction that
  stands for the row. Rows that the extension reserves, or leaves to hints of register zero that this
  program rejects, are missing.
\<close>

definition abbreviates :: "xlen \<Rightarrow> u32 \<Rightarrow> base option" where
  "abbreviates x i =
    (let major = i AND 0xe003; r = full_reg i 7; s = full_reg i 2; r' = short_reg i 7; s' = short_reg i 2;
         Iff = (\<lambda>c b. if c then Some b else None)
     in if major = 0x0000 then Iff (i AND 0x1fe0 \<noteq> 0) (Imm 0x13 0 s' 2 (weigh i uimm_4spn))
        else if major = 0x2000 then Some (Imm 0x07 3 s' r' (weigh i uimm_d))
        else if major = 0x4000 then Some (Imm 0x03 2 s' r' (weigh i uimm_w))
        else if major = 0x6000 then
          Some (case x of Rv32 \<Rightarrow> Imm 0x07 2 s' r' (weigh i uimm_w) | Rv64 \<Rightarrow> Imm 0x03 3 s' r' (weigh i uimm_d))
        else if major = 0xa000 then Some (Store 0x27 3 r' s' (weigh i uimm_d))
        else if major = 0xc000 then Some (Store 0x23 2 r' s' (weigh i uimm_w))
        else if major = 0xe000 then
          Some (case x of Rv32 \<Rightarrow> Store 0x27 2 r' s' (weigh i uimm_w) | Rv64 \<Rightarrow> Store 0x23 3 r' s' (weigh i uimm_d))
        else if major = 0x0001 then Some (Imm 0x13 0 r r (weigh i simm_6))
        else if major = 0x2001 then
          (case x of Rv32 \<Rightarrow> Some (Jump 1 (weigh i simm_j)) | Rv64 \<Rightarrow> Iff (r \<noteq> 0) (Imm 0x1b 0 r r (weigh i simm_6)))
        else if major = 0x4001 then Some (Imm 0x13 0 r 0 (weigh i simm_6))
        else if major = 0x6001 then
          Iff (i AND 0x107c \<noteq> 0 \<and> r \<noteq> 0)
            (if r = 2 then Imm 0x13 0 2 2 (weigh i simm_16sp) else Upper r (weigh i simm_lui))
        else if i AND 0xec03 = 0x8001 then Iff (x = Rv64 \<or> \<not> bit i 12) (Imm 0x13 5 r' r' (weigh i shamt_6))
        else if i AND 0xec03 = 0x8401 then Iff (x = Rv64 \<or> \<not> bit i 12) (Imm 0x13 5 r' r' (0x400 OR weigh i shamt_6))
        else if i AND 0xec03 = 0x8801 then Some (Imm 0x13 7 r' r' (weigh i simm_6))
        else if i AND 0xfc63 = 0x8c01 then Some (Reg 0x33 0 0x20 r' r' s')
        else if i AND 0xfc63 = 0x8c21 then Some (Reg 0x33 4 0 r' r' s')
        else if i AND 0xfc63 = 0x8c41 then Some (Reg 0x33 6 0 r' r' s')
        else if i AND 0xfc63 = 0x8c61 then Some (Reg 0x33 7 0 r' r' s')
        else if i AND 0xfc63 = 0x9c01 then Iff (x = Rv64) (Reg 0x3b 0 0x20 r' r' s')
        else if i AND 0xfc63 = 0x9c21 then Iff (x = Rv64) (Reg 0x3b 0 0 r' r' s')
        else if major = 0xa001 then Some (Jump 0 (weigh i simm_j))
        else if major = 0xc001 then Some (Branch 0 r' 0 (weigh i simm_b))
        else if major = 0xe001 then Some (Branch 1 r' 0 (weigh i simm_b))
        else if major = 0x0002 then Iff (x = Rv64 \<or> \<not> bit i 12) (Imm 0x13 1 r r (weigh i shamt_6))
        else if major = 0x2002 then Some (Imm 0x07 3 r 2 (weigh i uimm_ldsp))
        else if major = 0x4002 then Iff (r \<noteq> 0) (Imm 0x03 2 r 2 (weigh i uimm_lwsp))
        else if major = 0x6002 then
          (case x of Rv32 \<Rightarrow> Some (Imm 0x07 2 r 2 (weigh i uimm_lwsp)) | Rv64 \<Rightarrow> Iff (r \<noteq> 0) (Imm 0x03 3 r 2 (weigh i uimm_ldsp)))
        else if i AND 0xf003 = 0x8002 then Iff (r \<noteq> 0) (if s = 0 then Imm 0x67 0 0 r 0 else Reg 0x33 0 0 r 0 s)
        else if i AND 0xf003 = 0x9002 then
          Some (if s \<noteq> 0 then Reg 0x33 0 0 r r s else if r \<noteq> 0 then Imm 0x67 0 1 r 0 else Other 0x00100073)
        else if major = 0xa002 then Some (Store 0x27 3 2 s (weigh i uimm_sdsp))
        else if major = 0xc002 then Some (Store 0x23 2 2 s (weigh i uimm_swsp))
        else if major = 0xe002 then
          Some (case x of Rv32 \<Rightarrow> Store 0x27 2 2 s (weigh i uimm_swsp) | Rv64 \<Rightarrow> Store 0x23 3 2 s (weigh i uimm_sdsp))
        else None)"

section \<open>Fields of the code and of the table\<close>

text \<open>The immediates of the code, which it shifts into place, are those of the table.\<close>

lemma immediates:
  "csext (push_bit 6 (cbits i 10 7) OR push_bit 4 (cbits i 12 11) OR push_bit 3 (cbits i 5 5) OR push_bit 2 (cbits i 6 6)) 12
     = weigh i uimm_4spn"
  "csext (push_bit 6 (cbits i 5 5) OR push_bit 3 (cbits i 12 10) OR push_bit 2 (cbits i 6 6)) 12 = weigh i uimm_w"
  "csext (push_bit 6 (cbits i 6 5) OR push_bit 3 (cbits i 12 10)) 12 = weigh i uimm_d"
  "csext (push_bit 5 (cbits i 12 12) OR cbits i 6 2) 12 = weigh i shamt_6"
  "csext (0x400 OR (push_bit 5 (cbits i 12 12) OR cbits i 6 2)) 12 = 0x400 OR weigh i shamt_6"
  "csext (csext (push_bit 5 (cbits i 12 12) OR cbits i 6 2) 6) 12 = weigh i simm_6"
  unfolding cbits_take_bit csext_def Let_def word32_eq_bits
  by (simp_all only: ball_simps bit_simps bit_weigh) (simp_all add: eval_bits del: bit_0)

lemma more_immediates:
  "csext (csext (push_bit 9 (cbits i 12 12) OR push_bit 7 (cbits i 4 3) OR push_bit 6 (cbits i 5 5)
     OR push_bit 5 (cbits i 2 2) OR push_bit 4 (cbits i 6 6)) 10) 12 = weigh i simm_16sp"
  "push_bit 12 (csext (push_bit 5 (cbits i 12 12) OR cbits i 6 2) 6) AND 0xfffff000 = weigh i simm_lui"
  "csext (push_bit 6 (cbits i 3 2) OR push_bit 5 (cbits i 12 12) OR push_bit 2 (cbits i 6 4)) 12 = weigh i uimm_lwsp"
  "csext (push_bit 6 (cbits i 4 2) OR push_bit 5 (cbits i 12 12) OR push_bit 3 (cbits i 6 5)) 12 = weigh i uimm_ldsp"
  "csext (push_bit 6 (cbits i 8 7) OR push_bit 2 (cbits i 12 9)) 12 = weigh i uimm_swsp"
  "csext (push_bit 6 (cbits i 9 7) OR push_bit 3 (cbits i 12 10)) 12 = weigh i uimm_sdsp"
  unfolding cbits_take_bit csext_def Let_def word32_eq_bits
  by (simp_all only: ball_simps bit_simps bit_weigh) (simp_all add: eval_bits del: bit_0)

lemma offsets:
  "csext (cj_offset i AND NOT 1) 21 = weigh i simm_j"
  "csext (cb_offset i AND NOT 1) 13 = weigh i simm_b"
  unfolding cj_offset_def cb_offset_def cbits_take_bit csext_def Let_def word32_eq_bits
  by (simp_all only: ball_simps bit_simps bit_weigh) (simp_all add: eval_bits del: bit_0)

lemma guards:
  "push_bit 6 (cbits i 10 7) OR push_bit 4 (cbits i 12 11) OR push_bit 3 (cbits i 5 5) OR push_bit 2 (cbits i 6 6) = 0
     \<longleftrightarrow> i AND 0x1fe0 = 0"
  "push_bit 9 (cbits i 12 12) OR push_bit 7 (cbits i 4 3) OR push_bit 6 (cbits i 5 5)
     OR push_bit 5 (cbits i 2 2) OR push_bit 4 (cbits i 6 6) = 0 \<longleftrightarrow> i AND 0x107c = 0"
  "push_bit 5 (cbits i 12 12) OR cbits i 6 2 = 0 \<longleftrightarrow> i AND 0x107c = 0"
  unfolding cbits_take_bit word32_eq_bits
  by (simp_all only: ball_simps bit_simps) (auto simp add: eval_bits simp del: bit_0)

text \<open>Each row tests the fields that the code matches on.\<close>

lemma major_rows:
  "i AND 0xe003 = 0x0000 \<longleftrightarrow> cbits i 15 13 = 0 \<and> cbits i 1 0 = 0"
  "i AND 0xe003 = 0x2000 \<longleftrightarrow> cbits i 15 13 = 1 \<and> cbits i 1 0 = 0"
  "i AND 0xe003 = 0x4000 \<longleftrightarrow> cbits i 15 13 = 2 \<and> cbits i 1 0 = 0"
  "i AND 0xe003 = 0x6000 \<longleftrightarrow> cbits i 15 13 = 3 \<and> cbits i 1 0 = 0"
  "i AND 0xe003 = 0xa000 \<longleftrightarrow> cbits i 15 13 = 5 \<and> cbits i 1 0 = 0"
  "i AND 0xe003 = 0xc000 \<longleftrightarrow> cbits i 15 13 = 6 \<and> cbits i 1 0 = 0"
  "i AND 0xe003 = 0xe000 \<longleftrightarrow> cbits i 15 13 = 7 \<and> cbits i 1 0 = 0"
  "i AND 0xe003 = 0x0001 \<longleftrightarrow> cbits i 15 13 = 0 \<and> cbits i 1 0 = 1"
  "i AND 0xe003 = 0x2001 \<longleftrightarrow> cbits i 15 13 = 1 \<and> cbits i 1 0 = 1"
  "i AND 0xe003 = 0x4001 \<longleftrightarrow> cbits i 15 13 = 2 \<and> cbits i 1 0 = 1"
  "i AND 0xe003 = 0x6001 \<longleftrightarrow> cbits i 15 13 = 3 \<and> cbits i 1 0 = 1"
  "i AND 0xe003 = 0xa001 \<longleftrightarrow> cbits i 15 13 = 5 \<and> cbits i 1 0 = 1"
  "i AND 0xe003 = 0xc001 \<longleftrightarrow> cbits i 15 13 = 6 \<and> cbits i 1 0 = 1"
  "i AND 0xe003 = 0xe001 \<longleftrightarrow> cbits i 15 13 = 7 \<and> cbits i 1 0 = 1"
  "i AND 0xe003 = 0x0002 \<longleftrightarrow> cbits i 15 13 = 0 \<and> cbits i 1 0 = 2"
  "i AND 0xe003 = 0x2002 \<longleftrightarrow> cbits i 15 13 = 1 \<and> cbits i 1 0 = 2"
  "i AND 0xe003 = 0x4002 \<longleftrightarrow> cbits i 15 13 = 2 \<and> cbits i 1 0 = 2"
  "i AND 0xe003 = 0x6002 \<longleftrightarrow> cbits i 15 13 = 3 \<and> cbits i 1 0 = 2"
  "i AND 0xe003 = 0xa002 \<longleftrightarrow> cbits i 15 13 = 5 \<and> cbits i 1 0 = 2"
  "i AND 0xe003 = 0xc002 \<longleftrightarrow> cbits i 15 13 = 6 \<and> cbits i 1 0 = 2"
  "i AND 0xe003 = 0xe002 \<longleftrightarrow> cbits i 15 13 = 7 \<and> cbits i 1 0 = 2"
  unfolding cbits_take_bit word32_eq_bits
  by (simp_all only: ball_simps bit_simps) (auto simp add: eval_bits simp del: bit_0)

lemma minor_rows:
  "i AND 0xec03 = 0x8001 \<longleftrightarrow> cbits i 15 13 = 4 \<and> cbits i 1 0 = 1 \<and> cbits i 11 10 = 0"
  "i AND 0xec03 = 0x8401 \<longleftrightarrow> cbits i 15 13 = 4 \<and> cbits i 1 0 = 1 \<and> cbits i 11 10 = 1"
  "i AND 0xec03 = 0x8801 \<longleftrightarrow> cbits i 15 13 = 4 \<and> cbits i 1 0 = 1 \<and> cbits i 11 10 = 2"
  "i AND 0xfc63 = 0x8c01 \<longleftrightarrow> cbits i 15 13 = 4 \<and> cbits i 1 0 = 1 \<and> cbits i 11 10 = 3 \<and> cbits i 12 12 = 0 \<and> cbits i 6 5 = 0"
  "i AND 0xfc63 = 0x8c21 \<longleftrightarrow> cbits i 15 13 = 4 \<and> cbits i 1 0 = 1 \<and> cbits i 11 10 = 3 \<and> cbits i 12 12 = 0 \<and> cbits i 6 5 = 1"
  "i AND 0xfc63 = 0x8c41 \<longleftrightarrow> cbits i 15 13 = 4 \<and> cbits i 1 0 = 1 \<and> cbits i 11 10 = 3 \<and> cbits i 12 12 = 0 \<and> cbits i 6 5 = 2"
  "i AND 0xfc63 = 0x8c61 \<longleftrightarrow> cbits i 15 13 = 4 \<and> cbits i 1 0 = 1 \<and> cbits i 11 10 = 3 \<and> cbits i 12 12 = 0 \<and> cbits i 6 5 = 3"
  "i AND 0xfc63 = 0x9c01 \<longleftrightarrow> cbits i 15 13 = 4 \<and> cbits i 1 0 = 1 \<and> cbits i 11 10 = 3 \<and> cbits i 12 12 = 1 \<and> cbits i 6 5 = 0"
  "i AND 0xfc63 = 0x9c21 \<longleftrightarrow> cbits i 15 13 = 4 \<and> cbits i 1 0 = 1 \<and> cbits i 11 10 = 3 \<and> cbits i 12 12 = 1 \<and> cbits i 6 5 = 1"
  "i AND 0xf003 = 0x8002 \<longleftrightarrow> cbits i 15 13 = 4 \<and> cbits i 1 0 = 2 \<and> cbits i 12 12 = 0"
  "i AND 0xf003 = 0x9002 \<longleftrightarrow> cbits i 15 13 = 4 \<and> cbits i 1 0 = 2 \<and> cbits i 12 12 = 1"
  unfolding cbits_take_bit word32_eq_bits
  by (simp_all only: ball_simps bit_simps) (auto simp add: eval_bits simp del: bit_0)

lemma field_values:
  "cbits i 15 13 \<in> {0, 1, 2, 3, 4, 5, 6, 7}" "cbits i 1 0 \<in> {0, 1, 2, 3}" "cbits i 11 10 \<in> {0, 1, 2, 3}"
  "cbits i 6 5 \<in> {0, 1, 2, 3}" "cbits i 12 12 \<in> {0, 1}"
proof -
  have small: "v \<in> {0, 1, 2, 3, 4, 5, 6, 7}" if "v < 8" for v :: u32
  proof -
    have "unat v \<in> {0, 1, 2, 3, 4, 5, 6, 7}" using that by (auto simp: word_less_nat_alt)
    then show ?thesis by (simp add: word_unat_eq_iff)
  qed
  have four: "v \<in> {0, 1, 2, 3}" if "v < 4" for v :: u32
  proof -
    have "unat v \<in> {0, 1, 2, 3}" using that by (auto simp: word_less_nat_alt)
    then show ?thesis by (simp add: word_unat_eq_iff)
  qed
  have two: "v \<in> {0, 1}" if "v < 2" for v :: u32
  proof -
    have "unat v \<in> {0, 1}" using that by (auto simp: word_less_nat_alt)
    then show ?thesis by (simp add: word_unat_eq_iff)
  qed
  show "cbits i 15 13 \<in> {0, 1, 2, 3, 4, 5, 6, 7}" by (rule small) (use cbits_less [of 15 13 i] in simp)
  show "cbits i 1 0 \<in> {0, 1, 2, 3}" by (rule four) (use cbits_less [of 1 0 i] in simp)
  show "cbits i 11 10 \<in> {0, 1, 2, 3}" by (rule four) (use cbits_less [of 11 10 i] in simp)
  show "cbits i 6 5 \<in> {0, 1, 2, 3}" by (rule four) (use cbits_less [of 6 5 i] in simp)
  show "cbits i 12 12 \<in> {0, 1}" by (rule two) (use cbits_less [of 12 12 i] in simp)
qed

lemma registers:
  "unat (cbits i 11 7) = full_reg i 7" "unat (cbits i 6 2) = full_reg i 2"
  "unat (rp i 7) = short_reg i 7" "unat (rp i 2) = short_reg i 2"
  "cbits i 11 7 = 0 \<longleftrightarrow> full_reg i 7 = 0" "cbits i 11 7 = 2 \<longleftrightarrow> full_reg i 7 = 2" "cbits i 6 2 = 0 \<longleftrightarrow> full_reg i 2 = 0"
proof -
  show u: "unat (cbits i 11 7) = full_reg i 7" "unat (cbits i 6 2) = full_reg i 2"
    by (simp_all add: cbits_take_bit full_reg_def)
  have "unat (cbits i (lo + 2) lo + 8) = 8 + unat (cbits i (lo + 2) lo)" if "unat (cbits i (lo + 2) lo) < 8" for lo
    using that by (simp add: unat_word_ariths)
  moreover have "unat (cbits i (lo + 2) lo) < 8" for lo
    using cbits_less [of "lo + 2" lo i] by (simp add: word_less_nat_alt)
  ultimately have "unat (rp i lo) = short_reg i lo" for lo
    by (simp add: rp_def short_reg_def cbits_take_bit)
  then show "unat (rp i 7) = short_reg i 7" "unat (rp i 2) = short_reg i 2" by simp_all
  show "cbits i 11 7 = 0 \<longleftrightarrow> full_reg i 7 = 0" "cbits i 11 7 = 2 \<longleftrightarrow> full_reg i 7 = 2" "cbits i 6 2 = 0 \<longleftrightarrow> full_reg i 2 = 0"
    unfolding u [symmetric] by (simp_all add: word_unat_eq_iff)
qed

lemma shift_guard: "32 \<le> push_bit 5 (cbits i 12 12) OR cbits i 6 2 \<longleftrightarrow> bit i 12"
proof -
  let ?v = "push_bit 5 (cbits i 12 12) OR cbits i 6 2"
  have "32 \<le> ?v \<longleftrightarrow> take_bit 5 ?v \<noteq> ?v"
    using take_bit_eq_self_iff_less [of 5 ?v] by (simp add: not_less)
  also have "\<dots> \<longleftrightarrow> bit i 12"
    unfolding cbits_take_bit word32_eq_bits
    by (simp_all only: ball_simps bit_simps) (auto simp add: eval_bits simp del: bit_0)
  finally show ?thesis .
qed

lemma base_formats:
  "op3 \<in> {0x03, 0x07, 0x13, 0x1b, 0x67} \<Longrightarrow> f3 < 8 \<Longrightarrow> d < 32 \<Longrightarrow> s1 < 32 \<Longrightarrow>
     base_of (i_type op3 f3 d s1 imm) = Imm op3 f3 (unat d) (unat s1) (csext imm 12)"
  "op3 \<in> {0x33, 0x3b} \<Longrightarrow> f3 < 8 \<Longrightarrow> f7 < 128 \<Longrightarrow> d < 32 \<Longrightarrow> s1 < 32 \<Longrightarrow> s2 < 32 \<Longrightarrow>
     base_of (r_type op3 f3 f7 d s1 s2) = Reg op3 f3 f7 (unat d) (unat s1) (unat s2)"
  "op3 \<in> {0x23, 0x27} \<Longrightarrow> f3 < 8 \<Longrightarrow> s1 < 32 \<Longrightarrow> s2 < 32 \<Longrightarrow>
     base_of (s_type op3 f3 s1 s2 imm) = Store op3 f3 (unat s1) (unat s2) (csext imm 12)"
  "f3 < 8 \<Longrightarrow> s1 < 32 \<Longrightarrow> s2 < 32 \<Longrightarrow> base_of (b_type f3 s1 s2 imm) = Branch f3 (unat s1) (unat s2) (csext (imm AND NOT 1) 13)"
  "d < 32 \<Longrightarrow> base_of (u_type 0x37 d imm) = Upper (unat d) (imm AND 0xfffff000)"
  "d < 32 \<Longrightarrow> base_of (j_type d imm) = Jump (unat d) (csext (imm AND NOT 1) 21)"
  "base_of 0x00100073 = Other 0x00100073"
proof -
  show "op3 \<in> {0x03, 0x07, 0x13, 0x1b, 0x67} \<Longrightarrow> f3 < 8 \<Longrightarrow> d < 32 \<Longrightarrow> s1 < 32 \<Longrightarrow>
     base_of (i_type op3 f3 d s1 imm) = Imm op3 f3 (unat d) (unat s1) (csext imm 12)"
    by (auto simp: base_of_def i_type_decode)
  show "op3 \<in> {0x33, 0x3b} \<Longrightarrow> f3 < 8 \<Longrightarrow> f7 < 128 \<Longrightarrow> d < 32 \<Longrightarrow> s1 < 32 \<Longrightarrow> s2 < 32 \<Longrightarrow>
     base_of (r_type op3 f3 f7 d s1 s2) = Reg op3 f3 f7 (unat d) (unat s1) (unat s2)"
    by (auto simp: base_of_def r_type_decode)
  show "op3 \<in> {0x23, 0x27} \<Longrightarrow> f3 < 8 \<Longrightarrow> s1 < 32 \<Longrightarrow> s2 < 32 \<Longrightarrow>
     base_of (s_type op3 f3 s1 s2 imm) = Store op3 f3 (unat s1) (unat s2) (csext imm 12)"
    by (auto simp: base_of_def s_type_decode)
  have "opcode 0x00100073 = 0x73" by (simp add: opcode_def)
  then show "base_of 0x00100073 = Other 0x00100073" by (simp add: base_of_def)
qed (simp_all add: base_of_def b_type_decode u_type_decode j_type_decode)

section \<open>The quadrants\<close>

lemma csext_zero: "csext 0 12 = 0"
  by (simp add: csext_def Let_def)

lemma quadrant_0:
  assumes q: "cbits i 1 0 = 0"
  shows "map_option base_of (decompress_q0 i (x = Rv64)) = abbreviates x i"
proof -
  note code = decompress_q0_def Let_def abbreviates_def major_rows minor_rows q [simplified] base_formats registers rp_range cbits_5
    immediates guards
  show ?thesis
    using field_values(1) [of i]
    by (elim insertE emptyE; cases x; simp add: code)
qed

lemma quadrant_2:
  assumes q: "cbits i 1 0 = 2"
  shows "map_option base_of (decompress_q2 i (x = Rv64)) = abbreviates x i"
proof -
  note code = decompress_q2_def Let_def abbreviates_def major_rows minor_rows q [simplified] base_formats registers rp_range cbits_5
    more_immediates
  have moves: ?thesis if "cbits i 15 13 = 4"
    using field_values(5) [of i] that by (elim insertE emptyE; simp add: code csext_zero)
  show ?thesis
    using field_values(1) [of i] moves
    by (elim insertE emptyE; (cases x; simp add: code shift_guard immediates)?) 
qed


lemma quadrant_1_alu:
  assumes q: "cbits i 1 0 = 1" and f: "cbits i 15 13 = 4"
  shows "map_option base_of (decompress_q1_alu i (x = Rv64)) = abbreviates x i"
proof -
  note code = decompress_q1_alu_def Let_def abbreviates_def major_rows minor_rows q [simplified] f base_formats registers rp_range
  have shifts: ?thesis if "cbits i 11 10 \<in> {0, 1, 2}"
    using that by (elim insertE emptyE; cases x; simp add: code shift_guard immediates [simplified or.assoc])
  have arith: ?thesis if "cbits i 11 10 = 3"
    using field_values(4,5) [of i] that
    by (elim insertE emptyE; cases x; simp add: code)
  show ?thesis using field_values(3) [of i] shifts arith by blast
qed

lemma quadrant_1:
  assumes q: "cbits i 1 0 = 1"
  shows "map_option base_of (decompress_q1 i (x = Rv64)) = abbreviates x i"
proof -
  note code = decompress_q1_def Let_def abbreviates_def major_rows minor_rows q [simplified] base_formats registers rp_range cbits_5
  have alu: ?thesis if "cbits i 15 13 = 4"
    using quadrant_1_alu [OF q that, of x] that by (simp add: decompress_q1_def Let_def)
  show ?thesis
    using field_values(1) [of i] alu
    by (elim insertE emptyE; (cases x; simp add: code immediates more_immediates offsets [simplified] guards)?)
qed

lemma quadrant_3:
  assumes q: "cbits i 1 0 = 3"
  shows "abbreviates x i = None"
  by (simp add: abbreviates_def Let_def major_rows minor_rows q [simplified])

text \<open>
  C32. A halfword expands exactly as the table of the C extension says, at either register width: to
  the instruction that its row names, with the registers, function codes and immediate of the row, and
  to nothing where the table has no row. So a compressed instruction is executed as the base instruction
  it abbreviates, and nothing after the fetch has to know that it was compressed. The hints of C.LUI and
  C.MV for register zero have no row: the program rejects them, against the extension.
\<close>

theorem decompress_yields_expansion:
  "map_option base_of (decompress i x) = abbreviates x i"
  using field_values(2) [of i] quadrant_0 [of i x] quadrant_1 [of i x] quadrant_2 [of i x] quadrant_3 [of i x]
  by (auto simp: decompress_def Let_def)

end
