(* ===== verification/Csr_Access.thy ===== *)
theory Csr_Access
  imports Exec
begin

text \<open>
  The instructions that read and write control and status registers, arm \<^verbatim>\<open>0x73\<close> of
  \<^verbatim>\<open>Cpu::execute\<close>: who may use them and what they leave behind.
\<close>

definition required_mode :: "u16 \<Rightarrow> priv" where
  "required_mode a = priv_from_bits (ucast (drop_bit 8 a AND 0x3))"

definition read_only_number :: "u16 \<Rightarrow> bool" where
  "read_only_number a \<longleftrightarrow> drop_bit 10 a AND 0x3 = 0x3"

lemma csr_accessible_iff:
  "csr_accessible a p w \<longleftrightarrow> required_mode a \<le> p \<and> \<not> (w \<and> read_only_number a)"
  by (auto simp: csr_accessible_def required_mode_def read_only_number_def Let_def not_less)

section \<open>Who may name a register\<close>

text \<open>
  Counter \<open>n\<close> is the machine's own, open to the supervisor when the machine allows it and to
  user code when both do.
\<close>

definition counter_open :: "cpu \<Rightarrow> nat \<Rightarrow> bool" where
  "counter_open c n \<longleftrightarrow>
     (case priv_mode c of
        Machine \<Rightarrow> True
      | Supervisor \<Rightarrow> bit (csr_read (csrs c) MCOUNTEREN) n
      | User \<Rightarrow> bit (csr_read (csrs c) MCOUNTEREN) n \<and> bit (csr_read (csrs c) SCOUNTEREN) n)"

text \<open>
  The rule for reading register \<open>a\<close>, and for writing it: the register exists, its number asks
  for no more than the current mode and is not one of the read-only ones if it is written,
  a counter is open, the floating-point registers are on, and the page table root is not hidden
  from the supervisor.
\<close>

definition csr_permitted :: "cpu \<Rightarrow> u16 \<Rightarrow> bool \<Rightarrow> bool" where
  "csr_permitted c a writing \<longleftrightarrow>
     csr_exists (csrs c) a \<and> required_mode a \<le> priv_mode c \<and> \<not> (writing \<and> read_only_number a)
     \<and> (a \<in> {0xC00, 0xC80} \<longrightarrow> counter_open c 0) \<and> (a \<in> {0xC01, 0xC81} \<longrightarrow> counter_open c 1)
     \<and> (a \<in> {0xC02, 0xC82} \<longrightarrow> counter_open c 2)
     \<and> (a \<in> {0x001, 0x002, 0x003} \<longrightarrow> csr_read (csrs c) MSTATUS AND 0x6000 \<noteq> 0)
     \<and> (a = 0x180 \<and> priv_mode c = Supervisor \<longrightarrow> \<not> bit (csr_read (csrs c) MSTATUS) 20)"

lemma enable_bit: "drop_bit n v AND 1 = 0 \<longleftrightarrow> \<not> bit (v :: u64) n"
  using and_one_eq [of "drop_bit n v"] by (simp add: bit_iff_odd_drop_bit odd_iff_mod_2_eq_one)

lemma counter_enabled_iff:
  "counter_enabled c a \<longleftrightarrow> (a \<in> {0xC00, 0xC80} \<longrightarrow> counter_open c 0)
     \<and> (a \<in> {0xC01, 0xC81} \<longrightarrow> counter_open c 1) \<and> (a \<in> {0xC02, 0xC82} \<longrightarrow> counter_open c 2)"
  unfolding counter_enabled_def counter_open_def Let_def enable_bit
  by (cases "priv_mode c") auto

lemma tvm_bit: "(v AND 0x100000 \<noteq> 0) \<longleftrightarrow> bit (v :: u64) 20"
  using and_exp_eq_0_iff_not_bit [of v 20] by simp

lemma csr_denied_iff: "csr_denied c a w \<longleftrightarrow> \<not> csr_permitted c a w"
  unfolding csr_denied_def csr_permitted_def csr_accessible_iff counter_enabled_iff is_fp_csr_def fp_enabled_def tvm_bit
  by auto

section \<open>What it leaves behind\<close>

text \<open>
  Forms 1 to 3 take their operand from a register, 5 to 7 from the register field itself; 1 and 5
  write it, 2 and 6 set the bits it has, 3 and 7 clear them. Only the first pair always writes.
\<close>

definition csr_form :: "u32 \<Rightarrow> bool" where
  "csr_form inst \<longleftrightarrow> funct3 inst \<in> {1, 2, 3, 5, 6, 7}"

definition csr_writing :: "u32 \<Rightarrow> bool" where
  "csr_writing inst \<longleftrightarrow> funct3 inst \<in> {1, 5} \<or> rs1 inst \<noteq> 0"

definition csr_result :: "u32 \<Rightarrow> cpu \<Rightarrow> u64" where
  "csr_result inst c =
    (let old = csr_read (csrs c) (csr inst);
         x = (if funct3 inst \<in> {5, 6, 7} then of_nat (rs1 inst) else rr c (rs1 inst))
     in if funct3 inst \<in> {1, 5} then x
        else if funct3 inst \<in> {2, 6} then old OR x
        else old AND NOT x)"

text \<open>The control registers afterwards: a write to \<open>fflags\<close>, \<open>frm\<close> or \<open>fcsr\<close> also marks the context dirty.\<close>

definition csr_written :: "u32 \<Rightarrow> cpu \<Rightarrow> csrfile" where
  "csr_written inst c =
    (let f = csr_write (csr inst) (take_bit (xlen_bits (xlen c)) (csr_result inst c)) (csrs c)
     in if csr inst \<in> {0x001, 0x002, 0x003} then csr_force MSTATUS (csr_read f MSTATUS OR 0x6000) f else f)"

lemma funct3_range: "funct3 inst \<in> {0, 1, 2, 3, 4, 5, 6, 7}"
proof -
  have "funct3 inst \<le> 7" by (simp add: funct3_def word_and_le1)
  then have "unat (funct3 inst) \<in> {0, 1, 2, 3, 4, 5, 6, 7}" by (auto simp: word_le_nat_alt)
  then show ?thesis by (simp add: word_unat_eq_iff)
qed

lemma csr_forms:
  assumes "funct3 inst \<noteq> 0"
  shows "csr_form inst \<longleftrightarrow> funct3 inst AND 0x3 \<noteq> 0"
    and "csr_writing inst \<longleftrightarrow> funct3 inst AND 0x3 = 0x1 \<or> rs1 inst \<noteq> 0"
  using funct3_range [of inst] assms by (auto simp: csr_form_def csr_writing_def)

lemma csr_result_code:
  assumes "csr_form inst" and "old = csr_read (csrs c) (csr inst)"
    and "src = (if funct3 inst AND 0x4 \<noteq> 0 then of_nat (rs1 inst) else rr c (rs1 inst))"
  shows "(if funct3 inst AND 0x3 = 0x1 then src else if funct3 inst AND 0x3 = 0x2 then old OR src else old AND NOT src)
           = csr_result inst c"
  using funct3_range [of inst] assms by (auto simp: csr_result_def csr_form_def Let_def)

lemma exec_csr_form:
  assumes "funct3 inst \<noteq> 0"
  shows "exec_csr inst c =
    (if csr_form inst \<and> csr_permitted c (csr inst) (csr_writing inst)
     then (Inr (), wr (rd inst) (csr_read (csrs c) (csr inst))
                     (if csr_writing inst then csr_commit (csr inst) (csr_result inst c) c else c))
     else illegal inst c)"
proof (cases "csr_form inst")
  case True
  then show ?thesis
    using csr_forms [OF assms] csr_result_code [OF True refl refl, of c]
    unfolding exec_csr_def Let_def csr_denied_iff by simp
next
  case False
  then show ?thesis
    using csr_forms(1) [OF assms] by (simp add: exec_csr_def Let_def)
qed

lemma set_over_cleared: "(x AND NOT m) OR m = (x OR m :: u64)"
  by (rule bit_word_eqI) (auto simp: bit_simps)

lemma fs_set: "(x AND - 24577) OR 0x6000 = (x OR 0x6000 :: u64)"
  using set_over_cleared [of x "0x6000"] by simp

lemma csr_commit_all:
  "csr_commit (csr inst) (csr_result inst c) c =
     c\<lparr>csrs := csr_written inst c, wrote_instret := (wrote_instret c \<or> csr inst \<in> {0xB02, 0xB82, 0xC02})\<rparr>"
  by (auto simp: csr_commit_def csr_written_def is_fp_csr_def dirty_fp_def upd_csrs_def trunc_take_bit xbits_def
      csr_force_def Let_def fs_set)

text \<open>
  C9. A control register instruction names a form and a register it may use, or is illegal and
  leaves the hart as it was. When it is allowed, the destination gets the value the register had
  before; the register is written, set or cleared as the form says with the operand cut to the
  register width; a form that only reads leaves it alone. A write of the instruction counter is
  remembered, and nothing else of the hart changes.
\<close>

theorem csr_instruction_is_guarded:
  assumes "funct3 inst \<noteq> 0"
  shows "exec_system inst c =
    (if csr_form inst \<and> csr_permitted c (csr inst) (csr_writing inst)
     then (Inr (), c\<lparr>
             regs := (if rd inst = 0 then regs c
                      else (regs c)(rd inst := take_bit (xlen_bits (xlen c)) (csr_read (csrs c) (csr inst)))),
             csrs := (if csr_writing inst then csr_written inst c else csrs c),
             wrote_instret := (wrote_instret c \<or> csr_writing inst \<and> csr inst \<in> {0xB02, 0xB82, 0xC02})\<rparr>)
     else (Inl (IllegalInstruction inst), c))"
  using assms
  by (simp add: exec_system_def exec_csr_form csr_commit_all illegal_def raise_def wr_def trunc_take_bit xbits_def)

text \<open>
  In machine mode \<^verbatim>\<open>csrrs a0, mscratch, a1\<close> sets the bits of \<open>a1\<close> and hands back the old value; in user
  mode the same instruction is illegal, and so is reading a counter that the machine has not opened.
\<close>

definition set_mscratch :: u32 where
  "set_mscratch = 0x3405a573"

definition read_cycle :: u32 where
  "read_cycle = 0xc0002573"

definition scratch_hart :: cpu where
  "scratch_hart = (rv64 64)\<lparr>csrs := csr_force MSCRATCH 0x30 (csr_new Rv64), regs := (\<lambda>_. 0)(11 := 0x5)\<rparr>"

lemma scratch_hart_facts:
  "priv_mode scratch_hart = Machine" "xlen scratch_hart = Rv64" "csr_xlen (csrs scratch_hart) = Rv64" "regs scratch_hart 11 = 5"
  "csr_read (csrs scratch_hart) 0x340 = 0x30" "csr_read (csrs scratch_hart) MCOUNTEREN = 0"
  by (simp_all add: scratch_hart_def rv64_def cpu_new_def csr_new_def csr_read_def csr_read_value_def Let_def)

lemma scratch_fields:
  "csr set_mscratch = 0x340" "funct3 set_mscratch = 2" "rs1 set_mscratch = 11" "rd set_mscratch = 10"
  "csr read_cycle = 0xc00" "funct3 read_cycle = 2" "rs1 read_cycle = 0" "rd read_cycle = 10"
  "required_mode 0x340 = Machine" "\<not> read_only_number 0x340"
  by code_simp+

theorem csr_instruction_is_guarded_witness:
  "\<exists>c. exec_system set_mscratch scratch_hart = (Inr (), c)
     \<and> regs c 10 = 0x30 \<and> csr_read (csrs c) 0x340 = 0x35
     \<and> exec_system set_mscratch (scratch_hart\<lparr>priv_mode := User\<rparr>)
         = (Inl (IllegalInstruction set_mscratch), scratch_hart\<lparr>priv_mode := User\<rparr>)
     \<and> exec_system read_cycle (scratch_hart\<lparr>priv_mode := Supervisor\<rparr>)
         = (Inl (IllegalInstruction read_cycle), scratch_hart\<lparr>priv_mode := Supervisor\<rparr>)"
proof -
  let ?user = "scratch_hart\<lparr>priv_mode := User\<rparr>" and ?super = "scratch_hart\<lparr>priv_mode := Supervisor\<rparr>"
  have form: "csr_form set_mscratch" "csr_writing set_mscratch"
    by (simp_all add: csr_form_def csr_writing_def scratch_fields)
  have allowed: "csr_permitted scratch_hart 0x340 True"
    by (simp add: csr_permitted_def csr_exists_def scratch_hart_facts scratch_fields)
  have denied: "\<not> csr_permitted ?user 0x340 True" "\<not> csr_permitted ?super 0xc00 w" for w
    by (simp_all add: csr_permitted_def counter_open_def scratch_fields scratch_hart_facts)
  have nonzero: "funct3 set_mscratch \<noteq> 0" "funct3 read_cycle \<noteq> 0" by (simp_all add: scratch_fields)
  show ?thesis
    using csr_instruction_is_guarded [OF nonzero(1), of scratch_hart] csr_instruction_is_guarded [OF nonzero(1), of ?user]
      csr_instruction_is_guarded [OF nonzero(2), of ?super] form allowed denied
    by (simp add: scratch_fields csr_written_def csr_result_def csr_write_def Let_def rr_def scratch_hart_facts csr_read_plain trunc_take_bit)
qed

end
