(* ===== verification/Contract.thy ===== *)
theory Contract
  imports Exec Access
begin

text \<open>
  The contract of an instruction. A guarantee about the hart that is a preorder on its
  states ("no more privileged than before", "the register file is still canonical") is
  proved once per primitive effect: a register write, a memory access, a CSR commit, a trap
  return. The locale extends that of a memory access and carries the guarantee through every
  instruction of \<open>execute\<close>, whatever the preorder is.
\<close>

section \<open>The contract\<close>

locale hart_contract = access_contract R for R :: "cpu \<Rightarrow> cpu \<Rightarrow> bool" +
  assumes R_pc: "R c (c\<lparr>pc := v\<rparr>)"
    and R_wr: "R c (wr r v c)"
    and R_fw: "R c (fw r v c)"
    and R_flags: "R c (set_fflags fl c)"
    and R_reservation: "R c (c\<lparr>reservation := x\<rparr>)"
    and R_flush: "R c (flush_tlb c)"
    and R_commit: "\<not> csr_denied c addr True \<Longrightarrow> R c (csr_commit addr w c)"
    and R_mret: "priv_mode c = Machine \<Longrightarrow> R c (trap_return True c)"
    and R_sret: "priv_mode c \<noteq> User \<Longrightarrow> R c (trap_return False c)"
begin

text \<open>Every branch of a decision is bound by the contract, whatever the condition.\<close>

lemma R_if: "R c (snd p) \<Longrightarrow> R c (snd q) \<Longrightarrow> R c (snd (if b then p else q))"
  by simp

lemma R_option:
  "R c (snd p) \<Longrightarrow> (\<And>y. R c (snd (f y))) \<Longrightarrow> R c (snd (case x of None \<Rightarrow> p | Some y \<Rightarrow> f y))"
  by (cases x) simp_all

lemma R_prod: "(\<And>x y. R c (snd (f x y))) \<Longrightarrow> R c (snd (case z of (x, y) \<Rightarrow> f x y))"
  by (cases z) simp

lemma R_unchanged: "R c (snd (r, c))"
  by (simp add: refl)

lemma R_fw_result: "R c (snd (r, fw d v c))"
  by (simp add: R_fw)

lemma R_wr_result: "R c (snd (r, wr d v c))"
  by (simp add: R_wr)

lemmas branch_rules = R_if R_option R_prod R_unchanged R_fw_result R_wr_result

text \<open>The floating-point instructions.\<close>

lemma R_write_freg: "R c (snd (r, write_freg f d v c))"
  by (simp add: write_freg_def R_fw)

lemma keeps_fp_result: "keeps R (fp_result f d res)"
  by (rule keeps_pointwise) (auto simp: fp_result_def write_freg_def intro: trans R_fw R_flags)

lemma keeps_int_result: "keeps R (int_result d res)"
  by (rule keeps_pointwise) (auto simp: int_result_def intro: trans R_wr R_flags)

lemma keeps_op_fp_move: "R c (snd (op_fp_move inst f d s1 s2 f3 sel c))"
  by (simp add: op_fp_move_def refl R_wr R_fw)

lemma keeps_op_fp: "R c (snd (execute_op_fp inst d s1 s2 f3 f7 c))"
  unfolding execute_op_fp_def Let_def
  by (intro branch_rules keepsD [OF keeps_fp_result] keepsD [OF keeps_int_result]
        keeps_op_fp_move R_write_freg)

lemma keeps_fma: "R c (snd (exec_fma inst c))"
  unfolding exec_fma_def Let_def
  by (auto simp: refl split: option.split prod.split intro!: keepsD [OF keeps_fp_result])

lemma keeps_fp_mem: "R c (snd (exec_fp_mem inst c))"
  unfolding exec_fp_mem_def Let_def
  by (auto simp: refl intro!: keepsD [OF keeps_bindE] keepsD [OF keeps_write_mem]
        keeps_read_mem keeps_update R_fw)

text \<open>The integer and memory instructions.\<close>

lemma R_wr_reserved: "R c (wr r v (c\<lparr>reservation := x\<rparr>))"
  by (rule trans [OF R_reservation R_wr])

lemma R_wr_pc: "R c ((wr r v c)\<lparr>pc := p\<rparr>)"
  by (rule trans [OF R_wr R_pc])

lemma keeps_branch: "R c (snd (exec_branch inst inst_pc c))"
  by (auto simp: exec_branch_def illegal_def refl R_pc split: option.split)

lemma keeps_load: "R c (snd (exec_load inst c))"
  unfolding exec_load_def Let_def
  by (auto simp: refl illegal_def intro!: keepsD [OF keeps_bindE] keeps_read_mem keeps_update R_wr)

lemma keeps_store: "R c (snd (exec_store inst c))"
  unfolding exec_store_def Let_def
  by (auto simp: refl illegal_def intro!: keepsD [OF keeps_write_mem])

lemma keeps_op_imm: "R c (snd (exec_op_imm inst c))"
  unfolding exec_op_imm_def Let_def
  by (auto simp: refl illegal_def R_wr split: option.split)

lemma keeps_op: "R c (snd (exec_op inst c))"
  unfolding exec_op_def Let_def
  by (simp add: refl illegal_def R_wr split: option.split)

lemma keeps_amo: "R c (snd (exec_amo inst c))"
  unfolding exec_amo_def Let_def
  by (auto simp: refl illegal_def split: option.split
        intro!: keepsD [OF keeps_bindE] keeps_bindE keeps_read_mem keeps_write_mem keeps_Pair keeps_raise
          keeps_update R_wr_reserved R_wr)

lemma keeps_csr: "R c (snd (exec_csr inst c))"
  unfolding exec_csr_def Let_def
  by (auto simp: refl illegal_def intro: R_wr trans [OF R_commit R_wr])

lemma keeps_priv: "R c (snd (exec_priv inst c))"
  unfolding exec_priv_def Let_def
  by (auto simp: refl illegal_def R_flush R_mret R_sret)

lemma keeps_system: "R c (snd (exec_system inst c))"
  by (simp add: exec_system_def keeps_csr keeps_priv)

text \<open>Hence every instruction, however it ends.\<close>

lemma keeps_opcode: "R c (snd (exec_opcode inst inst_pc next_pc c))"
  unfolding exec_opcode_def Let_def exec_jal_def exec_jalr_def
  by (simp add: refl illegal_def R_wr R_wr_pc keeps_branch keeps_load keeps_store keeps_op_imm
      keeps_op keeps_amo keeps_fp_mem keeps_fma keeps_op_fp keeps_system)

lemma keeps_execute: "keeps R (execute inst inst_pc next_pc)"
  by (rule keeps_pointwise) (auto simp: execute_def intro: trans [OF R_pc keeps_opcode])

end

end
