(* ===== verification/Precise.thy ===== *)
theory Precise
  imports Contract Hart
begin

text \<open>
  Exceptions are precise. No instruction that faults has done anything but use memory and the
  translation cache, so the handler of the exception finds the registers, the control
  registers and the reservation as the instruction found them, with its address in the
  exception's program counter: it can be emulated, or resumed after the fault is repaired.
\<close>

section \<open>Faults without effects\<close>

text \<open>An outcome is clean for a start state if an error in it left the context alone.\<close>

definition clean :: "cpu \<Rightarrow> (exception + 'a) \<times> cpu \<Rightarrow> bool" where
  "clean c out \<longleftrightarrow> (case out of (Inl e, c') \<Rightarrow> same_context c c' | (Inr x, c') \<Rightarrow> True)"

lemma clean_Inl: "clean c (Inl e, c)"
  by (simp add: clean_def untouched.refl)

lemma clean_Inr: "clean c (Inr x, c')"
  by (simp add: clean_def)

lemma clean_same: "same_context c (snd out) \<Longrightarrow> clean c out"
  by (auto simp: clean_def split: prod.split sum.split)

lemma clean_if: "clean c p \<Longrightarrow> clean c q \<Longrightarrow> clean c (if b then p else q)"
  by simp

lemma clean_option: "clean c p \<Longrightarrow> (\<And>y. clean c (f y)) \<Longrightarrow> clean c (case x of None \<Rightarrow> p | Some y \<Rightarrow> f y)"
  by (cases x) simp_all

lemma clean_prod: "(\<And>x y. clean c (f x y)) \<Longrightarrow> clean c (case z of (x, y) \<Rightarrow> f x y)"
  by (cases z) simp

lemma clean_keeps: "keeps same_context m \<Longrightarrow> clean c (m c)"
  by (rule clean_same) (rule keepsD)

lemma clean_bind:
  assumes "keeps same_context m" and "\<And>x d. clean d (k x d)"
  shows "clean c (bindE m k c)"
proof (cases "m c")
  case (Pair r d)
  then have step: "same_context c d" using assms(1) by (auto dest: keeps_run)
  have "clean c (k x d)" for x
    using assms(2) [of d x] untouched.trans [OF step] by (auto simp: clean_def split: prod.splits sum.splits)
  then show ?thesis
    using Pair step by (cases r) (auto simp: bindE_def clean_def)
qed

lemma clean_illegal: "clean c (illegal inst c)"
  by (simp add: illegal_def clean_Inl)

lemma clean_fp_result: "clean c (fp_result f d res c)"
  by (simp add: fp_result_def clean_Inr)

lemma clean_int_result: "clean c (int_result d res c)"
  by (simp add: int_result_def clean_Inr)

lemma clean_update: "clean c (update f c)"
  by (simp add: clean_Inr)

lemma keeps_if: "keeps R m \<Longrightarrow> keeps R k \<Longrightarrow> keeps R (if b then m else k)"
  by simp

lemmas clean_rules = clean_if clean_option clean_prod clean_Inl clean_Inr clean_illegal
  clean_fp_result clean_int_result clean_update clean_bind clean_keeps
  untouched.keeps_read_mem untouched.keeps_write_mem untouched.keeps_ret

section \<open>The instructions\<close>

lemma clean_op_fp: "clean c (execute_op_fp inst d s1 s2 f3 f7 c)"
  unfolding execute_op_fp_def op_fp_move_def Let_def by (intro clean_rules)

lemma clean_fma: "clean c (exec_fma inst c)"
  unfolding exec_fma_def Let_def by (intro clean_rules)

lemma clean_fp_mem: "clean c (exec_fp_mem inst c)"
  unfolding exec_fp_mem_def Let_def by (intro clean_rules)

lemma clean_branch: "clean c (exec_branch inst inst_pc c)"
  unfolding exec_branch_def by (intro clean_rules)

lemma clean_load: "clean c (exec_load inst c)"
  unfolding exec_load_def Let_def by (intro clean_rules)

lemma clean_store: "clean c (exec_store inst c)"
  unfolding exec_store_def Let_def by (intro clean_rules)

lemma clean_arith: "clean c (exec_op_imm inst c)" "clean c (exec_op inst c)"
  unfolding exec_op_imm_def exec_op_def Let_def by (intro clean_rules)+

lemma clean_exchange: "clean d ((case amo_new op3 a b w of None \<Rightarrow> illegal inst | Some v \<Rightarrow> k v) d)"
  if "\<And>v. clean d (k v d)"
  using that by (simp add: clean_illegal split: option.split)

lemma clean_amo: "clean c (exec_amo inst c)"
  unfolding exec_amo_def Let_def
  by (intro clean_if clean_illegal clean_Inl clean_bind clean_update clean_exchange keeps_if
        untouched.keeps_read_mem untouched.keeps_write_mem untouched.keeps_ret)

lemma clean_priv: "clean c (exec_priv inst c)"
  unfolding exec_priv_def Let_def by (intro clean_rules)

lemma clean_csr: "clean c (exec_csr inst c)"
  unfolding exec_csr_def Let_def by (intro clean_rules)

lemma clean_system: "clean c (exec_system inst c)"
  by (simp add: exec_system_def clean_priv clean_csr)

lemma clean_opcode: "clean c (exec_opcode inst inst_pc next_pc c)"
  unfolding exec_opcode_def Let_def
  by (simp add: clean_Inr clean_illegal clean_op_fp clean_fma clean_fp_mem clean_branch clean_load clean_store
      clean_arith clean_amo clean_system)

section \<open>The trap\<close>

lemma trap_pc: "trap e a (c\<lparr>pc := x\<rparr>) = trap e a c"
  by (simp add: trap_def take_trap_def to_supervisor_def enter_supervisor_def enter_machine_def upd_csrs_def
      cause_flag_def xbits_def trap_vector_def Let_def)

text \<open>A fault in the fetch or in the execution differs from the start only in what the trap overwrites.\<close>

lemma faulting_instruction:
  assumes "fetch_execute c = (Inl e, c')"
  obtains m t where "trap e a c' = trap e a (c\<lparr>mem := m, tlb := t\<rparr>)"
proof (cases "fetch c")
  case (Pair r d)
  then obtain m t where d: "d = c\<lparr>mem := m, tlb := t\<rparr>"
    using keeps_run [OF untouched.keeps_fetch] unfolding same_context_def by blast
  show ?thesis
  proof (cases r)
    case (Inl x)
    then have "c' = d" using assms Pair by (simp add: fetch_execute_def bindE_def)
    then show ?thesis using that d by blast
  next
    case (Inr il)
    obtain inst len where il: "il = (inst, len)" by fastforce
    have "exec_opcode inst (pc c) (pc d + len) (d\<lparr>pc := pc d + len\<rparr>) = (Inl e, c')"
      using assms Pair Inr il by (simp add: fetch_execute_def bindE_def execute_def)
    then have "same_context (d\<lparr>pc := pc d + len\<rparr>) c'"
      using clean_opcode [of "d\<lparr>pc := pc d + len\<rparr>" inst "pc c" "pc d + len"] by (simp add: clean_def)
    then obtain m' t' where "c' = d\<lparr>pc := pc d + len, mem := m', tlb := t'\<rparr>"
      unfolding same_context_def by blast
    then have "c' = (c\<lparr>mem := m', tlb := t'\<rparr>)\<lparr>pc := pc c + len\<rparr>" by (simp add: d)
    then show ?thesis using that [of t' m'] by (simp add: trap_pc)
  qed
qed

lemma trap_keeps [simp]:
  "regs (trap e a c) = regs c" "fregs (trap e a c) = fregs c" "reservation (trap e a c) = reservation c"
  by (simp_all add: trap_def take_trap_def enter_supervisor_def enter_machine_def Let_def)

lemma trap_records:
  "(if priv_mode (trap e a c) = Supervisor
    then csr_regs (csrs (trap e a c)) SEPC = a \<and> csr_regs (csrs (trap e a c)) SCAUSE = cause e (priv_mode c)
         \<and> csr_regs (csrs (trap e a c)) STVAL = tval e
    else csr_regs (csrs (trap e a c)) MEPC = a \<and> csr_regs (csrs (trap e a c)) MCAUSE = cause e (priv_mode c)
         \<and> csr_regs (csrs (trap e a c)) MTVAL = tval e)"
  by (simp add: trap_def take_trap_def enter_supervisor_def enter_machine_def cause_flag_def csr_force_def Let_def)

text \<open>
  C6. Exceptions are precise: a step that ends in an exception has taken its trap from the state in
  which the instruction began, memory and translation cache apart. The registers and the
  reservation are those before the step, and the handler's mode is told the address of the
  instruction, the cause and the faulting value.
\<close>

theorem exceptions_are_precise:
  assumes "step c = (Inl e, c')"
  shows "\<exists>m t. c' = trap e (pc c) ((begin_cycle c)\<lparr>wrote_instret := False, mem := m, tlb := t\<rparr>)
           \<and> regs c' = regs c \<and> fregs c' = fregs c \<and> reservation c' = reservation c
           \<and> (if priv_mode c' = Supervisor
              then csr_regs (csrs c') SEPC = pc c \<and> csr_regs (csrs c') SCAUSE = cause e (priv_mode c)
                   \<and> csr_regs (csrs c') STVAL = tval e
              else csr_regs (csrs c') MEPC = pc c \<and> csr_regs (csrs c') MCAUSE = cause e (priv_mode c)
                   \<and> csr_regs (csrs c') MTVAL = tval e)"
proof -
  let ?c1 = "(begin_cycle c)\<lparr>wrote_instret := False\<rparr>"
  obtain d where run: "fetch_execute ?c1 = (Inl e, d)" and c': "c' = trap e (pc c) d"
    using assms by (auto simp: step_def finish_step_def Let_def split: option.splits prod.splits sum.splits if_splits)
  obtain m t where "trap e (pc c) d = trap e (pc c) (?c1\<lparr>mem := m, tlb := t\<rparr>)"
    using faulting_instruction [OF run] by blast
  then have "c' = trap e (pc c) (?c1\<lparr>mem := m, tlb := t\<rparr>)" by (simp add: c')
  then show ?thesis
    using trap_records [of e "pc c" "?c1\<lparr>mem := m, tlb := t\<rparr>"] by (intro exI [of _ m] exI [of _ t]) simp
qed

text \<open>A hart that has jumped to an odd address.\<close>

definition astray :: cpu where
  "astray = (rv64 64)\<lparr>pc := 0x80000041\<rparr>"

lemma astray_faults: "fst (step astray) = Inl (InstructionAddressMisaligned 0x80000041)"
proof -
  have "csr_read (csrs (begin_cycle astray)) MIE = 0"
    by (simp add: astray_def rv64_def cpu_new_def mem_new_def csr_new_def begin_cycle_def tick_timer_def tick_timer_bits_def
        sweep_devices_def advance_mtime_def set_mip_def sweep_due_def csr_read_def csr_read_value_def csr_force_def
        csr_set_bits_def csr_clear_bits_def Let_def)
  then have "pending_interrupt (begin_cycle astray) = None"
    by (simp add: pending_interrupt_def)
  moreover have "pc (begin_cycle astray) = 0x80000041"
    by (simp add: astray_def)
  ultimately show ?thesis
    by (simp add: step_def fetch_execute_def fetch_def bindE_def finish_step_def)
qed

lemma machine_trap: "priv_mode c = Machine \<Longrightarrow> priv_mode (trap e a c) = Machine"
  by (simp add: trap_def take_trap_def to_supervisor_def enter_machine_def Let_def)

lemma astray_start: "regs astray 2 = 0x80000040" "pc astray = 0x80000041" "priv_mode astray = Machine"
  by (simp_all add: astray_def rv64_def cpu_new_def)

theorem exceptions_are_precise_witness:
  "fst (step astray) = Inl (InstructionAddressMisaligned 0x80000041)
   \<and> regs (snd (step astray)) 2 = 0x80000040
   \<and> csr_regs (csrs (snd (step astray))) MEPC = 0x80000041"
proof -
  obtain c' where run: "step astray = (Inl (InstructionAddressMisaligned 0x80000041), c')"
    using astray_faults by (cases "step astray") simp
  obtain m t where
      "c' = trap (InstructionAddressMisaligned 0x80000041) (pc astray)
              ((begin_cycle astray)\<lparr>wrote_instret := False, mem := m, tlb := t\<rparr>)"
    and kept: "regs c' = regs astray"
    and told: "if priv_mode c' = Supervisor then csr_regs (csrs c') SEPC = pc astray
               else csr_regs (csrs c') MEPC = pc astray"
    using exceptions_are_precise [OF run] by (metis (no_types))
  then have "priv_mode c' = Machine" by (simp add: machine_trap astray_start)
  then show ?thesis using kept told by (simp add: run astray_start)
qed

end
