(* ===== verification/Loading.thy ===== *)
theory Loading
  imports Hart
begin

text \<open>
  What loading a program achieves: the bytes of every segment stand where the image wants them,
  followed by their zeroes, and the hart is at the entry point.
\<close>

definition seg_start :: "segment \<Rightarrow> nat" where
  "seg_start s = unat (seg_addr s - DRAM_BASE)"

definition seg_end :: "segment \<Rightarrow> nat" where
  "seg_end s = seg_start s + length (seg_data s) + unat (seg_zero_len s)"

definition seg_image :: "segment \<Rightarrow> u8 list" where
  "seg_image s = seg_data s @ replicate (unat (seg_zero_len s)) 0"

fun non_overlapping :: "segment list \<Rightarrow> bool" where
  "non_overlapping [] = True"
| "non_overlapping (s # ss) = (list_all (\<lambda>t. seg_end s \<le> seg_start t \<or> seg_end t \<le> seg_start s) ss \<and> non_overlapping ss)"

lemma length_seg_image: "seg_start s + length (seg_image s) = seg_end s"
  by (simp add: seg_image_def seg_end_def)

lemma mem_index_Some:
  "mem_index m a n = Some i \<longleftrightarrow> \<not> a < DRAM_BASE \<and> i = unat (a - DRAM_BASE) \<and> i + n < 2 ^ 64 \<and> i + n \<le> length (dram m)"
  by (auto simp: mem_index_def Let_def)

lemma load_at_ok:
  "load_at a data m = (Inr (), t) \<Longrightarrow>
     t = m\<lparr>dram := splice (unat (a - DRAM_BASE)) data (dram m)\<rparr>
     \<and> unat (a - DRAM_BASE) + length data \<le> length (dram m) \<and> unat (a - DRAM_BASE) + length data < 2 ^ 64"
  by (auto simp: load_at_def mem_index_Some split: option.splits)

lemma mem_zero_ok:
  "mem_zero a n m = (Inr (), t) \<Longrightarrow>
     t = m\<lparr>dram := splice (unat (a - DRAM_BASE)) (replicate (unat n) 0) (dram m)\<rparr>
     \<and> unat (a - DRAM_BASE) + unat n \<le> length (dram m)"
  by (auto simp: mem_zero_def mem_index_Some split: option.splits)

lemma splice_append:
  "i + length xs + length ys \<le> length d \<Longrightarrow> splice (i + length xs) ys (splice i xs d) = splice i (xs @ ys) d"
  by (simp add: splice_def add.commute add.left_commute)

definition place :: "segment \<Rightarrow> cpu \<Rightarrow> cpu" where
  "place s = upd_mem (\<lambda>m. m\<lparr>dram := splice (seg_start s) (seg_image s) (dram m)\<rparr>)"

lemma on_mem_Inr: "on_mem f c = (Inr x, c') \<longleftrightarrow> (\<exists>m. f (mem c) = (Inr x, m) \<and> c' = c\<lparr>mem := m\<rparr>)"
  by (auto simp: on_mem_def split: prod.splits)

lemma load_one:
  assumes "load_segments (s # ss) c = (Inr (), c')"
  shows "load_segments ss (place s c) = (Inr (), c') \<and> seg_end s \<le> length (dram (mem c))"
proof -
  let ?a = "seg_addr s" and ?d = "seg_data s" and ?n = "seg_zero_len s" and ?i = "seg_start s"
  obtain m1 where m1: "load_at ?a ?d (mem c) = (Inr (), m1)"
    and more: "bindE (if ?n > 0
                then map_err (\<lambda>_. StoreAccessFault ?a) (on_mem (mem_zero (?a + of_nat (length ?d)) ?n)) else ret ())
           (\<lambda>_. load_segments ss) (c\<lparr>mem := m1\<rparr>) = (Inr (), c')"
    using assms by (auto simp: Let_def bindE_eq_Inr_iff on_mem_Inr)
  from load_at_ok [OF m1] have m1': "m1 = (mem c)\<lparr>dram := splice ?i ?d (dram (mem c))\<rparr>"
    and fits: "?i + length ?d \<le> length (dram (mem c))" "?i + length ?d < 2 ^ 64"
    by (simp_all add: seg_start_def)
  show ?thesis
  proof (cases "?n = 0")
    case True
    then show ?thesis
      using more fits by (simp add: place_def upd_mem_def m1' seg_image_def seg_end_def)
  next
    case False
    then have pos: "?n > 0" by (simp add: word_gt_0)
    then obtain m2 where m2: "mem_zero (?a + of_nat (length ?d)) ?n m1 = (Inr (), m2)"
      and rest: "load_segments ss (c\<lparr>mem := m2\<rparr>) = (Inr (), c')"
      using more by (auto simp: bindE_eq_Inr_iff on_mem_Inr)
    have "unat (?a + of_nat (length ?d) - DRAM_BASE) = ?i + length ?d"
    proof -
      have "?a + of_nat (length ?d) - DRAM_BASE = of_nat (?i + length ?d)" by (simp add: seg_start_def)
      then show ?thesis using fits(2) by (simp only: unat_of_nat) simp
    qed
    then have "m2 = m1\<lparr>dram := splice (?i + length ?d) (replicate (unat ?n) 0) (dram m1)\<rparr>"
      and "?i + length ?d + unat ?n \<le> length (dram m1)"
      using mem_zero_ok [OF m2] by simp_all
    moreover have "length (dram m1) = length (dram (mem c))" using fits by (simp add: m1')
    ultimately show ?thesis
      using rest splice_append [of ?i ?d "replicate (unat ?n) 0" "dram (mem c)"]
      by (simp add: place_def upd_mem_def m1' seg_image_def seg_end_def)
  qed
qed

lemma place_mem: "mem (place s c) = (mem c)\<lparr>dram := splice (seg_start s) (seg_image s) (dram (mem c))\<rparr>"
  by (simp add: place_def upd_mem_def)

lemma place_length: "seg_end s \<le> length (dram (mem c)) \<Longrightarrow> length (dram (mem (place s c))) = length (dram (mem c))"
  by (simp add: place_mem length_seg_image)

text \<open>Loading further segments leaves a place alone that none of them overlaps.\<close>

lemma load_elsewhere:
  assumes "load_segments ss c = (Inr (), c')" and "list_all (\<lambda>t. i + n \<le> seg_start t \<or> seg_end t \<le> i) ss"
    and "i + n \<le> length (dram (mem c))"
  shows "slice_of i n (dram (mem c')) = slice_of i n (dram (mem c))"
  using assms
proof (induction ss arbitrary: c)
  case (Cons s ss)
  note one = load_one [OF Cons.prems(1)]
  have "slice_of i n (dram (mem c')) = slice_of i n (dram (mem (place s c)))"
    using one Cons.prems(2,3) by (intro Cons.IH) (simp_all add: place_length)
  also have "\<dots> = slice_of i n (dram (mem c))"
    unfolding place_mem using one Cons.prems(2,3)
    by (simp add: slice_of_splice_disjoint length_seg_image)
  finally show ?case .
qed simp

lemma load_segments_places:
  assumes "load_segments ss c = (Inr (), c')" and "non_overlapping ss" and "s \<in> set ss"
  shows "slice_of (seg_start s) (length (seg_image s)) (dram (mem c')) = seg_image s"
  using assms
proof (induction ss arbitrary: c)
  case (Cons t ss)
  note one = load_one [OF Cons.prems(1)]
  show ?case
  proof (cases "s = t")
    case True
    have "slice_of (seg_start t) (length (seg_image t)) (dram (mem c'))
        = slice_of (seg_start t) (length (seg_image t)) (dram (mem (place t c)))"
      using one Cons.prems(2) by (intro load_elsewhere [of ss]) (simp_all add: length_seg_image place_length)
    also have "\<dots> = seg_image t" using one by (simp add: place_mem length_seg_image)
    finally show ?thesis using True by simp
  next
    case False
    then show ?thesis using one Cons by auto
  qed
qed simp

lemma load_segments_frame:
  "load_segments ss c = (Inr (), c') \<Longrightarrow>
     pc c' = pc c \<and> xlen c' = xlen c \<and> regs c' = regs c \<and> length (dram (mem c')) = length (dram (mem c))"
proof (induction ss arbitrary: c)
  case (Cons s ss)
  note one = load_one [OF Cons.prems]
  from Cons.IH [OF one [THEN conjunct1]] show ?case
    using one by (simp add: place_length) (simp add: place_def upd_mem_def)
qed simp

text \<open>
  C25. When the loader accepts an ELF image whose segments do not overlap, every segment stands in
  memory at its load address: its file bytes, followed by as many zeroes as its memory size asks
  for, with no segment spoiling another. The hart is at the entry point, has the image's register
  width, and watches the address of the symbol \<^verbatim>\<open>tohost\<close>, if the image has one.
\<close>

theorem load_elf_places_segments:
  assumes "load_elf e c = (Inr (), c')" and "non_overlapping (segments e)" and "s \<in> set (segments e)"
  shows "slice_of (seg_start s) (length (seg_image s)) (dram (mem c')) = seg_image s
    \<and> pc c' = entry e \<and> xlen c' = (if is_64 e then Rv64 else Rv32) \<and> tohost (mem c') = symbols e tohost_name"
proof -
  let ?x = "if is_64 e then Rv64 else Rv32"
  let ?c1 = "upd_csrs (set_xlen ?x) (c\<lparr>xlen := ?x\<rparr>)"
  obtain d where d: "load_segments (segments e) (?c1\<lparr>regs := (regs ?c1)(2 := trunc (regs ?c1 2) (xbits ?c1))\<rparr>) = (Inr (), d)"
    and c': "c' = upd_mem (\<lambda>m. m\<lparr>tohost := symbols e tohost_name\<rparr>) (d\<lparr>pc := entry e\<rparr>)"
    using assms(1) by (auto simp: load_elf_def Let_def bindE_eq_Inr_iff update_def)
  show ?thesis
    using load_segments_places [OF d assms(2,3)] load_segments_frame [OF d]
    by (simp add: c' upd_mem_def upd_csrs_def)
qed

definition small_elf :: elf where
  "small_elf =
    \<lparr>segments =
       [\<lparr>seg_addr = DRAM_BASE + 4, seg_data = [0x13, 0, 0, 0], seg_zero_len = 3\<rparr>,
        \<lparr>seg_addr = DRAM_BASE + 12, seg_data = [7, 8], seg_zero_len = 0\<rparr>],
     entry = DRAM_BASE + 4,
     symbols = (\<lambda>n. if n = tohost_name then Some DRAM_BASE else None),
     is_64 = True\<rparr>"

lemma small_elf_loads: "\<exists>c'. load_elf small_elf (rv64 16) = (Inr (), c')"
  by (simp add: load_elf_def small_elf_def rv64_def cpu_new_def mem_new_def bindE_def on_mem_def
      map_err_def load_at_def mem_zero_def mem_index_def update_def upd_csrs_def upd_mem_def Let_def)

theorem load_elf_places_segments_witness:
  "\<exists>c'. load_elf small_elf (rv64 16) = (Inr (), c')
    \<and> slice_of 4 7 (dram (mem c')) = [0x13, 0, 0, 0, 0, 0, 0]
    \<and> pc c' = DRAM_BASE + 4 \<and> tohost (mem c') = Some DRAM_BASE"
proof -
  obtain c' where ok: "load_elf small_elf (rv64 16) = (Inr (), c')" using small_elf_loads by blast
  have "non_overlapping (segments small_elf)"
    by (simp add: small_elf_def seg_start_def seg_end_def)
  moreover have image: "seg_image (hd (segments small_elf)) = [0x13, 0, 0, 0, 0, 0, 0]"
    by (simp add: small_elf_def seg_image_def) (simp add: numeral_3_eq_3)
  moreover have "seg_start (hd (segments small_elf)) = 4"
    by (simp add: small_elf_def seg_start_def)
  moreover have "length [0x13, 0, 0, 0, 0, 0, 0 :: u8] = 7" by simp
  moreover have "hd (segments small_elf) \<in> set (segments small_elf)"
    and "entry small_elf = DRAM_BASE + 4" and "symbols small_elf tohost_name = Some DRAM_BASE"
    by (simp_all add: small_elf_def)
  ultimately show ?thesis
    using ok load_elf_places_segments [OF ok, of "hd (segments small_elf)"] by metis
qed

end
