(* ===== verification/Elf_Image.thy ===== *)
theory Elf_Image
  imports Loading
begin

text \<open>
  Executable files, written: a 64-bit image with a program header and the file bytes of every
  segment, as a linker lays them out. The reader of \<^verbatim>\<open>emu/src/elf.rs\<close> gives the segments back.
\<close>

section \<open>Reading fields out of a list of bytes\<close>

lemma unat_of_small: "n < 2 ^ 63 \<Longrightarrow> unat (of_nat n :: u64) = n"
  by (simp only: unat_of_nat) simp

lemma take_bit_64 [simp]: "take_bit 64 (v :: u64) = v"
  by (simp add: take_bit_word_eq_self)

lemma get_range_append:
  assumes "length (xs @ ys @ zs) < 2 ^ 63"
  shows "get_range (xs @ ys @ zs) (of_nat (length xs)) (of_nat (length xs) + of_nat (length ys)) = Some ys"
proof -
  have stop: "of_nat (length xs) + of_nat (length ys) = (of_nat (length xs + length ys) :: u64)" by simp
  have "unat (of_nat (length xs) :: u64) = length xs"
    and "unat (of_nat (length xs + length ys) :: u64) = length xs + length ys"
    using assms by (simp_all only: unat_of_small length_append)
  then show ?thesis
    unfolding get_range_def stop by (simp only: word_le_nat_alt) (simp add: slice_of_def)
qed

lemma le_at_append:
  assumes "length (xs @ to_le n v @ ys) < 2 ^ 63"
  shows "le_at n (xs @ to_le n v @ ys) (of_nat (length xs)) = take_bit (8 * n) v"
  using get_range_append [OF assms] by (simp add: le_at_def from_le_to_le)

section \<open>The writer\<close>

definition file_header :: "u64 \<Rightarrow> nat \<Rightarrow> u8 list" where
  "file_header ent n =
     elf_magic @ [2, 1, 1, 0] @ replicate 8 0 @ to_le 2 ET_EXEC @ to_le 2 EM_RISCV @ to_le 4 1
     @ to_le 8 ent @ to_le 8 64 @ to_le 8 0 @ to_le 4 0
     @ to_le 2 64 @ to_le 2 56 @ to_le 2 (of_nat n) @ to_le 2 0 @ to_le 2 0 @ to_le 2 0"

definition program_header :: "segment \<Rightarrow> nat \<Rightarrow> u8 list" where
  "program_header s off =
     to_le 4 PT_LOAD @ to_le 4 7 @ to_le 8 (of_nat off) @ to_le 8 (seg_addr s) @ to_le 8 (seg_addr s)
     @ to_le 8 (of_nat (length (seg_data s))) @ to_le 8 (of_nat (length (seg_data s)) + seg_zero_len s)
     @ to_le 8 1"

fun program_headers :: "nat \<Rightarrow> segment list \<Rightarrow> u8 list" where
  "program_headers off [] = []"
| "program_headers off (s # ss) = program_header s off @ program_headers (off + length (seg_data s)) ss"

definition elf_image :: "u64 \<Rightarrow> segment list \<Rightarrow> u8 list" where
  "elf_image ent ss =
     file_header ent (length ss) @ program_headers (64 + 56 * length ss) ss @ concat (map seg_data ss)"

lemma length_file_header: "length (file_header ent n) = 64"
  by (simp add: file_header_def elf_magic_def)

lemma length_program_header [simp]: "length (program_header s off) = 56"
  by (simp add: program_header_def)

lemma length_program_headers [simp]: "length (program_headers off ss) = 56 * length ss"
  by (induction ss arbitrary: off) simp_all

section \<open>Reading a program header back\<close>

lemma program_header_fields:
  fixes pre post
  assumes small: "length (pre @ program_header s off @ post) < 2 ^ 63"
  defines "b \<equiv> pre @ program_header s off @ post" and "ph \<equiv> of_nat (length pre)"
  shows "u32le b ph = PT_LOAD"
    and "phdr_fields True b ph = (of_nat off, seg_addr s, of_nat (length (seg_data s)),
           of_nat (length (seg_data s)) + seg_zero_len s)"
proof -
  have field: "le_at n b (ph + of_nat (length xs)) = take_bit (8 * n) v"
    if "b = (pre @ xs) @ to_le n v @ ys" for n xs v ys
    using le_at_append [of "pre @ xs" n v ys] small that by (simp add: b_def [symmetric] ph_def)
  show "u32le b ph = PT_LOAD"
    using field [of "[]" 4 PT_LOAD] by (simp add: u32le_def b_def program_header_def)
  let ?h0 = "to_le 4 PT_LOAD @ to_le 4 7" and ?a = "to_le 8 (seg_addr s)"
  let ?o = "to_le 8 (of_nat off)" and ?f = "to_le 8 (of_nat (length (seg_data s)))"
  have "u64le b (ph + 8) = of_nat off"
    using field [of ?h0 8 "of_nat off"] by (simp add: u64le_def b_def program_header_def)
  moreover have "u64le b (ph + 24) = seg_addr s"
    using field [of "?h0 @ ?o @ ?a" 8 "seg_addr s"] by (simp add: u64le_def b_def program_header_def)
  moreover have "u64le b (ph + 32) = of_nat (length (seg_data s))"
    using field [of "?h0 @ ?o @ ?a @ ?a" 8 "of_nat (length (seg_data s))"] by (simp add: u64le_def b_def program_header_def)
  moreover have "u64le b (ph + 40) = of_nat (length (seg_data s)) + seg_zero_len s"
    using field [of "?h0 @ ?o @ ?a @ ?a @ ?f" 8 "of_nat (length (seg_data s)) + seg_zero_len s"]
    by (simp add: u64le_def b_def program_header_def)
  ultimately show "phdr_fields True b ph = (of_nat off, seg_addr s, of_nat (length (seg_data s)),
           of_nat (length (seg_data s)) + seg_zero_len s)"
    by (simp add: phdr_fields_def)
qed

definition segment_fits :: "segment \<Rightarrow> bool" where
  "segment_fits s \<longleftrightarrow> length (seg_data s) + unat (seg_zero_len s) < 2 ^ 64"

lemma zero_length_back:
  assumes "segment_fits s"
  shows "saturating_sub (of_nat (length (seg_data s)) + seg_zero_len s) (of_nat (length (seg_data s))) = seg_zero_len s"
proof -
  let ?n = "length (seg_data s)"
  have "unat (of_nat ?n :: u64) = ?n" using assms by (simp only: unat_of_nat segment_fits_def) simp
  then have "\<not> of_nat ?n + seg_zero_len s < (of_nat ?n :: u64)"
    using assms by (simp add: word_less_nat_alt unat_word_ariths segment_fits_def)
  then show ?thesis by (simp add: saturating_sub_def)
qed

lemma segment_eta: "\<lparr>seg_addr = seg_addr s, seg_data = seg_data s, seg_zero_len = seg_zero_len s\<rparr> = s"
  by (cases s) simp

lemma read_segments_back:
  assumes "length (pre @ program_headers off ss @ gap @ concat (map seg_data ss)) < 2 ^ 63"
    and "off = length pre + 56 * length ss + length gap" and "list_all segment_fits ss"
  shows "read_segments True (pre @ program_headers off ss @ gap @ concat (map seg_data ss))
           (map (\<lambda>i. of_nat (length pre + 56 * i)) [0..<length ss]) acc = Inr (acc @ ss)"
  using assms
proof (induction ss arbitrary: pre off gap acc)
  case (Cons s ss)
  let ?b = "pre @ program_headers off (s # ss) @ gap @ concat (map seg_data (s # ss))"
  let ?pre = "pre @ program_header s off" and ?gap = "gap @ seg_data s" and ?off = "off + length (seg_data s)"
  let ?rest = "program_headers ?off ss @ ?gap @ concat (map seg_data ss)"
  have b: "?b = ?pre @ ?rest" by simp
  have fields: "u32le ?b (of_nat (length pre)) = PT_LOAD"
    "phdr_fields True ?b (of_nat (length pre)) = (of_nat off, seg_addr s, of_nat (length (seg_data s)),
           of_nat (length (seg_data s)) + seg_zero_len s)"
    using program_header_fields [of pre s off ?rest] Cons.prems(1) by simp_all
  have off: "off = length (?pre @ program_headers ?off ss @ gap)" using Cons.prems(2) by simp
  have split: "?b = (?pre @ program_headers ?off ss @ gap) @ seg_data s @ concat (map seg_data ss)" by simp
  have bytes: "get_range ?b (of_nat off) (of_nat off + of_nat (length (seg_data s))) = Some (seg_data s)"
    unfolding split using get_range_append [OF Cons.prems(1) [unfolded split], folded off] by simp
  have heads: "map (\<lambda>i. of_nat (length pre + 56 * i)) [0..<length (s # ss)] =
      (of_nat (length pre) :: u64) # map (\<lambda>i. of_nat (length ?pre + 56 * i)) [0..<length ss]"
    by (simp add: upt_conv_Cons o_def add.assoc flip: map_Suc_upt del: upt_Suc)
  have "read_segments True (?pre @ ?rest) (map (\<lambda>i. of_nat (length ?pre + 56 * i)) [0..<length ss]) (acc @ [s]) = Inr ((acc @ [s]) @ ss)"
    using Cons.prems by (intro Cons.IH) simp_all
  then show ?case
    unfolding heads using fields bytes zero_length_back [of s] Cons.prems(3) b
    by (simp add: Let_def segment_eta)
qed simp

section \<open>Reading the file back\<close>

lemma header_field:
  assumes "length (file_header ent n @ rest) < 2 ^ 63" and "file_header ent n = xs @ to_le w v @ ys" and "o' = of_nat (length xs)"
  shows "le_at w (file_header ent n @ rest) o' = take_bit (8 * w) v"
  using le_at_append [of xs w v "ys @ rest"] assms by simp

lemma header_fields:
  assumes small: "length (file_header ent n @ rest) < 2 ^ 63" and "n < 2 ^ 16"
  defines "b \<equiv> file_header ent n @ rest"
  shows "u16le b 16 = ET_EXEC" "u16le b 18 = EM_RISCV" "u64le b 24 = ent" "u64le b 32 = 64" "u64le b 40 = 0"
    "u16le b 54 = 56" "u16le b 56 = of_nat n" "u16le b 58 = 0" "u16le b 60 = 0"
proof -
  let ?x0 = "elf_magic @ [2, 1, 1, 0] @ replicate 8 0"
  let ?x1 = "?x0 @ to_le 2 ET_EXEC @ to_le 2 EM_RISCV @ to_le 4 1"
  let ?x2 = "?x1 @ to_le 8 ent @ to_le 8 64 @ to_le 8 0 @ to_le 4 0"
  let ?x3 = "?x2 @ to_le 2 64 @ to_le 2 56 @ to_le 2 (of_nat n)"
  note field = header_field [OF small, folded b_def]
  show "u16le b 16 = ET_EXEC"
    using field [of ?x0 2 ET_EXEC] by (simp add: u16le_def file_header_def elf_magic_def)
  show "u16le b 18 = EM_RISCV"
    using field [of "?x0 @ to_le 2 ET_EXEC" 2 EM_RISCV] by (simp add: u16le_def file_header_def elf_magic_def)
  show "u64le b 24 = ent"
    using field [of ?x1 8 ent] by (simp add: u64le_def file_header_def elf_magic_def)
  show "u64le b 32 = 64"
    using field [of "?x1 @ to_le 8 ent" 8 64] by (simp add: u64le_def file_header_def elf_magic_def)
  show "u64le b 40 = 0"
    using field [of "?x1 @ to_le 8 ent @ to_le 8 64" 8 0] by (simp add: u64le_def file_header_def elf_magic_def)
  show "u16le b 54 = 56"
    using field [of "?x2 @ to_le 2 64" 2 56] by (simp add: u16le_def file_header_def elf_magic_def)
  have "take_bit 16 (of_nat n :: u64) = of_nat n"
    using assms(2) by (metis take_bit_of_nat take_bit_nat_eq_self)
  then show "u16le b 56 = of_nat n"
    using field [of "?x2 @ to_le 2 64 @ to_le 2 56" 2 "of_nat n"] by (simp add: u16le_def file_header_def elf_magic_def)
  show "u16le b 58 = 0"
    using field [of ?x3 2 0] by (simp add: u16le_def file_header_def elf_magic_def)
  show "u16le b 60 = 0"
    using field [of "?x3 @ to_le 2 0" 2 0 "to_le 2 0"] by (simp add: u16le_def file_header_def elf_magic_def)
qed

lemma header_bytes:
  "take 4 (file_header ent n @ rest) = elf_magic" "(file_header ent n @ rest) ! 4 = 2" "(file_header ent n @ rest) ! 5 = 1"
  by (simp_all add: file_header_def elf_magic_def)

text \<open>
  C24. An executable written as a 64-bit image is read back: the reader accepts it and yields its
  entry point and its segments, in order, each with its address, its file bytes and the number of
  zeroes to follow them.
\<close>

theorem elf_parse_image:
  assumes "length ss < 2 ^ 16" and "list_all segment_fits ss" and "length (elf_image ent ss) < 2 ^ 63"
  shows "elf_parse (elf_image ent ss) = Inr \<lparr>segments = ss, entry = ent, symbols = Map.empty, is_64 = True\<rparr>"
proof -
  let ?rest = "program_headers (64 + 56 * length ss) ss @ concat (map seg_data ss)"
  let ?b = "file_header ent (length ss) @ ?rest"
  have small: "length ?b < 2 ^ 63" using assms(3) by (simp add: elf_image_def)
  note fields = header_fields [OF small assms(1)] and bytes = header_bytes [of ent "length ss" ?rest]
  have "elf_check ?b = Inr True"
    using fields bytes by (simp add: elf_check_def length_file_header)
  moreover have "headers 64 (of_nat (length ss)) 56 = map (\<lambda>i. of_nat (64 + 56 * i)) [0..<length ss]"
    using assms(1) by (simp add: headers_def unat_of_small mult.commute)
  moreover have "read_segments True ?b (map (\<lambda>i. of_nat (64 + 56 * i)) [0..<length ss]) [] = Inr ss"
  proof -
    let ?h = "file_header ent (length ss)" and ?off = "64 + 56 * length ss"
    have "length (?h @ program_headers ?off ss @ [] @ concat (map seg_data ss)) < 2 ^ 63"
      unfolding append_Nil by (rule small)
    moreover have "?off = length ?h + 56 * length ss + length []" unfolding length_file_header list.size(3) by (rule add_0_right [symmetric])
    ultimately have "read_segments True (?h @ program_headers ?off ss @ [] @ concat (map seg_data ss))
        (map (\<lambda>i. of_nat (length ?h + 56 * i)) [0..<length ss]) [] = Inr ([] @ ss)"
      using assms(2) by (rule read_segments_back)
    then show ?thesis unfolding append_Nil length_file_header .
  qed
  moreover have "headers 0 0 0 = []" by (simp add: headers_def)
  ultimately show ?thesis
    unfolding elf_image_def elf_parse_def elf_word_def using fields by (simp add: Let_def)
qed

theorem elf_parse_image_witness:
  "elf_parse (elf_image DRAM_BASE (segments small_elf))
     = Inr \<lparr>segments = segments small_elf, entry = DRAM_BASE, symbols = Map.empty, is_64 = True\<rparr>"
  by (rule elf_parse_image)
    (simp_all add: small_elf_def segment_fits_def elf_image_def length_file_header)

end
