(* ===== verification/Runner.thy ===== *)
theory Runner
  imports Loading Stepping
begin

text \<open>
  The command line program, \<^verbatim>\<open>emu/src/main.rs\<close>: reading the options, placing the program or the
  kernel with its device tree, running the hart plainly, sampled or traced, and the exit code.

  The file system is a parameter: what \<open>std::fs::read\<close> returns for a path, \<open>None\<close> when it fails.
  An argument is its bytes. What the program prints is left out, except the samples and the trace,
  which are the purpose of the two slower ways to run; the reason of a refused command line is the
  error value.
\<close>

section \<open>Numbers on the command line\<close>

text \<open>\<^verbatim>\<open>str::parse\<close> for a 64-bit unsigned integer: an optional plus sign, then digits, in range.\<close>

fun parse_digits :: "nat \<Rightarrow> string \<Rightarrow> nat option" where
  "parse_digits acc [] = Some acc"
| "parse_digits acc (ch # cs) =
     (let d = of_char ch :: nat
      in if 48 \<le> d \<and> d \<le> 57 then parse_digits (10 * acc + (d - 48)) cs else None)"

definition skip_plus :: "string \<Rightarrow> string" where
  "skip_plus s = (if s \<noteq> [] \<and> hd s = CHR ''+'' then tl s else s)"

definition parse_u64 :: "string \<Rightarrow> u64 option" where
  "parse_u64 s =
    (if skip_plus s = [] then None
     else case parse_digits 0 (skip_plus s) of
            None \<Rightarrow> None
          | Some n \<Rightarrow> if n < 2 ^ 64 then Some (of_nat n) else None)"

section \<open>Options\<close>

abbreviation KERNEL_OFFSET :: u64 where "KERNEL_OFFSET \<equiv> 0x200000"
abbreviation DEFAULT_MAX_STEPS :: u64 where "DEFAULT_MAX_STEPS \<equiv> 100000000"

record options =
  image_path :: "string option"
  kernel_path :: "string option"
  dtb_path :: "string option"
  mem_mib :: u64
  width :: xlen
  tracing :: bool
  sample :: u64
  quiet :: bool
  max_steps :: u64

definition default_options :: options where
  "default_options =
    \<lparr>image_path = None, kernel_path = None, dtb_path = None, mem_mib = 0, width = Rv64,
     tracing = False, sample = 0, quiet = False, max_steps = DEFAULT_MAX_STEPS\<rparr>"

datatype arg_error = Needs_Value string | Wants_Number string | Unknown_Flag string

definition takes_value :: "string \<Rightarrow> bool" where
  "takes_value a \<longleftrightarrow> a \<in> {''--sample'', ''--kernel'', ''--dtb'', ''--mem'', ''--max-steps''}"

definition number :: "string \<Rightarrow> string \<Rightarrow> (u64 \<Rightarrow> options) \<Rightarrow> arg_error + options" where
  "number flag v f = (case parse_u64 v of None \<Rightarrow> Inl (Wants_Number flag) | Some n \<Rightarrow> Inr (f n))"

definition set_value :: "string \<Rightarrow> string \<Rightarrow> options \<Rightarrow> arg_error + options" where
  "set_value a v opts =
    (if a = ''--sample'' then number a v (\<lambda>n. opts\<lparr>sample := n\<rparr>)
     else if a = ''--kernel'' then Inr (opts\<lparr>kernel_path := Some v\<rparr>)
     else if a = ''--dtb'' then Inr (opts\<lparr>dtb_path := Some v\<rparr>)
     else if a = ''--mem'' then number a v (\<lambda>n. opts\<lparr>mem_mib := n\<rparr>)
     else number a v (\<lambda>n. opts\<lparr>max_steps := n\<rparr>))"

definition set_flag :: "string \<Rightarrow> options \<Rightarrow> arg_error + options" where
  "set_flag a opts =
    (if a = ''--trace'' then Inr (opts\<lparr>tracing := True\<rparr>)
     else if a = ''--quiet'' then Inr (opts\<lparr>quiet := True\<rparr>)
     else if a = ''--rv32'' then Inr (opts\<lparr>width := Rv32\<rparr>)
     else if a = ''--rv64'' then Inr (opts\<lparr>width := Rv64\<rparr>)
     else if take 2 a = ''--'' then Inl (Unknown_Flag a)
     else Inr (opts\<lparr>image_path := Some a\<rparr>))"

fun parse_args :: "string list \<Rightarrow> options \<Rightarrow> arg_error + options" where
  "parse_args [] opts = Inr opts"
| "parse_args (a # rest) opts =
     (if takes_value a then
        (case rest of
           [] \<Rightarrow> Inl (Needs_Value a)
         | v # vs \<Rightarrow> (case set_value a v opts of Inl e \<Rightarrow> Inl e | Inr opts1 \<Rightarrow> parse_args vs opts1))
      else (case set_flag a opts of Inl e \<Rightarrow> Inl e | Inr opts1 \<Rightarrow> parse_args rest opts1))"

definition choose_memory :: "options \<Rightarrow> options" where
  "choose_memory opts =
    (if mem_mib opts = 0 then opts\<lparr>mem_mib := if kernel_path opts \<noteq> None then 256 else 64\<rparr> else opts)"

definition parse :: "string list \<Rightarrow> arg_error + options" where
  "parse args = (case parse_args args default_options of Inl e \<Rightarrow> Inl e | Inr opts \<Rightarrow> Inr (choose_memory opts))"

section \<open>Placing what is to run\<close>

type_synonym files = "string \<Rightarrow> u8 list option"

definition boot_kernel :: "files \<Rightarrow> string \<Rightarrow> string option \<Rightarrow> u64 \<Rightarrow> (cpu, nat, unit) prog" where
  "boot_kernel files kpath dtb memory c =
    (case dtb of
       None \<Rightarrow> (Inl 2, c)
     | Some dtb_name \<Rightarrow>
        (case files kpath of
           None \<Rightarrow> (Inl 2, c)
         | Some img \<Rightarrow>
            (case files dtb_name of
               None \<Rightarrow> (Inl 2, c)
             | Some tree \<Rightarrow>
                 (let kernel_addr = DRAM_BASE + KERNEL_OFFSET;
                      dtb_addr = DRAM_BASE + memory - 0x200000
                  in bindE (map_err (\<lambda>_. 2) (on_mem (load_at kernel_addr img))) (\<lambda>_.
                     bindE (map_err (\<lambda>_. 2) (on_mem (load_at dtb_addr tree))) (\<lambda>_.
                     update (boot_supervisor kernel_addr 0 dtb_addr))) c))))"

text \<open>A file with the ELF magic is an executable, any other a flat image; too long a one panics.\<close>

definition load_image :: "u8 list \<Rightarrow> cpu \<Rightarrow> ((nat + unit) \<times> cpu) option" where
  "load_image img c =
    (if take 4 img = elf_magic then
       (case elf_parse img of
          Inl _ \<Rightarrow> Some (Inl 2, c)
        | Inr e \<Rightarrow> Some (map_err (\<lambda>_. 2) (load_elf e) c))
     else map_option (\<lambda>m. (Inr (), c\<lparr>mem := m\<rparr>)) (mem_load img (mem c)))"

section \<open>Running\<close>

datatype report_line =
    Sample u64 u64 priv u64
  | Trace_Line u64 u64 u64

text \<open>Bursts of at most \<open>every\<close> steps with a sample after each. With \<open>every = 0\<close> it would not end.\<close>

partial_function (option) sampled_run ::
  "u64 \<Rightarrow> u64 \<Rightarrow> u64 \<Rightarrow> report_line list \<Rightarrow> cpu \<Rightarrow> (report_line list \<times> exit \<times> cpu) option" where
  "sampled_run every limit steps log c =
    (if steps < limit then
       (let burst = min every (limit - steps);
            (outcome, c') = run (unat burst) c;
            steps' = steps + burst;
            log' = log @ [Sample steps' (pc c') (priv_mode c') (mtime (clint (mem c')))]
        in if outcome \<noteq> StepLimit then Some (log', outcome, c')
           else sampled_run every limit steps' log' c')
     else Some (log, StepLimit, c))"

fun traced_run :: "nat \<Rightarrow> report_line list \<Rightarrow> cpu \<Rightarrow> report_line list \<times> exit \<times> cpu" where
  "traced_run 0 log c = (log, StepLimit, c)"
| "traced_run (Suc n) log c =
     (let log' = log @ [Trace_Line (pc c) (regs c 10) (regs c 1)];
          (outcome, c') = run 1 c
      in if outcome \<noteq> StepLimit then (log', outcome, c') else traced_run n log' c')"

definition run_options :: "options \<Rightarrow> cpu \<Rightarrow> (report_line list \<times> exit \<times> cpu) option" where
  "run_options opts c =
    (if \<not> tracing opts \<and> sample opts = 0 then Some ([], run (unat (max_steps opts)) c)
     else if \<not> tracing opts then sampled_run (sample opts) (max_steps opts) 0 [] c
     else Some (traced_run (unat (max_steps opts)) [] c))"

definition exit_code :: "exit \<Rightarrow> nat" where
  "exit_code x =
    (case x of Pass \<Rightarrow> 0 | Ecall \<Rightarrow> 0 | Shutdown \<Rightarrow> 0 | Fail _ \<Rightarrow> 1 | UnhandledTrap _ \<Rightarrow> 1 | StepLimit \<Rightarrow> 3)"

text \<open>The exit code, and unless quiet the number of retired instructions and the registers.\<close>

type_synonym register_dump = "u64 \<times> (string \<times> u64) list"

definition report :: "cpu \<Rightarrow> exit \<Rightarrow> bool \<Rightarrow> nat \<times> register_dump option" where
  "report c x hush =
    (exit_code x,
     if hush then None
     else Some (csr_read (csrs c) INSTRET, zip REG_NAMES (map (regs c) [0..<32])))"

section \<open>The program\<close>

datatype outcome =
    Refused nat
  | Finished "nat \<times> register_dump option" "report_line list" exit cpu
  | Panicked
  | Never_Ends

definition memory_bytes :: "options \<Rightarrow> u64" where
  "memory_bytes opts = mem_mib opts * 1024 * 1024"

definition fresh_hart :: "options \<Rightarrow> cpu" where
  "fresh_hart opts =
    upd_mem (\<lambda>m. m\<lparr>uart := (uart m)\<lparr>echo := True\<rparr>\<rparr>) (cpu_new (unat (memory_bytes opts)) (width opts))"

definition prepare :: "files \<Rightarrow> options \<Rightarrow> ((nat + unit) \<times> cpu) option" where
  "prepare files opts =
    (case kernel_path opts of
       Some kpath \<Rightarrow> Some (boot_kernel files kpath (dtb_path opts) (memory_bytes opts) (fresh_hart opts))
     | None \<Rightarrow>
        (case image_path opts of
           None \<Rightarrow> Some (Inl 2, fresh_hart opts)
         | Some path \<Rightarrow>
            (case files path of
               None \<Rightarrow> Some (Inl 2, fresh_hart opts)
             | Some img \<Rightarrow> load_image img (fresh_hart opts))))"

definition main :: "files \<Rightarrow> string list \<Rightarrow> outcome" where
  "main files args =
    (case parse args of
       Inl _ \<Rightarrow> Refused 2
     | Inr opts \<Rightarrow>
        (case prepare files opts of
           None \<Rightarrow> Panicked
         | Some (Inl code, _) \<Rightarrow> Refused code
         | Some (Inr _, c) \<Rightarrow>
            (case run_options opts c of
               None \<Rightarrow> Never_Ends
             | Some (log, x, c') \<Rightarrow>
                 Finished (report c' x (quiet opts \<or> kernel_path opts \<noteq> None)) log x c')))"

section \<open>Every way of running is the run loop\<close>

lemmas run_add = rounds.loop_add

lemma traced_run_is_run: "\<exists>log'. traced_run n log c = (log', run n c)"
proof (induction n arbitrary: log c)
  case (Suc n)
  obtain x c' where r: "run 1 c = (x, c')" by (cases "run 1 c")
  have split: "run (Suc n) c = (if x = StepLimit then run n c' else (x, c'))"
    using run_add [of 1 n c] r by simp
  show ?case
    using Suc.IH [of "log @ [Trace_Line (pc c) (regs c 10) (regs c 1)]" c']
    unfolding traced_run.simps Let_def r split by (cases "x = StepLimit") simp_all
qed simp

lemma add_within: "(b :: u64) \<le> l - k \<Longrightarrow> k \<le> l \<Longrightarrow> k + b \<le> l"
  by uint_arith

lemma sampled_run_is_run:
  assumes "every > 0" and "steps \<le> limit"
  shows "\<exists>log'. sampled_run every limit steps log c = Some (log', run (unat (limit - steps)) c)"
  using assms(2)
proof (induction "unat (limit - steps)" arbitrary: steps log c rule: less_induct)
  case less
  show ?case
  proof (cases "steps < limit")
    case True
    let ?b = "min every (limit - steps)"
    obtain x c' where r: "run (unat ?b) c = (x, c')" by (cases "run (unat ?b) c")
    have pos: "0 < ?b" using True assms(1) by (auto simp: min_def word_gt_0)
    have le: "?b \<le> limit - steps" by simp
    have left: "limit - (steps + ?b) = limit - steps - ?b" by simp
    have n: "unat (limit - steps) = unat ?b + unat (limit - (steps + ?b))"
      unfolding left using le by (simp add: unat_sub word_le_nat_alt)
    have next_le: "steps + ?b \<le> limit"
      using le True add_within [of ?b limit steps] by simp
    have smaller: "unat (limit - (steps + ?b)) < unat (limit - steps)"
      using n pos [unfolded word_less_nat_alt] by (simp only: unat_0 less_add_same_cancel2)
    have split: "run (unat (limit - steps)) c = (if x = StepLimit then run (unat (limit - (steps + ?b))) c' else (x, c'))"
      using run_add [of "unat ?b" "unat (limit - (steps + ?b))" c] by (simp only: n [symmetric] r prod.case)
    let ?log = "log @ [Sample (steps + ?b) (pc c') (priv_mode c') (mtime (clint (mem c')))]"
    have unfolded: "sampled_run every limit steps log c =
        (if x \<noteq> StepLimit then Some (?log, x, c') else sampled_run every limit (steps + ?b) ?log c')"
      by (subst sampled_run.simps) (simp only: True r if_True Let_def prod.case)
    show ?thesis
      using less.hyps [OF smaller next_le, of ?log c'] unfolding unfolded split by (cases "x = StepLimit") simp_all
  next
    case False
    then show ?thesis using less.prems by (subst sampled_run.simps) simp
  qed
qed

lemma run_options_is_run:
  "\<exists>log. run_options opts c = Some (log, run (unat (max_steps opts)) c)"
  using sampled_run_is_run [of "sample opts" 0 "max_steps opts" "[]" c]
    traced_run_is_run [of "unat (max_steps opts)" "[]" c]
  by (auto simp: run_options_def word_gt_0)

text \<open>
  C30. However the hart is run -- plainly, in bursts with a sample after each, or one traced step at
  a time -- the program comes to an end, with the exit and the machine state of the run loop under
  the given limit of steps.
\<close>

theorem every_way_of_running_agrees:
  "map_option snd (run_options (opts\<lparr>tracing := t, sample := s\<rparr>) c) = Some (run (unat (max_steps opts)) c)"
  using run_options_is_run [of "opts\<lparr>tracing := t, sample := s\<rparr>" c] by (elim exE) simp

end
