(* ===== verification/Diag.thy ===== *)
theory Diag
  imports Runner
begin

text \<open>
  The diagnostic example, \<^verbatim>\<open>emu/examples/diag.rs\<close>: it runs a test binary on a 64-bit hart, prints the
  first traps it takes and how it ended. A printed line is a record; a panic of the program is \<open>None\<close>.
\<close>

section \<open>The program\<close>

record trap_line =
  tr_number :: nat
  tr_pc :: u64
  tr_before :: priv
  tr_after :: priv
  tr_cause :: u64
  tr_tval :: u64
  tr_gp :: u64
  tr_exception :: exception

definition trap_line :: "nat \<Rightarrow> cpu \<Rightarrow> exception \<Rightarrow> cpu \<Rightarrow> trap_line" where
  "trap_line shown before e after =
    \<lparr>tr_number = shown, tr_pc = pc before, tr_before = priv_mode before, tr_after = priv_mode after,
     tr_cause = csr_read (csrs after) MCAUSE, tr_tval = csr_read (csrs after) MTVAL, tr_gp = regs after 3,
     tr_exception = e\<rparr>"

definition diag_exit :: "u64 \<Rightarrow> exit" where
  "diag_exit v = (if v AND 1 = 1 then (if drop_bit 1 v = 0 then Pass else Fail (drop_bit 1 v)) else Ecall)"

fun diag_loop :: "nat \<Rightarrow> nat \<Rightarrow> trap_line list \<Rightarrow> cpu \<Rightarrow> exit option \<times> trap_line list \<times> cpu" where
  "diag_loop 0 max_traps shown c = (None, shown, c)"
| "diag_loop (Suc n) max_traps shown c =
     (let (r, c') = step c;
          shown' = (case r of
                      Inl e \<Rightarrow> if length shown < max_traps
                               then shown @ [trap_line (length shown + 1) c e c'] else shown
                    | Inr _ \<Rightarrow> shown)
      in case tohost_value (mem c') of
           Some v \<Rightarrow> (Some (diag_exit v), shown', c')
         | None \<Rightarrow> diag_loop n max_traps shown' c')"

definition diag_limit :: "string list \<Rightarrow> nat" where
  "diag_limit args =
    (case args of
       [] \<Rightarrow> 40
     | a # _ \<Rightarrow> (case parse_u64 a of None \<Rightarrow> 40 | Some n \<Rightarrow> unat n))"

definition diag_main :: "files \<Rightarrow> string list \<Rightarrow> (exit option \<times> trap_line list \<times> cpu) option" where
  "diag_main files args =
    (case args of
       [] \<Rightarrow> None
     | path # rest \<Rightarrow>
        (case files path of
           None \<Rightarrow> None
         | Some bytes \<Rightarrow>
            (case elf_parse bytes of
               Inl _ \<Rightarrow> None
             | Inr e \<Rightarrow>
                (case load_elf e (cpu_new (64 * 2 ^ 20) Rv64) of
                   (Inl _, _) \<Rightarrow> None
                 | (Inr _, c) \<Rightarrow> Some (diag_loop 2000000 (diag_limit rest) [] c)))))"

section \<open>What it reports\<close>

lemma diag_exit_verdict: "report_tohost v = Some x \<Longrightarrow> diag_exit v = x"
  by (auto simp: report_tohost_def diag_exit_def split: if_splits)

lemma diag_exit_even: "report_tohost v = None \<Longrightarrow> diag_exit v = Ecall"
  by (auto simp: report_tohost_def diag_exit_def split: if_splits)

text \<open>No more traps are printed than asked for, whatever the limit of steps.\<close>

lemma traps_shown_bounded:
  "diag_loop n max_traps shown c = (x, shown', c') \<Longrightarrow> length shown \<le> max_traps \<Longrightarrow> length shown' \<le> max_traps"
proof (induction n arbitrary: shown c)
  case (Suc n)
  then show ?case
    by (auto simp: Let_def split: prod.splits sum.splits option.splits if_splits)
qed simp

text \<open>
  The diagnostic and the run loop agree about a test that reports a verdict: unless the run loop
  stops first for a reason of its own, it returns the verdict of the diagnostic, from the same state.
\<close>

definition verdict :: "exit \<Rightarrow> bool" where
  "verdict x = (case x of Pass \<Rightarrow> True | Fail _ \<Rightarrow> True | _ \<Rightarrow> False)"

lemma verdict_not_stopped: "stop_on_error r c = Some x \<Longrightarrow> \<not> verdict x \<and> x \<noteq> StepLimit"
  by (auto simp: stop_on_error_def verdict_def split: sum.splits if_splits)

theorem diagnostic_agrees_with_run:
  assumes "diag_loop n max_traps shown c = (Some x, shown', c')" and "verdict x"
    and "run n c = (y, d)" and "verdict y \<or> y = StepLimit"
  shows "y = x \<and> d = c'"
  using assms(1,3)
proof (induction n arbitrary: shown c)
  case (Suc n)
  obtain r c1 where step: "step c = (r, c1)" by fastforce
  obtain z c2 where after: "after_step r c1 = (z, c2)" by fastforce
  have quiet: "\<not> shutdown c1"
    using Suc.prems(2) assms(4) step by (auto simp: after_step_def verdict_def)
  show ?case
  proof (cases "tohost_value (mem c1)")
    case None
    then have "after_step r c1 = (stop_on_error r c1, c1)" using quiet by (simp add: after_step_def)
    moreover have "stop_on_error r c1 = None"
      using calculation Suc.prems(2) assms(4) verdict_not_stopped [of r c1 y] step
      by (cases "stop_on_error r c1") auto
    ultimately show ?thesis
      using Suc.prems None step Suc.IH by (auto simp: Let_def)
  next
    case (Some v)
    then have x: "x = diag_exit v" "c' = c1" using Suc.prems(1) step by (simp_all add: Let_def)
    then obtain w where "report_tohost v = Some w"
      using assms(2) diag_exit_even [of v] by (cases "report_tohost v") (auto simp: verdict_def)
    then show ?thesis
      using Suc.prems(2) Some quiet step x diag_exit_verdict [of v w] by (simp add: after_step_def)
  qed
qed simp

text \<open>
  They differ about an even value, which the diagnostic takes for the end of the test and the run
  loop for a command that it has done.
\<close>

lemma even_tohost_ends_diagnostic:
  "diag_exit 2 = Ecall" "stop_on_error (Inr ()) c = None" "report_tohost 2 = None"
  by (simp_all add: diag_exit_def stop_on_error_def report_tohost_def)

end
