(* ===== verification/Guarantees.thy ===== *)
theory Guarantees
  imports Contract Hart
begin

text \<open>
  Whole-hart guarantees. The instruction contract is extended to a full step and to the run
  loop, and interpreted for the machine's configuration, the canonical form of the register
  file, the privilege order and the confinement of code below machine mode.
\<close>

section \<open>From instructions to steps\<close>

context hart_contract
begin

lemma keeps_fetch_execute: "keeps R fetch_execute"
proof (rule keeps_pointwise)
  fix c
  show "R c (snd (fetch_execute c))"
    unfolding fetch_execute_def
    by (rule keepsD [OF keeps_bindE [OF keeps_fetch]], rule keeps_pointwise)
       (auto split: prod.split intro: keepsD [OF keeps_execute])
qed

end

locale step_contract = hart_contract R for R :: "cpu \<Rightarrow> cpu \<Rightarrow> bool" +
  assumes R_begin: "R c (begin_cycle c)"
    and R_trap: "R c (take_trap cs tv epc is_int c)"
    and R_retire: "R c (retire c)"
    and R_wrote: "R c (c\<lparr>wrote_instret := b\<rparr>)"
    and R_sbi: "sbi c \<Longrightarrow> priv_mode c = Supervisor \<Longrightarrow> R c (snd (handle_sbi c))"
    and R_shutdown: "R c (c\<lparr>shutdown := b\<rparr>)"
    and R_tohost_value: "R c (c\<lparr>mem := (mem c)\<lparr>tohost_value := x\<rparr>\<rparr>)"
begin

lemma R_finish: "R c (snd (finish_step inst_pc (r, c)))"
proof (cases r)
  case (Inl e)
  obtain goes_on c' where "handle_sbi c = (goes_on, c')" by fastforce
  then show ?thesis
    using Inl R_sbi [of c] trans [OF _ R_shutdown, of c c' True]
    by (auto simp: finish_step_def trap_def R_trap)
qed (simp add: finish_step_def R_retire)

lemma keeps_step: "keeps R step"
proof (rule keeps_pointwise)
  fix c
  let ?c1 = "begin_cycle c"
  obtain r c2 where run: "fetch_execute (?c1\<lparr>wrote_instret := False\<rparr>) = (r, c2)" by fastforce
  then have "R ?c1 c2"
    using keeps_fetch_execute [THEN keepsD, of "?c1\<lparr>wrote_instret := False\<rparr>"]
    by (auto intro: trans [OF R_wrote])
  then have "R ?c1 (snd (step c))"
    by (auto simp: step_def Let_def run R_trap split: option.split intro: trans [OF _ R_finish])
  then show "R c (snd (step c))"
    by (rule trans [OF R_begin])
qed

lemma R_after_step: "R c (snd (after_step r c))"
  by (auto simp: after_step_def refl upd_mem_def R_tohost_value Let_def split: option.split)

lemma R_run: "R c (snd (run n c))"
proof (induction n arbitrary: c)
  case (Suc n)
  obtain r c1 where step: "step c = (r, c1)" by fastforce
  obtain x c2 where after: "after_step r c1 = (x, c2)" by fastforce
  have "R c c2"
    using keepsD [OF keeps_step, of c] R_after_step [of c1 r] by (auto simp: step after intro: trans)
  then show ?case
    using Suc.IH [of c2] by (auto simp: step after intro: trans split: option.split)
qed (simp add: refl)

end



lemmas effect_defs = wr_def fw_def set_fflags_def dirty_fp_def tlb_fill_def flush_tlb_def csr_commit_def
  trap_return_def take_trap_def enter_supervisor_def enter_machine_def retire_def

lemmas tick_defs = begin_cycle_def tick_timer_def tick_timer_bits_def sweep_devices_def advance_mtime_def
  set_mip_def

lemmas firmware_defs = set_reg_def set_timer_def flush_tlb_def

section \<open>The configuration of the machine\<close>

text \<open>
  Nothing a guest does changes the register width, the firmware layer, the size of the DRAM,
  the address of \<open>tohost\<close> or register zero.
\<close>


definition same_machine :: "cpu \<Rightarrow> cpu \<Rightarrow> bool" where
  "same_machine c c' \<longleftrightarrow>
     xlen c' = xlen c \<and> csr_xlen (csrs c') = csr_xlen (csrs c) \<and> sbi c' = sbi c
     \<and> length (dram (mem c')) = length (dram (mem c)) \<and> tohost (mem c') = tohost (mem c)
     \<and> regs c' 0 = regs c 0"

interpretation firmware_machine: firmware_contract same_machine
  by unfold_locales (simp_all add: same_machine_def firmware_defs)

interpretation machine: step_contract same_machine
  by (unfold_locales, simp_all add: firmware_machine.R_handle_sbi)
     (simp_all add: same_machine_def effect_defs Let_def tick_defs)



section \<open>The register file\<close>

text \<open>
  Registers hold the zero-extended value of the register width. The firmware writes full
  64-bit words, so on RV32 the guarantee is for a hart without it.
\<close>

definition canonical :: "cpu \<Rightarrow> bool" where
  "canonical c \<longleftrightarrow> (\<forall>r. trunc (regs c r) (xbits c) = regs c r)"

definition keeps_canonical :: "cpu \<Rightarrow> cpu \<Rightarrow> bool" where
  "keeps_canonical c c' \<longleftrightarrow>
     xlen c' = xlen c \<and> sbi c' = sbi c
     \<and> (canonical c \<and> (sbi c \<longrightarrow> xlen c = Rv64) \<longrightarrow> canonical c')"

lemma canonical_rv64: "xlen c = Rv64 \<Longrightarrow> canonical c"
  by (simp add: canonical_def xbits_def)

lemma canonical_cong: "regs c' = regs c \<Longrightarrow> xlen c' = xlen c \<Longrightarrow> canonical c' = canonical c"
  by (simp add: canonical_def xbits_def)

lemma canonical_wr: "canonical c \<Longrightarrow> canonical (wr r v c)"
  by (simp add: canonical_def wr_def xbits_def)

interpretation canonical: step_contract keeps_canonical
proof unfold_locales
  fix c :: cpu
  show "sbi c \<Longrightarrow> priv_mode c = Supervisor \<Longrightarrow> keeps_canonical c (snd (handle_sbi c))"
    using firmware_machine.R_handle_sbi [of c] canonical_rv64 [of "snd (handle_sbi c)"]
    by (simp add: same_machine_def keeps_canonical_def)
next
  fix r v and c :: cpu
  show "keeps_canonical c (wr r v c)"
    by (simp add: keeps_canonical_def canonical_wr) (simp add: wr_def)
qed (simp_all add: keeps_canonical_def,
     auto intro: canonical_cong [THEN iffD1, rotated 2] simp: effect_defs tick_defs Let_def canonical_def xbits_def)

section \<open>Privilege\<close>

definition no_more_privileged :: "cpu \<Rightarrow> cpu \<Rightarrow> bool" where
  "no_more_privileged c c' \<longleftrightarrow> priv_mode c' \<le> priv_mode c"

interpretation privilege: hart_contract no_more_privileged
  by unfold_locales (auto simp: no_more_privileged_def effect_defs Let_def)

section \<open>Confinement below machine mode\<close>

text \<open>
  A register belongs to machine mode by its number. Supervisor mode shares three of them through its
  windows, and \<open>mstatush\<close> is the upper half of one of the three on RV32.
\<close>

definition machine_only :: "u16 \<Rightarrow> bool" where
  "machine_only a \<longleftrightarrow> drop_bit 8 a AND 0x3 = 0x3 \<and> a \<notin> {MSTATUS, MSTATUSH, MIE, MIP}"

text \<open>
  The bits of \<open>mstatus\<close> that an instruction below machine mode leaves alone: all but SIE, SPIE, SPP,
  FS, SUM and MXR, which its window writes, MPRV, which a return clears, and SD, which is derived.
\<close>

definition ST_HELD :: u64 where
  "ST_HELD = NOT 0x80000000000e6122"

text \<open>
  What machine-mode software reads in \<open>f\<close>, it reads in \<open>g\<close>, but for those bits; and but for the
  upper half of \<open>mstatus\<close> on RV32, which may have been cleared.
\<close>

definition machine_view :: "csrfile \<Rightarrow> csrfile \<Rightarrow> bool" where
  "machine_view f g \<longleftrightarrow>
     csr_xlen g = csr_xlen f
     \<and> (\<forall>a. machine_only a \<longrightarrow> csr_read g a = csr_read f a)
     \<and> csr_read g MSTATUS AND ST_HELD = csr_read f MSTATUS AND ST_HELD
     \<and> (bit (csr_read g MSTATUS) 17 \<longrightarrow> bit (csr_read f MSTATUS) 17)
     \<and> csr_read g MIE AND NOT 0x222 = csr_read f MIE AND NOT 0x222
     \<and> csr_read g MIP AND NOT 0x2 = csr_read f MIP AND NOT 0x2
     \<and> (csr_xlen f = Rv32 \<longrightarrow>
          csr_read g MSTATUSH AND 0x7fffffff \<in> {csr_read f MSTATUSH AND 0x7fffffff, 0})"

text \<open>The same on the stored values, where it composes.\<close>

definition held_or_cut :: "u64 \<Rightarrow> csrfile \<Rightarrow> csrfile \<Rightarrow> bool" where
  "held_or_cut k f g \<longleftrightarrow>
     csr_xlen g = csr_xlen f
     \<and> (csr_regs g MSTATUS AND k = csr_regs f MSTATUS AND k
        \<or> csr_xlen f = Rv32 \<and> csr_regs g MSTATUS AND k = take_bit 32 (csr_regs f MSTATUS AND k))"

lemma held_or_cut_refl: "held_or_cut k f f"
  by (simp add: held_or_cut_def)

lemma held_or_cut_trans: "held_or_cut k f g \<Longrightarrow> held_or_cut k g h \<Longrightarrow> held_or_cut k f h"
  by (auto simp: held_or_cut_def simp del: take_bit_and)

definition machine_state :: "csrfile \<Rightarrow> csrfile \<Rightarrow> bool" where
  "machine_state f g \<longleftrightarrow>
     held_or_cut ST_HELD f g
     \<and> (\<forall>a. machine_only a \<longrightarrow> csr_regs g a = csr_regs f a)
     \<and> (csr_regs g MSTATUS AND ST_MPRV \<noteq> 0 \<longrightarrow> csr_regs f MSTATUS AND ST_MPRV \<noteq> 0)
     \<and> csr_regs g MIE AND NOT 0x222 = csr_regs f MIE AND NOT 0x222
     \<and> csr_regs g MIP AND NOT 0x2 = csr_regs f MIP AND NOT 0x2"

text \<open>A status word read back, with bits outside \<open>k\<close> changed, and forced.\<close>

lemma low_word: "v AND 0xffffffff = take_bit 32 (v :: u64)"
  by (simp add: take_bit_eq_mask mask_eq_exp_minus_1)

lemma status_and:
  assumes "ST_SD AND k = 0"
  shows "csr_status f AND k = csr_regs f MSTATUS AND k"
    and "csr_read f MSTATUS AND k =
      (if csr_xlen f = Rv32 then take_bit 32 (csr_regs f MSTATUS AND k) else csr_regs f MSTATUS AND k)"
proof -
  show s: "csr_status f AND k = csr_regs f MSTATUS AND k"
    using assms and_disjoint_not [OF assms] by (simp add: csr_status_def Let_def word_ao_dist and.assoc)
  have "(csr_status f AND 0xffffffff) AND k = take_bit 32 (csr_status f AND k)"
    by (simp add: low_word [symmetric] ac_simps)
  then show "csr_read f MSTATUS AND k =
      (if csr_xlen f = Rv32 then take_bit 32 (csr_regs f MSTATUS AND k) else csr_regs f MSTATUS AND k)"
    using s by (simp add: csr_read_def csr_read_value_def Let_def)
qed

lemma force_status_held:
  assumes "s AND k = csr_read f MSTATUS AND k" and "ST_SD AND k = 0"
  shows "held_or_cut k f (csr_force MSTATUS s f)"
  using assms by (simp add: held_or_cut_def status_and)

lemma status_high:
  assumes "csr_xlen f = Rv32"
  shows "csr_read f MSTATUSH AND 0x7fffffff = drop_bit 32 (csr_regs f MSTATUS AND 0x7fffffff00000000)"
proof -
  have "ST_SD AND 0x7fffffff00000000 = 0" by simp
  note keep = status_and(1) [OF this, of f]
  have "csr_read f MSTATUSH AND 0x7fffffff = drop_bit 32 (csr_status f) AND 0x7fffffff"
    using assms by (simp add: csr_read_def csr_read_value_def Let_def and.assoc)
  also have "\<dots> = drop_bit 32 (csr_status f AND 0x7fffffff00000000)"
  proof -
    have "drop_bit 32 0x7fffffff00000000 = (0x7fffffff :: u64)" by code_simp
    then show ?thesis by simp
  qed
  finally show ?thesis by (simp only: keep)
qed

lemma held_reads:
  assumes "held_or_cut k f g" and "ST_SD AND k = 0"
  shows "csr_read g MSTATUS AND k = csr_read f MSTATUS AND k"
  using assms(1) by (auto simp: held_or_cut_def status_and [OF assms(2)] simp del: take_bit_and)

lemma held_high_read:
  assumes "held_or_cut k f g" and "k AND 0x7fffffff00000000 = 0x7fffffff00000000" and "csr_xlen f = Rv32"
  shows "csr_read g MSTATUSH AND 0x7fffffff \<in> {csr_read f MSTATUSH AND 0x7fffffff, 0}"
proof -
  let ?m = "0x7fffffff00000000 :: u64"
  have part: "v AND ?m = (v AND k) AND ?m" for v by (simp add: and.assoc assms(2))
  have cut: "drop_bit 32 (take_bit 32 v AND ?m) = 0" for v
    by (simp add: drop_bit_and) (simp add: drop_bit_take_bit)
  have xlen: "csr_xlen g = Rv32" using assms by (simp add: held_or_cut_def)
  consider "csr_regs g MSTATUS AND k = csr_regs f MSTATUS AND k"
    | "csr_regs g MSTATUS AND k = take_bit 32 (csr_regs f MSTATUS AND k)"
    using assms(1) by (auto simp: held_or_cut_def)
  then have "drop_bit 32 (csr_regs g MSTATUS AND ?m) \<in> {drop_bit 32 (csr_regs f MSTATUS AND ?m), 0}"
    by cases (simp_all only: part [of "csr_regs g MSTATUS"] part [of "csr_regs f MSTATUS"] cut insert_iff simp_thms)
  then show ?thesis by (simp only: status_high [OF xlen] status_high [OF assms(3)])
qed

lemma machine_only_False [simp]: "\<not> machine_only FFLAGS" "\<not> machine_only FRM" "\<not> machine_only FCSR" "\<not> machine_only MSTATUS"
  "\<not> machine_only MIE" "\<not> machine_only MIP" "\<not> machine_only STVEC" "\<not> machine_only SEPC" "\<not> machine_only SATP"
  "\<not> machine_only SSTATUS" "\<not> machine_only SIE" "\<not> machine_only SIP" "\<not> machine_only MSTATUSH" "\<not> machine_only CYCLE"
  "\<not> machine_only INSTRET" "\<not> machine_only CYCLEH" "\<not> machine_only INSTRETH" "\<not> machine_only TIMEH"
  "machine_only MCYCLE" "machine_only MINSTRET"
  by (simp_all add: machine_only_def)

lemma machine_only_read:
  assumes "csr_xlen g = csr_xlen f" and "\<And>a. machine_only a \<Longrightarrow> csr_regs g a = csr_regs f a" and "machine_only a"
  shows "csr_read g a = csr_read f a"
  using assms by (auto simp: csr_read_def csr_read_value_def Let_def)

lemma machine_state_view: 
  assumes "machine_state f g"
  shows "machine_view f g"
proof -
  have held: "held_or_cut ST_HELD f g" and x: "csr_xlen g = csr_xlen f" and only: "\<And>a. machine_only a \<Longrightarrow> csr_regs g a = csr_regs f a"
    using assms by (auto simp: machine_state_def held_or_cut_def)
  have "bit (csr_read f MSTATUS) 17 \<longleftrightarrow> csr_regs f MSTATUS AND ST_MPRV \<noteq> 0" for f
    using and_exp_eq_0_iff_not_bit [of "csr_read f MSTATUS" 17] csr_read_status_low [of ST_MPRV f] by simp
  moreover have "take_bit n v AND k = take_bit n (v AND k)" for n and v k :: u64
    by (rule bit_word_eqI) (auto simp: bit_simps)
  ultimately show ?thesis
    unfolding machine_view_def
    using held_reads [OF held] held_high_read [OF held] machine_only_read [OF x only] assms x 
    by (simp add: machine_state_def ST_HELD_def csr_read_plain trunc_take_bit del: take_bit_and)
qed

lemma machine_state_refl [simp]: "machine_state f f"
  by (simp add: machine_state_def held_or_cut_refl)

lemma machine_state_trans: "machine_state f g \<Longrightarrow> machine_state g h \<Longrightarrow> machine_state f h"
  by (auto simp: machine_state_def intro: held_or_cut_trans)

lemma csr_force_view: "\<not> machine_only a \<Longrightarrow> a \<notin> {MSTATUS, MIE, MIP} \<Longrightarrow> machine_state f (csr_force a v f)"
  by (auto simp: machine_state_def held_or_cut_def)

lemma csr_write_view:
  assumes "csr_accessible a p True" and "p \<noteq> Machine"
  shows "machine_state f (csr_write a v f)"
proof -
  have acc: "\<not> machine_only a" "a \<notin> {MSTATUS, MIE, MIP, MCYCLEH, MINSTRETH, CYCLE, INSTRET, MSTATUSH}"
    using assms by (auto simp: csr_accessible_def machine_only_def Let_def priv_from_bits_def split: if_splits)
  then show ?thesis
    by (simp add: csr_write_def Let_def csr_force_view) 
      (auto simp: machine_state_def held_or_cut_def csr_masks ST_HELD_def word_ao_dist and.assoc)
qed

lemma force_status_state:
  assumes "s AND ST_HELD = csr_read f MSTATUS AND ST_HELD"
    and "s AND ST_MPRV = csr_read f MSTATUS AND ST_MPRV \<or> s AND ST_MPRV = 0"
  shows "machine_state f (csr_force MSTATUS s f)"
  using assms force_status_held [OF assms(1)] csr_read_status_low [of ST_MPRV f]
  by (auto simp: machine_state_def ST_HELD_def)

definition confined :: "cpu \<Rightarrow> cpu \<Rightarrow> bool" where
  "confined c c' \<longleftrightarrow>
     (priv_mode c \<noteq> Machine \<longrightarrow> priv_mode c' \<noteq> Machine \<and> machine_state (csrs c) (csrs c'))"

lemma dirty_fp_state: "machine_state (csrs c) (csrs (dirty_fp c))"
  unfolding dirty_fp_def Let_def
  by (simp, rule force_status_state) (simp_all add: word_ao_dist and.assoc ST_HELD_def)

lemma dirty_fp_priv [simp]: "priv_mode (dirty_fp c) = priv_mode c"
  by (simp add: dirty_fp_def Let_def)

lemma dirty_fp_after: "machine_state f (csrs c) \<Longrightarrow> machine_state f (csrs (dirty_fp c))"
  by (rule machine_state_trans [OF _ dirty_fp_state])

interpretation confinement: hart_contract confined
proof unfold_locales
  fix r v and c :: cpu show "confined c (wr r v c)" by (simp add: confined_def wr_def)
next
  fix r v and c :: cpu show "confined c (fw r v c)" by (simp add: confined_def fw_def dirty_fp_after)
next
  fix fl and c :: cpu show "confined c (set_fflags fl c)" 
    by (simp add: confined_def set_fflags_def dirty_fp_after csr_force_view Let_def)
next
  fix addr w and c :: cpu assume "\<not> csr_denied c addr True"
  then have "priv_mode c \<noteq> Machine \<Longrightarrow> machine_state (csrs c) (csr_write addr (trunc w (xbits c)) (csrs c))"
    by (auto simp: csr_denied_def intro: csr_write_view)
  then show "confined c (csr_commit addr w c)"
    by (simp add: confined_def csr_commit_def Let_def dirty_fp_after)
next
  fix c :: cpu assume "priv_mode c \<noteq> User"
  let ?f = "csrs c" let ?s = "csr_read ?f MSTATUS"
  show "confined c (trap_return False c)"
    unfolding confined_def trap_return_def Let_def
    by (auto intro!: force_status_state simp: word_ao_dist and.assoc ST_HELD_def)
qed (auto simp: confined_def tlb_fill_def flush_tlb_def intro: machine_state_trans)


section \<open>Confinement of user mode\<close>

text \<open>
  User code reaches the floating-point control word and the floating-point status of \<open>mstatus\<close>,
  whose summary bit is derived from it, and no other control register.
\<close>

definition user_view :: "csrfile \<Rightarrow> csrfile \<Rightarrow> bool" where
  "user_view f g \<longleftrightarrow>
     csr_xlen g = csr_xlen f
     \<and> (\<forall>a. a \<notin> {FFLAGS, FRM, FCSR, MSTATUS, SSTATUS, MSTATUSH} \<longrightarrow> csr_read g a = csr_read f a)
     \<and> csr_read g MSTATUS AND NOT 0x8000000000006000 = csr_read f MSTATUS AND NOT 0x8000000000006000
     \<and> csr_read g SSTATUS AND NOT 0x8000000000006000 = csr_read f SSTATUS AND NOT 0x8000000000006000
     \<and> (csr_xlen f = Rv32 \<longrightarrow>
          csr_read g MSTATUSH AND 0x7fffffff \<in> {csr_read f MSTATUSH AND 0x7fffffff, 0})"

definition user_state :: "csrfile \<Rightarrow> csrfile \<Rightarrow> bool" where
  "user_state f g \<longleftrightarrow>
     held_or_cut (NOT 0x8000000000006000) f g \<and> (\<forall>a. a \<notin> {FCSR, MSTATUS} \<longrightarrow> csr_regs g a = csr_regs f a)"

lemma sstatus_read: "csr_read f SSTATUS = csr_read f MSTATUS AND ST_S_VISIBLE"
  by (simp add: csr_read_def csr_read_value_def Let_def and.assoc csr_masks)

lemma user_state_view:
  assumes "user_state f g"
  shows "user_view f g"
proof -
  let ?k = "NOT 0x8000000000006000 :: u64"
  have held: "held_or_cut ?k f g" and x: "csr_xlen g = csr_xlen f" 
    and same: "\<And>a. a \<notin> {FCSR, MSTATUS} \<Longrightarrow> csr_regs g a = csr_regs f a"
    using assms by (auto simp: user_state_def held_or_cut_def)
  have m: "csr_read g MSTATUS AND ?k = csr_read f MSTATUS AND ?k" by (rule held_reads [OF held]) simp
  have s: "csr_read f SSTATUS AND ?k = (csr_read f MSTATUS AND ?k) AND ST_S_VISIBLE" for f
    by (simp add: sstatus_read and.assoc csr_masks)
  have "csr_read g a = csr_read f a" if "a \<notin> {FFLAGS, FRM, FCSR, MSTATUS, SSTATUS, MSTATUSH}" for a
    using that x same by (auto simp: csr_read_def csr_read_value_def Let_def)
  then show ?thesis
    unfolding user_view_def s m
    using held_high_read [OF held] x by simp
qed

lemma user_state_refl [simp]: "user_state f f"
  by (simp add: user_state_def held_or_cut_refl)

lemma user_state_trans: "user_state f g \<Longrightarrow> user_state g h \<Longrightarrow> user_state f h"
  by (auto simp: user_state_def intro: held_or_cut_trans)

definition user_confined :: "cpu \<Rightarrow> cpu \<Rightarrow> bool" where
  "user_confined c c' \<longleftrightarrow> (priv_mode c = User \<longrightarrow> priv_mode c' = User \<and> user_state (csrs c) (csrs c'))"

lemma pmp_level:
  "(0x3A0 \<le> a \<and> a \<le> 0x3AF) \<or> (0x3B0 \<le> a \<and> a \<le> 0x3EF) \<Longrightarrow> drop_bit 8 (a :: u16) = 3"
  by (auto simp: word_unat_eq_iff drop_bit_eq_div unat_div word_le_nat_alt)

lemma user_csrs:
  assumes "\<not> csr_denied c addr True" and "priv_mode c = User"
  shows "is_fp_csr addr"
  using assms pmp_level [of addr]
  by (auto simp: csr_denied_def csr_exists_def csr_accessible_def is_fp_csr_def Let_def priv_from_bits_def
      split: if_splits)

lemma dirty_fp_user: "user_state (csrs c) (csrs (dirty_fp c))"
proof -
  let ?k = "NOT 0x8000000000006000 :: u64"
  have "held_or_cut ?k (csrs c) (csrs (dirty_fp c))"
    unfolding dirty_fp_def Let_def by (simp, rule force_status_held) (simp_all add: word_ao_dist and.assoc)
  then show ?thesis by (simp add: user_state_def dirty_fp_def Let_def)
qed

lemma dirty_fp_user_after: "user_state f (csrs c) \<Longrightarrow> user_state f (csrs (dirty_fp c))"
  by (rule user_state_trans [OF _ dirty_fp_user])

lemma force_fcsr_user: "user_state f (csr_force FCSR v f)"
  by (simp add: user_state_def held_or_cut_def)

interpretation user: hart_contract user_confined
proof unfold_locales
  fix r v and c :: cpu show "user_confined c (fw r v c)"
    by (simp add: user_confined_def fw_def dirty_fp_user_after)
next
  fix fl :: u32 and c :: cpu
  show "user_confined c (set_fflags fl c)"
    by (simp add: user_confined_def set_fflags_def Let_def dirty_fp_user_after force_fcsr_user)
next
  fix addr w and c :: cpu assume "\<not> csr_denied c addr True"
  then have fp: "priv_mode c = User \<Longrightarrow> is_fp_csr addr" by (rule user_csrs)
  have "is_fp_csr addr \<Longrightarrow> user_state f (csr_write addr v f)" for v f
    by (auto simp: is_fp_csr_def csr_write_def Let_def force_fcsr_user)
  with fp show "user_confined c (csr_commit addr w c)"
    by (simp add: user_confined_def csr_commit_def Let_def dirty_fp_user_after)
qed (auto simp: user_confined_def wr_def tlb_fill_def flush_tlb_def intro: user_state_trans)

section \<open>Guarantees of the whole hart\<close>

interpretation firmware_privilege: firmware_contract no_more_privileged
  by unfold_locales (auto simp: no_more_privileged_def firmware_defs)

lemma trap_return_demotes:
  "priv_mode c \<noteq> User \<Longrightarrow> priv_mode (trap_return False c) \<noteq> Machine"
  by (simp add: trap_return_def Let_def)

text \<open>
  C1. Whatever an instruction is and however it ends, executing it never leaves the hart at a
  higher privilege than it started from: only taking a trap can raise the privilege.
\<close>

theorem instruction_never_raises_privilege:
  "priv_mode (snd (execute inst inst_pc next_pc c)) \<le> priv_mode c"
  using keepsD [OF privilege.keeps_execute, of c inst inst_pc next_pc]
  by (simp add: no_more_privileged_def)

text \<open>
  C2. A step that ends well at a higher privilege than it began with has taken a pending
  interrupt: no instruction, no firmware call and no retirement escalates.
\<close>

theorem privilege_rises_only_by_interrupt:
  assumes "step c = (Inr (), c')" and "priv_mode c < priv_mode c'"
  shows "\<exists>cs. pending_interrupt (begin_cycle c) = Some cs
           \<and> c' = take_trap cs 0 (pc (begin_cycle c)) True (begin_cycle c)"
proof (cases "pending_interrupt (begin_cycle c)")
  case None
  let ?c1 = "(begin_cycle c)\<lparr>wrote_instret := False\<rparr>"
  obtain r c2 where run: "fetch_execute ?c1 = (r, c2)" by fastforce
  then have low: "priv_mode c2 \<le> priv_mode c"
    using keepsD [OF privilege.keeps_fetch_execute, of ?c1] by (simp add: no_more_privileged_def)
  have fin: "finish_step (pc (begin_cycle c)) (r, c2) = (Inr (), c')"
    using assms(1) None run by (simp add: step_def)
  have "priv_mode (snd (handle_sbi c2)) \<le> priv_mode c2"
    using firmware_privilege.R_handle_sbi [of c2] by (simp add: no_more_privileged_def)
  then have "priv_mode c' \<le> priv_mode c2"
    using fin by (auto simp: finish_step_def retire_def Let_def split: sum.splits if_splits prod.splits)
  with low assms(2) show ?thesis by (meson leD order_trans)
next
  case (Some cs)
  then show ?thesis using assms(1) by (simp add: step_def Let_def)
qed

text \<open>A hart in user mode with the machine timer enabled and due.\<close>

definition timer_due :: cpu where
  "timer_due = (rv64 64)\<lparr>priv_mode := User, csrs := csr_force MIE MTIP (csr_new Rv64)\<rparr>"

lemmas timer_due_state = timer_due_def rv64_def cpu_new_def mem_new_def tick_defs sweep_due_def
  clint_default_def uart_default_def plic_default_def has_input_def is_interrupting_def set_level_def
  is_pending_def best_def pending_def upd_csrs_def upd_mem_def csr_new_def misa_def

lemma timer_due_interrupt: "pending_interrupt (begin_cycle timer_due) = Some MACHINE_TIMER"
  by (simp add: timer_due_state Let_def pending_interrupt_def csr_read_def csr_read_value_def
      csr_status_def ORDER_def int_enabled_def)

lemma timer_due_undelegated: "csr_read (csrs (begin_cycle timer_due)) MIDELEG = 0"
  by (simp add: timer_due_state Let_def csr_read_def csr_read_value_def)

theorem privilege_rises_only_by_interrupt_witness:
  "priv_mode timer_due < priv_mode (snd (step timer_due))
   \<and> (\<exists>cs. pending_interrupt (begin_cycle timer_due) = Some cs)"
proof -
  obtain c' where run: "step timer_due = (Inr (), c')" and priv: "priv_mode c' = Machine"
    by (simp add: step_def timer_due_interrupt take_trap_def to_supervisor_def timer_due_undelegated
        shr64_def enter_machine_def Let_def)
  show ?thesis
    using privilege_rises_only_by_interrupt [OF run] priv run
    by (simp add: timer_due_interrupt) (simp add: timer_due_def)
qed

text \<open>
  C3. Below machine mode, fetching and executing any instruction leaves the hart below machine
  mode, and machine-mode software reads the same in every register that is its own. Of \<open>mstatus\<close> only
  SIE, SPIE, SPP, FS, SUM, MXR and the derived SD can change, and MPRV can be cleared, not set; of
  \<open>mie\<close> only the supervisor's bits, of \<open>mip\<close> only SSIP. On RV32 the other bits of \<open>mstatush\<close> stay, or
  are all cleared: that is a defect of the program, stated in \<^verbatim>\<open>Divergences\<close>.
\<close>

theorem supervisor_code_is_confined:
  assumes "priv_mode c \<noteq> Machine"
  shows "priv_mode (snd (fetch_execute c)) \<noteq> Machine
         \<and> machine_view (csrs c) (csrs (snd (fetch_execute c)))"
  using assms keepsD [OF confinement.keeps_fetch_execute, of c] by (simp add: confined_def machine_state_view)

theorem supervisor_code_is_confined_witness:
  "priv_mode (boot_supervisor 0x80200000 0 0 (rv64 64)) = Supervisor
   \<and> csr_read (csrs (snd (fetch_execute (boot_supervisor 0x80200000 0 0 (rv64 64))))) MEDELEG = 0xb1ff"
proof -
  let ?c = "boot_supervisor 0x80200000 0 0 (rv64 64)"
  have "priv_mode ?c = Supervisor" "csr_read (csrs ?c) MEDELEG = 0xb1ff" "machine_only MEDELEG"
    by (simp_all add: boot_supervisor_def Let_def rv64_def cpu_new_def csr_new_def csr_read_def csr_read_value_def
        machine_only_def)
  then show ?thesis using supervisor_code_is_confined [of ?c] by (simp add: machine_view_def)
qed

text \<open>
  C4. In user mode, an instruction leaves the hart in user mode, and every control register reads as
  before but \<open>fcsr\<close> with its two views, the FS field of \<open>mstatus\<close> and \<open>sstatus\<close> with the SD bit derived
  from it, and \<open>mstatush\<close> on RV32, whose bits below SD stay or are all cleared by the same defect.
\<close>

theorem user_code_is_confined:
  assumes "priv_mode c = User"
  shows "priv_mode (snd (fetch_execute c)) = User \<and> user_view (csrs c) (csrs (snd (fetch_execute c)))"
  using assms keepsD [OF user.keeps_fetch_execute, of c] by (simp add: user_confined_def user_state_view)

theorem user_code_is_confined_witness:
  "priv_mode ((rv64 64)\<lparr>priv_mode := User\<rparr>) = User
   \<and> csr_read (csrs (snd (fetch_execute ((rv64 64)\<lparr>priv_mode := User\<rparr>)))) MISA = 0x800000000014112d"
proof -
  let ?c = "(rv64 64)\<lparr>priv_mode := User\<rparr>"
  have "csr_read (csrs ?c) MISA = 0x800000000014112d"
    by (simp add: rv64_def cpu_new_def csr_new_def csr_read_def csr_read_value_def misa_def Let_def)
  then show ?thesis
    using user_code_is_confined [of ?c] by (simp add: user_view_def)
qed

text \<open>
  C21. However long a program runs, register zero holds zero, whatever the width and the firmware
  layer; and on RV32 without the firmware layer every integer register holds a value below 2 to the
  32. With the layer that fails: its error values are wider, as \<^verbatim>\<open>Divergences\<close> states.
\<close>

theorem run_keeps_registers_canonical:
  assumes "regs c 0 = 0" and "xlen c = Rv32 \<and> \<not> sbi c \<Longrightarrow> \<forall>r. regs c r < 2 ^ 32"
  shows "regs (snd (run n c)) 0 = 0
         \<and> (xlen c = Rv32 \<and> \<not> sbi c \<longrightarrow> (\<forall>r. regs (snd (run n c)) r < 2 ^ 32))"
proof -
  have word: "canonical d \<longleftrightarrow> (\<forall>r. regs d r < 2 ^ 32)" if "xlen d = Rv32" for d
    using that by (simp add: canonical_def xbits_def trunc_take_bit word_unat_eq_iff word_less_nat_alt
        unsigned_take_bit_eq take_bit_nat_eq_self_iff)
  show ?thesis
    using assms machine.R_run [of c n] canonical.R_run [of c n] word [of c] word [of "snd (run n c)"]
    by (auto simp: keeps_canonical_def same_machine_def)
qed

theorem run_keeps_registers_canonical_witness:
  "regs (snd (run 100 (rv32 1024))) 0 = 0 \<and> regs (snd (run 100 (rv32 1024))) 2 < 2 ^ 32"
proof -
  have "regs (rv32 1024) 0 = 0" "\<forall>r. regs (rv32 1024) r < 2 ^ 32" "xlen (rv32 1024) = Rv32" "\<not> sbi (rv32 1024)"
    by (simp_all add: rv32_def cpu_new_def)
  then show ?thesis
    using run_keeps_registers_canonical [of "rv32 1024" 100] by blast
qed

text \<open>
  No run changes the register width, the firmware layer, the size of the DRAM, the address of
  \<open>tohost\<close> or register zero, and the CSR file keeps the hart's width.
\<close>

theorem run_keeps_machine:
  "same_machine c (snd (run n c))"
  by (rule machine.R_run)

end
