(* ===== verification/Rounding.thy ===== *)
theory Rounding
  imports Fpu Complex_Main
begin

text \<open>
  What rounding means, and that \<open>round_pack\<close> does it. The reference is over the real numbers:
  \<open>fmag\<close> and \<open>fval\<close> give the number a bit pattern stands for, \<open>rounds_to\<close> says that a pattern and
  its flags are a real number correctly rounded in a rounding mode, on the grid of the format around it.
  \<open>round_pack_rounds\<close> is the refinement, \<open>rounds_to_rounded\<close> the check of the reference itself: against
  every number of the format, the one chosen is that which the mode prefers.
\<close>

section \<open>Powers of two\<close>

abbreviation p2 :: "int \<Rightarrow> real" where "p2 k \<equiv> 2 powi k"

lemma p2_simps [simp]: "p2 k > 0" "p2 k \<ge> 0" "p2 k \<noteq> 0" "\<not> p2 k < 0"
  by (simp_all add: zero_less_power_int not_less)

lemma p2_add: "p2 (a + b) = p2 a * p2 b"
  by (simp add: power_int_add)

lemma p2_diff: "p2 (a - b) = p2 a / p2 b"
  by (simp add: power_int_diff)

lemma p2_nat: "p2 (int n) = 2 ^ n"
  by simp

lemma p2_shift: "k \<le> j \<Longrightarrow> p2 j = 2 ^ nat (j - k) * p2 k"
proof -
  assume "k \<le> j"
  then have "p2 j = p2 (int (nat (j - k)) + k)" by simp
  then show ?thesis by (simp only: p2_add p2_nat)
qed

lemma p2_le_iff [simp]: "p2 a \<le> p2 b \<longleftrightarrow> a \<le> b"
  using power_int_strict_increasing [of b a "2::real"] power_int_increasing [of a b "2::real"] by force

lemma p2_less_iff [simp]: "p2 a < p2 b \<longleftrightarrow> a < b"
  using p2_le_iff [of b a] by (simp only: not_le [symmetric])

lemma floor_log2: "p2 n \<le> v \<Longrightarrow> v < p2 (n + 1) \<Longrightarrow> \<lfloor>log 2 v\<rfloor> = n"
proof -
  assume v: "p2 n \<le> v" "v < p2 (n + 1)"
  then have "0 < v" by (smt (verit) p2_simps(1))
  moreover have "p2 k = 2 powr real_of_int k" for k by (simp add: powr_real_of_int')
  ultimately show ?thesis
    using v by (simp add: floor_eq_iff le_log_iff log_less_iff)
qed

section \<open>The reference\<close>

definition ffield :: "fmt \<Rightarrow> u64 \<Rightarrow> nat" where
  "ffield f x = unat (take_bit (exp_bits f) (drop_bit (fmt_sig f) x))"

definition ffrac :: "fmt \<Rightarrow> u64 \<Rightarrow> nat" where
  "ffrac f x = unat (take_bit (fmt_sig f) x)"

definition fneg :: "fmt \<Rightarrow> u64 \<Rightarrow> bool" where
  "fneg f x = bit x (fmt_bits f - 1)"

definition ffinite :: "fmt \<Rightarrow> u64 \<Rightarrow> bool" where
  "ffinite f x \<longleftrightarrow> ffield f x < 2 ^ exp_bits f - 1"

definition fmag :: "fmt \<Rightarrow> u64 \<Rightarrow> real" where
  "fmag f x =
     (if ffield f x = 0 then ffrac f x * p2 (min_e f)
      else (2 ^ fmt_sig f + ffrac f x) * p2 (int (ffield f x) - bias f - int (fmt_sig f)))"

definition round_at :: "rm \<Rightarrow> bool \<Rightarrow> real \<Rightarrow> int" where
  "round_at r sign x =
     (case r of
        Rtz \<Rightarrow> \<lfloor>x\<rfloor>
      | Rdn \<Rightarrow> if sign then \<lceil>x\<rceil> else \<lfloor>x\<rfloor>
      | Rup \<Rightarrow> if sign then \<lfloor>x\<rfloor> else \<lceil>x\<rceil>
      | Rmm \<Rightarrow> \<lfloor>x + 1/2\<rfloor>
      | Rne \<Rightarrow> if frac x = 1/2 then 2 * ((\<lfloor>x\<rfloor> + 1) div 2) else \<lfloor>x + 1/2\<rfloor>)"

definition ulp_exponent :: "fmt \<Rightarrow> real \<Rightarrow> int" where
  "ulp_exponent f v = max (\<lfloor>log 2 v\<rfloor> - int (fmt_sig f)) (min_e f)"

definition rounds_to :: "fmt \<Rightarrow> rm \<Rightarrow> bool \<Rightarrow> real \<Rightarrow> u64 \<times> u32 \<Rightarrow> bool" where
  "rounds_to f r sign v out \<longleftrightarrow>
     (let k = ulp_exponent f v; q = round_at r sign (v / p2 k); w = q * p2 k
      in if w \<ge> p2 (bias f + 1)
         then out = (if overflow_to_inf r sign then finf f sign else max_finite f sign, OF OR NX)
         else ffinite f (fst out) \<and> fneg f (fst out) = sign \<and> fmag f (fst out) = w
              \<and> fst out AND fmt_mask f = fst out
              \<and> snd out = (if w = v then 0 else if q < 2 ^ fmt_sig f then NX OR UF else NX))"

section \<open>Guard and sticky\<close>

definition splits :: "real \<Rightarrow> nat \<Rightarrow> bool \<Rightarrow> bool \<Rightarrow> bool" where
  "splits x q guard sticky \<longleftrightarrow>
     real q \<le> x \<and> x < real q + 1 \<and> (guard \<longleftrightarrow> x \<ge> real q + 1/2)
     \<and> (sticky \<longleftrightarrow> x \<noteq> real q \<and> x \<noteq> real q + 1/2)"

lemma splits_inexact: "splits x (unat q) guard sticky \<Longrightarrow> (guard \<or> sticky) = (x \<noteq> real (unat q))"
  by (auto simp: splits_def)

lemma odd_word: "(q :: u128) AND 1 = 1 \<longleftrightarrow> odd (unat q)"
proof -
  have "odd q \<longleftrightarrow> odd (unat q)" by (metis bit_0 bit_unsigned_iff exp_eq_0_imp_not_bit len_gt_0 possible_bit_0)
  then show ?thesis by (simp add: and_one_eq odd_iff_mod_2_eq_one)
qed

lemma splits_rounds:
  assumes "splits x n guard sticky" and n: "n = unat q"
  shows "round_at r sign x = int n + of_bool (rounds_up r sign q guard sticky)"
proof -
  have fl: "\<lfloor>x\<rfloor> = int n" using assms by (simp add: splits_def floor_eq_iff)
  have ce: "\<lceil>x\<rceil> = int n + of_bool (guard \<or> sticky)"
    using assms by (auto simp: splits_def ceiling_eq_iff)
  have half: "\<lfloor>x + 1/2\<rfloor> = int n + of_bool guard" using assms by (auto simp: splits_def floor_eq_iff)
  have tie: "frac x = 1/2 \<longleftrightarrow> guard \<and> \<not> sticky"
    using assms by (auto simp: splits_def frac_def fl)
  have even: "2 * ((int n + 1) div 2) = int n + of_bool (odd n)" by (cases "even n") (auto, presburger+)
  have up: "rounds_up Rne sign q guard sticky \<longleftrightarrow> guard \<and> (sticky \<or> odd n)"
    by (simp add: rounds_up_def odd_word n)
  show ?thesis
  proof (cases r)
    case Rne
    then show ?thesis unfolding Rne up round_at_def rm.case fl half tie even by auto
  qed (auto simp: round_at_def rounds_up_def fl ce half)
qed

lemma rounds_up_exact:
  "splits x n guard sticky \<Longrightarrow> real (n + of_bool (rounds_up r sign q guard sticky)) \<noteq> x \<longleftrightarrow> guard \<or> sticky"
  by (cases r) (auto simp: rounds_up_def splits_def)

lemma splits_exact: "splits (real q) q False False"
  by (simp add: splits_def)

lemma splits_nat:
  assumes "d > 0"
  shows "splits (real M / 2 ^ d) (M div 2 ^ d) (bit M (d - 1)) (M mod 2 ^ (d - 1) \<noteq> 0)"
proof -
  obtain c where d: "d = Suc c" using assms by (cases d) auto
  define h where "h = (2::nat) ^ c"
  have h: "h > 0" by (simp add: h_def)
  define a b r where "a = M div (2 * h)" and "b = M div h mod 2" and "r = M mod h"
  have M: "M = a * (2 * h) + b * h + r" and b: "b < 2" and r: "r < h"
    using h by (simp_all add: a_def b_def r_def div_mult2_eq mult.commute [of 2])
       (metis (no_types, lifting) add.commute add_mult_distrib2 div_mod_decomp mult.assoc mult.commute)
  have x: "real M / 2 ^ d = a + (b * h + r) / (2 * h)"
    using h by (simp add: d h_def M field_simps)
  have "bit M c = (b = 1)" by (simp add: bit_iff_odd b_def h_def odd_iff_mod_2_eq_one)
  moreover have "M div 2 ^ d = a" by (simp add: d a_def h_def)
  moreover have "b = 0 \<or> b = 1" using b by auto
  ultimately show ?thesis
    using r h unfolding splits_def x
    by (auto simp: d r_def [symmetric] h_def [symmetric] field_simps)
qed

lemma bit_unat: "bit (unat (w :: 'a::len word)) k \<longleftrightarrow> bit w k"
  by (auto simp: bit_unsigned_iff dest: bit_imp_possible_bit)

lemma unat_take_bit_eq: "unat (take_bit k (w :: 'a::len word)) = unat w mod 2 ^ k"
  by (simp only: unsigned_take_bit_eq) (simp only: take_bit_eq_mod)

lemma unat_drop_bit_div: "unat (drop_bit k (w :: 'a::len word)) = unat w div 2 ^ k"
  by (simp only: unat_drop_bit_eq) (simp only: drop_bit_eq_div)

lemma split_at_splits:
  assumes "d > 0" and "unat m < 2 ^ 127" and "m \<noteq> 0" and run: "split_at m d = (q, guard, sticky)"
  shows "splits (real (unat m) / 2 ^ d) (unat q) guard sticky"
proof (cases "d \<ge> 128")
  case True
  have "real (unat m) < 2 ^ 127" using assms(2) by (metis of_nat_less_iff of_nat_power of_nat_numeral)
  also have "(2::real) ^ 127 * 2 = 2 ^ 128" by simp
  moreover have "(2::real) ^ 128 \<le> 2 ^ d" using True by (intro power_increasing) auto
  ultimately have "real (unat m) * 2 < 2 ^ d" by linarith
  moreover have "0 < real (unat m)" using assms(3) by (metis gr0I of_nat_0_less_iff unat_eq_zero)
  moreover have "q = 0" "\<not> guard" "sticky" using run True by (auto simp: split_at_def)
  ultimately show ?thesis by (simp add: splits_def field_simps)
next
  case False
  then have "q = drop_bit d m" "guard \<longleftrightarrow> bit m (d - 1)" "sticky \<longleftrightarrow> take_bit (d - 1) m \<noteq> 0"
    using run assms(1) unfolding split_at_def Let_def and_mask_take_bit
    by (auto simp: min_def bit_iff_odd_drop_bit [symmetric] and_one_eq take_bit_drop_bit
          bit_take_bit_iff odd_iff_mod_2_eq_one [symmetric])
  moreover have "take_bit (d - 1) m \<noteq> 0 \<longleftrightarrow> unat m mod 2 ^ (d - 1) \<noteq> 0"
    by (simp only: unat_take_bit_eq [symmetric] unat_0_iff)
  ultimately show ?thesis
    using splits_nat [OF assms(1), of "unat m"] by (simp only: unat_drop_bit_div bit_unat)
qed


section \<open>Packing\<close>

definition fmt_ok :: "fmt \<Rightarrow> bool" where
  "fmt_ok f \<longleftrightarrow> f = fmt_S \<or> f = fmt_D"

lemma fmt_facts:
  assumes "fmt_ok f"
  shows "fmt_bits f = fmt_sig f + exp_bits f + 1" "fmt_sig f \<ge> 2" "exp_bits f \<ge> 2" "fmt_bits f \<le> 64"
    "max_field f = mask (exp_bits f)" "sig_mask f = mask (fmt_sig f)" "fmt_mask f = mask (fmt_bits f)" "fmt_sig f \<le> 52"
    "2 * bias f + 1 = 2 ^ exp_bits f - 1" "bias f > 0" "sign_mask f = push_bit (fmt_bits f - 1) 1"
    "quiet_bit f = push_bit (fmt_sig f - 1) 1" "exp_bits f \<le> 11" "fmt_sig f + exp_bits f \<le> 63"
  using assms
  by (auto simp: fmt_ok_def fmt_S_def fmt_D_def exp_bits_def bias_def max_field_def sig_mask_def fmt_mask_def
    sign_mask_def quiet_bit_def mask_eq_exp_minus_1)

lemma of_nat_bits:
  assumes "n < 2 ^ k" and "k < 64"
  shows "unat (of_nat n :: u64) = n" and "bit (of_nat n :: u64) j \<Longrightarrow> j < k"
proof -
  have n: "n < 2 ^ 64" using assms power_strict_increasing [of k 64 "2::nat"] by linarith
  then show u: "unat (of_nat n :: u64) = n" by (simp add: unat_of_nat)
  have "unat (of_nat (2 ^ k) :: u64) = 2 ^ k"
    unfolding unat_of_nat using power_strict_increasing [OF assms(2), of "2::nat"] by simp
  then have "unat ((2::u64) ^ k) = 2 ^ k" by simp
  then have "(of_nat n :: u64) < 2 ^ k" using assms(1) u by (simp add: word_less_nat_alt)
  then show "bit (of_nat n :: u64) j \<Longrightarrow> j < k" using assms(2) bit_less_exp [of "of_nat n :: u64" k j] by simp
qed

lemma packed:
  fixes n w s f
  assumes f: "fmt_ok f" and n: "n < 2 ^ exp_bits f" and w: "w < 2 ^ fmt_sig f"
  defines "x \<equiv> fzero f s OR push_bit (fmt_sig f) (of_nat n) OR (of_nat w :: u64)"
  shows "ffield f x = n" and "ffrac f x = w" and "fneg f x = s" and "x AND fmt_mask f = x"
proof -
  note facts = fmt_facts [OF f]
  have lt: "exp_bits f < 64" "fmt_sig f < 64" using facts by auto
  note un = of_nat_bits(1) [OF n lt(1)] of_nat_bits(1) [OF w lt(2)]
  have x: "bit x k \<longleftrightarrow> s \<and> k = fmt_sig f + exp_bits f \<or> k \<ge> fmt_sig f \<and> k < fmt_sig f + exp_bits f \<and> bit (of_nat n :: u64) (k - fmt_sig f)
      \<or> k < fmt_sig f \<and> bit (of_nat w :: u64) k" if "k < 64" for k
    using that of_nat_bits(2) [OF n lt(1), of "k - fmt_sig f"] of_nat_bits(2) [OF w lt(2), of k] facts
    by (auto simp: x_def fzero_def bit_simps)
  have "take_bit (exp_bits f) (drop_bit (fmt_sig f) x) = of_nat n"
  proof (rule bit_word_eqI)
    fix k assume "k < LENGTH(64)"
    then show "bit (take_bit (exp_bits f) (drop_bit (fmt_sig f) x)) k = bit (of_nat n :: u64) k"
      using of_nat_bits(2) [OF n lt(1), of k] facts x [of "fmt_sig f + k"] by (auto simp: bit_take_bit_iff bit_drop_bit_eq)
  qed
  then show "ffield f x = n" by (simp add: ffield_def un)
  have "take_bit (fmt_sig f) x = of_nat w"
  proof (rule bit_word_eqI)
    fix k assume "k < LENGTH(64)"
    then show "bit (take_bit (fmt_sig f) x) k = bit (of_nat w :: u64) k"
      using of_nat_bits(2) [OF w lt(2), of k] facts x [of k] by (auto simp: bit_take_bit_iff)
  qed
  then show "ffrac f x = w" by (simp add: ffrac_def un)
  show "fneg f x = s" using x [of "fmt_sig f + exp_bits f"] facts by (auto simp: fneg_def)
  show "x AND fmt_mask f = x"
  proof (rule bit_word_eqI)
    fix k assume "k < LENGTH(64)"
    then show "bit (x AND fmt_mask f) k = bit x k"
      using x [of k] facts by (auto simp: bit_and_iff bit_mask_iff)
  qed
qed


section \<open>The significand before packing\<close>

lemma nat_len_bounds: "n \<noteq> 0 \<Longrightarrow> 2 ^ (nat_len n - 1) \<le> n \<and> n < 2 ^ nat_len n \<and> nat_len n > 0"
proof (induction n rule: nat_len.induct)
  case (1 n)
  show ?case
  proof (cases "n div 2 = 0")
    case True
    then have "n = 1" using 1 by auto
    then show ?thesis by (simp add: nat_len.simps)
  next
    case False
    then have IH: "2 ^ (nat_len (n div 2) - 1) \<le> n div 2 \<and> n div 2 < 2 ^ nat_len (n div 2) \<and> nat_len (n div 2) > 0"
      using 1 by simp
    obtain k where k: "nat_len (n div 2) = Suc k" using IH by (cases "nat_len (n div 2)") auto
    have "2 ^ k \<le> n div 2" "n div 2 < 2 * 2 ^ k" using IH k by auto
    then have "2 * 2 ^ k \<le> n" "n < 2 * (2 * 2 ^ k)" by linarith+
    then show ?thesis using 1 k by (simp add: nat_len.simps [of n])
  qed
qed

lemma bit_len_bounds:
  assumes "m \<noteq> 0"
  shows "p2 (int (bit_len m) - 1) \<le> unat m" and "unat m < p2 (int (bit_len m))" and "bit_len m > 0"
proof -
  have n: "2 ^ (bit_len m - 1) \<le> unat m" "unat m < 2 ^ bit_len m" "bit_len m > 0"
    using nat_len_bounds [of "unat m"] assms by (auto simp: bit_len_def unat_0_iff)
  then have "int (bit_len m) - 1 = int (bit_len m - 1)" by simp
  then show "p2 (int (bit_len m) - 1) \<le> unat m" using n(1) by (metis of_nat_le_iff of_nat_numeral of_nat_power power_int_of_nat)
  show "unat m < p2 (int (bit_len m))" using n(2) by (metis of_nat_less_iff of_nat_numeral of_nat_power power_int_of_nat)
  show "bit_len m > 0" by (fact n)
qed

lemma log_value: "m \<noteq> 0 \<Longrightarrow> \<lfloor>log 2 (unat m * p2 e)\<rfloor> = int (bit_len m) - 1 + e"
  using bit_len_bounds [of m] by (intro floor_log2) (simp_all add: p2_add p2_diff)

lemma ulp_range:
  fixes m :: u128 and e f
  assumes "m \<noteq> 0"
  defines "v \<equiv> unat m * p2 e"
  shows "v / p2 (ulp_exponent f v) < 2 ^ (fmt_sig f + 1)"
    and "ulp_exponent f v > min_e f \<Longrightarrow> 2 ^ fmt_sig f \<le> v / p2 (ulp_exponent f v)"
proof -
  let ?k = "ulp_exponent f v" and ?b = "int (bit_len m)"
  have k: "?k = max (?b - 1 + e - int (fmt_sig f)) (min_e f)"
    unfolding ulp_exponent_def v_def log_value [OF assms(1)] by simp
  have "v < p2 (?b + e)" using bit_len_bounds(2) [OF assms(1)] by (simp add: v_def p2_add)
  also have "\<dots> \<le> p2 (?k + int (fmt_sig f + 1))" by (simp add: k)
  finally show "v / p2 ?k < 2 ^ (fmt_sig f + 1)"
    by (simp only: p2_add p2_nat) (simp add: divide_less_eq mult.commute)
  assume "?k > min_e f"
  then have "?k + int (fmt_sig f) = ?b - 1 + e" by (auto simp: k)
  then have "p2 (?k + int (fmt_sig f)) \<le> v" using bit_len_bounds(1) [OF assms(1)] by (simp add: v_def p2_add)
  then show "2 ^ fmt_sig f \<le> v / p2 ?k"
    by (simp only: p2_add p2_nat) (simp add: le_divide_eq mult.commute)
qed

lemma significand_splits:
  fixes m :: u128 and e f
  assumes f: "fmt_ok f" and m: "m \<noteq> 0" "unat m < 2 ^ 127"
  defines "v \<equiv> unat m * p2 e"
  defines "k \<equiv> ulp_exponent f v"
  assumes run: "(if k - e \<le> 0 then (push_bit (nat (- (k - e))) m, False, False) else split_at m (nat (k - e))) = (q, guard, sticky)"
  shows "splits (v / p2 k) (unat q) guard sticky"
proof (cases "k - e \<le> 0")
  case True
  define d where "d = nat (e - k)"
  have x: "v / p2 k = real (unat m * 2 ^ d)"
    using True by (simp add: v_def d_def power_int_diff [symmetric] flip: p2_nat) (simp add: p2_diff)
  have "v / p2 k < 2 ^ (fmt_sig f + 1)" using ulp_range(1) [OF m(1)] by (simp add: v_def k_def)
  also have "\<dots> \<le> 2 ^ 128" using fmt_facts [OF f] by (intro power_increasing) auto
  finally have "unat m * 2 ^ d < 2 ^ 128" unfolding x by (metis of_nat_less_iff of_nat_numeral of_nat_power)
  then have "unat (push_bit d m) = unat m * 2 ^ d"
    by (simp only: unsigned_push_bit_eq) (simp add: push_bit_eq_mult take_bit_eq_mod)
  then show ?thesis
    using run True splits_exact [of "unat m * 2 ^ d"] by (simp add: x d_def)
next
  case False
  define d where "d = nat (k - e)"
  have "v / p2 k = real (unat m) / 2 ^ d"
    using False by (simp add: v_def d_def flip: p2_nat) (simp add: p2_diff)
  then show ?thesis using split_at_splits [of d m q guard sticky] m run False by (simp add: d_def)
qed

section \<open>The encoding of a rounded value\<close>

lemma field_range:
  fixes f q k
  assumes f: "fmt_ok f" and q: "q < 2 ^ (fmt_sig f + 1)" and k: "min_e f \<le> k" "q < 2 ^ fmt_sig f \<Longrightarrow> k = min_e f"
  defines "field \<equiv> (if 2 ^ fmt_sig f \<le> q then k + int (fmt_sig f) + bias f else 0)"
  shows "field \<ge> 0" and "field \<ge> 2 ^ exp_bits f - 1 \<longleftrightarrow> real q * p2 k \<ge> p2 (bias f + 1)"
    and "field = 0 \<longleftrightarrow> q < 2 ^ fmt_sig f"
proof -
  note facts = fmt_facts [OF f]
  show "field \<ge> 0" and "field = 0 \<longleftrightarrow> q < 2 ^ fmt_sig f"
    using k facts by (auto simp: field_def min_e_def not_le)
  show "field \<ge> 2 ^ exp_bits f - 1 \<longleftrightarrow> real q * p2 k \<ge> p2 (bias f + 1)"
  proof (cases "2 ^ fmt_sig f \<le> q")
    case True
    have lo: "2 ^ fmt_sig f * p2 k \<le> real q * p2 k"
      using True by (metis mult_right_mono of_nat_le_iff of_nat_numeral of_nat_power p2_simps(2))
    have hi: "real q * p2 k < 2 ^ (fmt_sig f + 1) * p2 k"
      using q by (metis mult_strict_right_mono of_nat_less_iff of_nat_numeral of_nat_power p2_simps(1))
    have *: "2 ^ fmt_sig f * p2 k = p2 (int (fmt_sig f) + k)" "2 ^ (fmt_sig f + 1) * p2 k = p2 (int (fmt_sig f) + k + 1)"
      by (simp_all add: p2_add)
    have "field \<ge> 2 ^ exp_bits f - 1 \<longleftrightarrow> int (fmt_sig f) + k \<ge> bias f + 1"
      using True facts(9) by (simp add: field_def) linarith
    moreover have "real q * p2 k \<ge> p2 (bias f + 1) \<longleftrightarrow> int (fmt_sig f) + k \<ge> bias f + 1"
    proof
      assume "p2 (bias f + 1) \<le> real q * p2 k"
      then have "p2 (bias f + 1) < p2 (int (fmt_sig f) + k + 1)" using hi unfolding *(2) by (rule le_less_trans)
      then show "int (fmt_sig f) + k \<ge> bias f + 1" by simp
    next
      assume "int (fmt_sig f) + k \<ge> bias f + 1"
      then have "p2 (bias f + 1) \<le> p2 (int (fmt_sig f) + k)" by simp
      then show "p2 (bias f + 1) \<le> real q * p2 k" using lo unfolding *(1) by (rule order_trans)
    qed
    ultimately show ?thesis by blast
  next
    case False
    then have "real q * p2 k < 2 ^ fmt_sig f * p2 k"
      by (metis mult_strict_right_mono not_le of_nat_less_iff of_nat_numeral of_nat_power p2_simps(1))
    also have "\<dots> = p2 (1 - bias f)" using False k by (simp add: min_e_def p2_diff p2_add)
    also have "\<dots> \<le> p2 (bias f + 1)" using facts by simp
    finally have "\<not> real q * p2 k \<ge> p2 (bias f + 1)" by simp
    moreover have "(2::int) ^ exp_bits f - 1 > 0" using facts(9,10) by linarith
    ultimately show ?thesis using False by (simp add: field_def)
  qed
qed

lemma encoded:
  fixes f q k s
  assumes f: "fmt_ok f" and q: "q < 2 ^ (fmt_sig f + 1)" and k: "min_e f \<le> k" "q < 2 ^ fmt_sig f \<Longrightarrow> k = min_e f"
  defines "field \<equiv> (if 2 ^ fmt_sig f \<le> q then k + int (fmt_sig f) + bias f else 0)"
  assumes fits: "field < 2 ^ exp_bits f - 1"
  defines "x \<equiv> fzero f s OR push_bit (fmt_sig f) (word_of_int field) OR (of_nat q AND sig_mask f)"
  shows "ffinite f x" and "fneg f x = s" and "fmag f x = real q * p2 k" and "x AND fmt_mask f = x"
proof -
  note facts = fmt_facts [OF f]
  note field = field_range [OF f q k, folded field_def]
  define n where "n = nat field"
  define w where "w = q mod 2 ^ fmt_sig f"
  have n: "n < 2 ^ exp_bits f - 1" "int n = field"
    using fits field(1) by (simp_all add: n_def nat_less_iff of_nat_diff)
  then have nn: "n < 2 ^ exp_bits f" by linarith
  have ww: "w < 2 ^ fmt_sig f" by (simp add: w_def)
  have "(of_nat q :: u64) AND sig_mask f = of_nat w"
    by (simp only: facts(6) take_bit_eq_mask [symmetric] take_bit_of_nat) (simp only: take_bit_eq_mod w_def)
  moreover have "(word_of_int field :: u64) = of_nat n" by (simp flip: n(2))
  ultimately have x: "x = fzero f s OR push_bit (fmt_sig f) (of_nat n) OR of_nat w" by (simp add: x_def)
  note p = packed [OF f nn ww, of s, folded x]
  show "ffinite f x" using n by (simp add: ffinite_def p)
  show "fneg f x = s" "x AND fmt_mask f = x" by (simp_all add: p)
  show "fmag f x = real q * p2 k"
  proof (cases "q < 2 ^ fmt_sig f")
    case True
    then have "n = 0" "w = q" "k = min_e f" using field(3) k(2) by (simp_all add: n_def w_def)
    then show ?thesis by (simp add: fmag_def p)
  next
    case False
    then have "n \<noteq> 0" using field n by auto
    moreover have "q = 2 ^ fmt_sig f + w" using False q by (simp add: w_def le_mod_geq not_less)
    moreover have "int n - bias f - int (fmt_sig f) = k" using False n by (simp add: field_def)
    ultimately show ?thesis by (simp add: fmag_def p)
  qed
qed


section \<open>round_pack rounds correctly\<close>

text \<open>Rounding up and the carry out of the significand: the value is kept, the significand fits.\<close>

lemma carry_out:
  fixes q0 :: u128 and up f k
  assumes f: "fmt_ok f" and q0: "unat q0 < 2 ^ (fmt_sig f + 1)"
  defines "Q \<equiv> unat q0 + of_bool up" and "q1 \<equiv> (if up then q0 + 1 else q0)"
  defines "carry \<equiv> drop_bit (fmt_sig f + 1) q1 \<noteq> 0"
  defines "q \<equiv> (if carry then drop_bit 1 q1 else q1)" and "e \<equiv> (if carry then k + 1 else k)"
  shows "unat q < 2 ^ (fmt_sig f + 1)" and "real (unat q) * p2 e = real Q * p2 k"
    and "unat q < 2 ^ fmt_sig f \<longleftrightarrow> Q < 2 ^ fmt_sig f" and "unat q < 2 ^ fmt_sig f \<Longrightarrow> e = k" and "k \<le> e"
proof -
  have "(2::nat) ^ (fmt_sig f + 1) \<le> 2 ^ 53" using fmt_facts [OF f] by (intro power_increasing) auto
  then have "unat q0 < 2 ^ 53" using q0 by linarith
  then have q1: "unat q1 = Q" by (simp add: q1_def Q_def unat_word_ariths)
  have Qle: "Q \<le> 2 ^ (fmt_sig f + 1)" using q0 by (simp add: Q_def)
  have carry: "carry \<longleftrightarrow> Q = 2 ^ (fmt_sig f + 1)"
  proof -
    have "carry \<longleftrightarrow> Q div 2 ^ (fmt_sig f + 1) \<noteq> 0"
      unfolding carry_def by (simp only: unat_0_iff [symmetric] unat_drop_bit_div q1)
    also have "\<dots> \<longleftrightarrow> Q \<ge> 2 ^ (fmt_sig f + 1)" by (simp add: div_eq_0_iff not_less)
    finally show ?thesis using Qle by auto
  qed
  have n: "unat q = (if carry then 2 ^ fmt_sig f else Q)"
  proof (cases carry)
    case True
    then have "unat q = Q div 2 ^ 1" by (simp only: q_def if_True unat_drop_bit_div q1)
    then show ?thesis using True carry by simp
  qed (simp add: q_def q1)
  show "unat q < 2 ^ (fmt_sig f + 1)" using Qle carry by (auto simp: n)
  show "unat q < 2 ^ fmt_sig f \<longleftrightarrow> Q < 2 ^ fmt_sig f" using carry by (auto simp: n)
  show "unat q < 2 ^ fmt_sig f \<Longrightarrow> e = k" by (auto simp: n e_def split: if_splits)
  show "k \<le> e" by (simp add: e_def)
  show "real (unat q) * p2 e = real Q * p2 k"
  proof (cases carry)
    case True
    then have "unat q = 2 ^ fmt_sig f" "Q = 2 ^ (fmt_sig f + 1)" "e = k + 1" using carry by (simp_all add: n e_def)
    then show ?thesis by (simp add: p2_add)
  next
    case False
    then have "unat q = Q" "e = k" by (simp_all add: n e_def)
    then show ?thesis by simp
  qed
qed

lemma max_field_nat: "fmt_ok f \<Longrightarrow> int (unat (max_field f)) = 2 ^ exp_bits f - 1"
  by (auto simp: fmt_ok_def fmt_S_def fmt_D_def max_field_def exp_bits_def)

text \<open>
  The stages of the routine: the significand splits at the place of the last digit, is rounded to
  \<open>Q\<close>, a carry shifts it to \<open>n\<close> at the exponent \<open>e'\<close>, and what is left is packing.
\<close>

definition out_field :: "fmt \<Rightarrow> nat \<Rightarrow> int \<Rightarrow> int" where
  "out_field f n e' = (if 2 ^ fmt_sig f \<le> n then e' + int (fmt_sig f) + bias f else 0)"

definition out_bits :: "fmt \<Rightarrow> bool \<Rightarrow> nat \<Rightarrow> int \<Rightarrow> u64" where
  "out_bits f s n e' =
     fzero f s OR push_bit (fmt_sig f) (word_of_int (out_field f n e')) OR (of_nat n AND sig_mask f)"

text \<open>The first stage: the significand cut at the unit in the last place, and its rounding.\<close>

lemma significand_rounded:
  fixes f m e r s
  assumes f: "fmt_ok f" and m: "m \<noteq> 0" "unat m < 2 ^ 127"
  defines "v \<equiv> unat m * p2 e"
  defines "k \<equiv> ulp_exponent f v"
  assumes run: "(if k - e \<le> 0 then (push_bit (nat (- (k - e))) m, False, False) else split_at m (nat (k - e)))
      = (q0, guard, sticky)"
  defines "Q \<equiv> unat q0 + of_bool (rounds_up r s q0 guard sticky)"
  shows "round_at r s (v / p2 k) = int Q" and "guard \<or> sticky \<longleftrightarrow> real Q * p2 k \<noteq> v"
    and "unat q0 < 2 ^ (fmt_sig f + 1)" and "k > min_e f \<Longrightarrow> 2 ^ fmt_sig f \<le> unat q0"
proof -
  define x where "x = v / p2 k"
  have sp: "splits x (unat q0) guard sticky"
    using significand_splits [OF f m run [unfolded k_def v_def]] by (simp only: x_def k_def v_def)
  show "round_at r s (v / p2 k) = int Q"
    using splits_rounds [OF sp HOL.refl] by (simp add: Q_def x_def [symmetric])
  have "v = x * p2 k" by (simp add: x_def)
  then have "real Q * p2 k \<noteq> v \<longleftrightarrow> real Q \<noteq> x" by simp
  also have "\<dots> \<longleftrightarrow> guard \<or> sticky"
    unfolding Q_def by (rule rounds_up_exact [OF sp])
  finally show "guard \<or> sticky \<longleftrightarrow> real Q * p2 k \<noteq> v" by simp
  have xr: "x < 2 ^ (fmt_sig f + 1)" "k > min_e f \<Longrightarrow> 2 ^ fmt_sig f \<le> x"
    using ulp_range [OF m(1), where e = e and f = f] by (simp_all only: x_def k_def v_def)
  have "real (unat q0) < real (2 ^ (fmt_sig f + 1))" using sp xr(1) by (simp add: splits_def)
  then show "unat q0 < 2 ^ (fmt_sig f + 1)" by (simp only: of_nat_less_iff)
  assume "k > min_e f"
  then have "real (2 ^ fmt_sig f) < real (unat q0 + 1)" using sp xr(2) by (simp add: splits_def)
  then show "2 ^ fmt_sig f \<le> unat q0" by (simp only: of_nat_less_iff)
qed

lemma round_pack_stages:
  fixes f m e r s
  assumes f: "fmt_ok f" and m: "m \<noteq> 0" "unat m < 2 ^ 127"
  defines "v \<equiv> unat m * p2 e"
  defines "k \<equiv> ulp_exponent f v"
  obtains Q n :: nat and e' inexact where "round_at r s (v / p2 k) = int Q" "inexact \<longleftrightarrow> real Q * p2 k \<noteq> v"
    "n < 2 ^ (fmt_sig f + 1)" "real n * p2 e' = real Q * p2 k" "n < 2 ^ fmt_sig f \<longleftrightarrow> Q < 2 ^ fmt_sig f"
    "min_e f \<le> e'" "n < 2 ^ fmt_sig f \<Longrightarrow> e' = min_e f"
    "round_pack f s m e r =
     (if n = 0 then (fzero f s, NX OR UF)
      else if out_field f n e' \<ge> 2 ^ exp_bits f - 1
        then ((if overflow_to_inf r s then finf f s else max_finite f s), OF OR NX)
      else (out_bits f s n e', if inexact then (if 2 ^ fmt_sig f \<le> n then NX else NX OR UF) else 0))"
proof -
  obtain q0 guard sticky where run: "(if k - e \<le> 0 then (push_bit (nat (- (k - e))) m, False, False) else split_at m (nat (k - e))) = (q0, guard, sticky)"
    by (metis prod_cases3)
  define up where "up = rounds_up r s q0 guard sticky"
  define Q where "Q = unat q0 + of_bool up"
  note run' = run [unfolded k_def v_def]
  note cut = significand_rounded(1,2) [OF f m run', where r = r and s = s, folded v_def, folded k_def up_def, folded Q_def]
    significand_rounded(3,4) [OF f m run', folded v_def, folded k_def]
  have kmin: "min_e f \<le> k" by (simp add: k_def ulp_exponent_def)
  have lsb: "max (int (bit_len m) - 1 + e - int (fmt_sig f)) (min_e f) = k"
    unfolding k_def ulp_exponent_def v_def log_value [OF m(1)] by simp
  define q1 where "q1 = (if up then q0 + 1 else q0)"
  define carry where "carry \<longleftrightarrow> drop_bit (fmt_sig f + 1) q1 \<noteq> 0"
  define q where "q = (if carry then drop_bit 1 q1 else q1)"
  define e' where "e' = (if carry then k + 1 else k)"
  define n where "n = unat q"
  have cy: "n < 2 ^ (fmt_sig f + 1)" "real n * p2 e' = real Q * p2 k" "n < 2 ^ fmt_sig f \<longleftrightarrow> Q < 2 ^ fmt_sig f"
      "n < 2 ^ fmt_sig f \<Longrightarrow> e' = k" "k \<le> e'"
    using carry_out(1,3) [OF f cut(3), of up] carry_out(2,4,5) [OF f cut(3), where up = up and k = k]
    unfolding n_def q_def e'_def carry_def q1_def Q_def by blast+
  have e'min: "min_e f \<le> e'" using kmin cy(5) by simp
  have sub: "e' = min_e f" if "n < 2 ^ fmt_sig f"
    using cy(4) [OF that] cy(3) that kmin cut(4) by (cases "k > min_e f") (auto simp: Q_def)
  have normal: "drop_bit (fmt_sig f) q \<noteq> 0 \<longleftrightarrow> 2 ^ fmt_sig f \<le> n"
    by (simp only: unat_0_iff [symmetric] unat_drop_bit_div n_def) (simp add: div_eq_0_iff not_less)
  have cast: "(ucast q :: u64) = of_nat n" by (simp add: n_def)
  have "q = 0 \<longleftrightarrow> n = 0" by (simp only: n_def unat_0_iff)
  then have pack: "round_pack f s m e r =
     (if n = 0 then (fzero f s, NX OR UF)
      else if out_field f n e' \<ge> 2 ^ exp_bits f - 1
        then ((if overflow_to_inf r s then finf f s else max_finite f s), OF OR NX)
      else (out_bits f s n e',
            if guard \<or> sticky then (if 2 ^ fmt_sig f \<le> n then NX else NX OR UF) else 0))"
    unfolding round_pack_def Let_def lsb run prod.case up_def [symmetric] q1_def [symmetric] carry_def [symmetric]
      q_def [symmetric] e'_def [symmetric] normal cast max_field_nat [OF f] out_bits_def out_field_def
    using m(1) by simp
  show thesis
    using that [OF cut(1,2) cy(1-3) e'min sub pack] .
qed

lemma round_pack_rounds:
  fixes f m e r s
  assumes f: "fmt_ok f" and m: "m \<noteq> 0" "unat m < 2 ^ 127"
  shows "rounds_to f r s (unat m * p2 e) (round_pack f s m e r)"
proof -
  note facts = fmt_facts [OF f]
  define v where "v = unat m * p2 e"
  define k where "k = ulp_exponent f v"
  define x where "x = v / p2 k"
  obtain Q n e' inexact where Q: "round_at r s x = int Q" and exact: "inexact \<longleftrightarrow> real Q * p2 k \<noteq> v"
    and n: "n < 2 ^ (fmt_sig f + 1)" and same: "real n * p2 e' = real Q * p2 k"
    and low: "n < 2 ^ fmt_sig f \<longleftrightarrow> Q < 2 ^ fmt_sig f" and e'min: "min_e f \<le> e'"
    and sub: "n < 2 ^ fmt_sig f \<Longrightarrow> e' = min_e f" and pack: "round_pack f s m e r =
     (if n = 0 then (fzero f s, NX OR UF)
      else if out_field f n e' \<ge> 2 ^ exp_bits f - 1
        then ((if overflow_to_inf r s then finf f s else max_finite f s), OF OR NX)
      else (out_bits f s n e', if inexact then (if 2 ^ fmt_sig f \<le> n then NX else NX OR UF) else 0))"
    by (rule round_pack_stages [OF f m, where r = r and s = s and e = e, folded v_def, folded k_def, folded x_def]) (rule that)
  note fr = field_range [OF f n e'min sub, folded out_field_def]
  show ?thesis
  proof (cases "out_field f n e' \<ge> 2 ^ exp_bits f - 1")
    case True
    then have "n \<noteq> 0" using fr(3) facts(9,10) by (cases "n = 0") auto
    moreover have "real_of_int (int Q) * p2 k \<ge> p2 (bias f + 1)" using True fr(2) same by simp
    ultimately show ?thesis
      using True unfolding rounds_to_def v_def [symmetric] k_def [symmetric] x_def [symmetric] Q Let_def pack by simp
  next
    case False
    then have small: "\<not> real_of_int (int Q) * p2 k \<ge> p2 (bias f + 1)" using fr(2) same by simp
    note enc = encoded [OF f n e'min sub, folded out_field_def, of s, folded out_bits_def]
    have fin: "ffinite f (out_bits f s n e')" "fneg f (out_bits f s n e') = s"
        "fmag f (out_bits f s n e') = real Q * p2 k" "out_bits f s n e' AND fmt_mask f = out_bits f s n e'"
      using enc False same by simp_all
    have "inexact" if "n = 0"
    proof -
      have "real (unat m) \<noteq> 0" using m(1) by (metis of_nat_eq_0_iff unat_0_iff)
      then show ?thesis using that same unfolding exact v_def by simp
    qed
    then have out: "round_pack f s m e r =
        (out_bits f s n e', if inexact then (if 2 ^ fmt_sig f \<le> n then NX else NX OR UF) else 0)"
      using False fr(3) by (cases "n = 0") (simp_all add: pack out_bits_def)
    have "int Q < 2 ^ fmt_sig f \<longleftrightarrow> n < 2 ^ fmt_sig f" using low by simp
    then show ?thesis
      unfolding rounds_to_def v_def [symmetric] k_def [symmetric] x_def [symmetric] Q Let_def out
      using small fin exact by (auto simp: not_le)
  qed
qed

section \<open>The numbers of the format around an exact value\<close>

lemma binade:
  assumes "v > 0"
  shows "p2 \<lfloor>log 2 v\<rfloor> \<le> v" and "v < p2 (\<lfloor>log 2 v\<rfloor> + 1)"
proof -
  have p: "p2 k = 2 powr real_of_int k" for k by (simp add: powr_real_of_int')
  show "p2 \<lfloor>log 2 v\<rfloor> \<le> v" using assms unfolding p by (simp flip: le_log_iff)
  have "log 2 v < real_of_int (\<lfloor>log 2 v\<rfloor> + 1)" by linarith
  then show "v < p2 (\<lfloor>log 2 v\<rfloor> + 1)" using assms unfolding p by (subst (asm) log_less_iff) auto
qed

lemma ulp_scaled:
  fixes v f
  assumes "v > 0"
  shows "v / p2 (ulp_exponent f v) < 2 ^ (fmt_sig f + 1)"
    and "ulp_exponent f v > min_e f \<Longrightarrow> 2 ^ fmt_sig f \<le> v / p2 (ulp_exponent f v)"
proof -
  let ?k = "ulp_exponent f v"
  have "p2 (\<lfloor>log 2 v\<rfloor> + 1) \<le> p2 (?k + int (fmt_sig f + 1))" by (simp add: ulp_exponent_def)
  then have "v < p2 (?k + int (fmt_sig f + 1))" using binade(2) [OF assms] by (rule less_le_trans [rotated])
  then show "v / p2 ?k < 2 ^ (fmt_sig f + 1)"
    by (simp only: p2_add p2_nat) (simp add: divide_less_eq mult.commute)
  assume "?k > min_e f"
  then have "p2 (?k + int (fmt_sig f)) \<le> v" using binade(1) [OF assms] by (auto simp: ulp_exponent_def)
  then show "2 ^ fmt_sig f \<le> v / p2 ?k"
    by (simp only: p2_add p2_nat) (simp add: le_divide_eq mult.commute)
qed

lemma fmag_form:
  assumes f: "fmt_ok f" and y: "ffinite f y"
  shows "\<exists>n j. fmag f y = real n * p2 j \<and> n < 2 ^ (fmt_sig f + 1) \<and> min_e f \<le> j \<and> j + int (fmt_sig f) \<le> bias f"
proof -
  note facts = fmt_facts [OF f]
  have w: "ffrac f y < 2 ^ fmt_sig f" by (simp add: ffrac_def unat_take_bit_less)
  have "int (ffield f y) < int (2 ^ exp_bits f - 1)" using y unfolding ffinite_def by (simp only: of_nat_less_iff)
  then have "int (ffield f y) < 2 ^ exp_bits f - 1" by (simp add: of_nat_diff)
  then have top: "int (ffield f y) \<le> 2 * bias f" using facts(9) by linarith
  show ?thesis
  proof (cases "ffield f y = 0")
    case True
    then show ?thesis using w facts
      by (intro exI [of _ "ffrac f y"] exI [of _ "min_e f"]) (auto simp: fmag_def min_e_def)
  next
    case False
    then show ?thesis using w top
      by (intro exI [of _ "2 ^ fmt_sig f + ffrac f y"] exI [of _ "int (ffield f y) - bias f - int (fmt_sig f)"])
         (auto simp: fmag_def min_e_def)
  qed
qed

text \<open>A number of the format lies on the grid of \<open>v\<close>, or below the binade of \<open>v\<close>.\<close>

lemma on_grid:
  assumes f: "fmt_ok f" and y: "ffinite f y" and v: "v > 0"
  defines "k \<equiv> ulp_exponent f v"
  shows "fmag f y / p2 k \<in> \<int> \<or> fmag f y / p2 k < 2 ^ fmt_sig f \<and> 2 ^ fmt_sig f \<le> \<lfloor>v / p2 k\<rfloor>"
proof -
  obtain n j where y': "fmag f y = real n * p2 j" "n < 2 ^ (fmt_sig f + 1)" "min_e f \<le> j"
    using fmag_form [OF f y] by auto
  show ?thesis
  proof (cases "k \<le> j")
    case True
    then have "fmag f y / p2 k = real (n * 2 ^ nat (j - k))"
      by (simp add: y'(1) flip: p2_nat) (simp add: p2_diff)
    then show ?thesis by simp
  next
    case False
    then have "2 ^ fmt_sig f \<le> v / p2 k" using ulp_scaled(2) [OF v] y'(3) by (simp add: k_def)
    then have "2 ^ fmt_sig f \<le> \<lfloor>v / p2 k\<rfloor>" by (simp add: le_floor_iff)
    moreover have "fmag f y / p2 k < 2 ^ fmt_sig f"
    proof -
      have "fmag f y < 2 ^ (fmt_sig f + 1) * p2 j"
        using y'(1,2) by (metis mult_strict_right_mono of_nat_less_iff of_nat_numeral of_nat_power p2_simps(1))
      also have "\<dots> \<le> 2 ^ (fmt_sig f + 1) * p2 (k - 1)" using False by (intro mult_left_mono) auto
      finally show ?thesis by (simp add: p2_diff divide_less_eq)
    qed
    ultimately show ?thesis by blast
  qed
qed

lemma round_at_between: "round_at r s x = \<lfloor>x\<rfloor> \<or> round_at r s x = \<lceil>x\<rceil>"
proof -
  have "\<lfloor>x + 1/2\<rfloor> = \<lfloor>x\<rfloor> \<or> \<lfloor>x + 1/2\<rfloor> = \<lceil>x\<rceil>" by linarith
  moreover have "2 * ((\<lfloor>x\<rfloor> + 1) div 2) = \<lfloor>x\<rfloor> \<or> 2 * ((\<lfloor>x\<rfloor> + 1) div 2) = \<lceil>x\<rceil>" if "frac x = 1/2"
  proof -
    have "\<lceil>x\<rceil> = \<lfloor>x\<rfloor> + 1" using that unfolding frac_def by linarith
    then show ?thesis by presburger
  qed
  ultimately show ?thesis by (cases r) (auto simp: round_at_def)
qed

lemma round_at_nearest:
  assumes "r = Rne \<or> r = Rmm"
  shows "\<bar>real_of_int (round_at r s x) - x\<bar> \<le> \<bar>real_of_int n - x\<bar>"
proof (cases "r = Rne \<and> frac x = 1/2")
  case True
  then have "round_at r s x = \<lfloor>x\<rfloor> \<or> round_at r s x = \<lfloor>x\<rfloor> + 1"
    by (simp add: round_at_def) presburger
  moreover have "x = real_of_int \<lfloor>x\<rfloor> + 1/2" using True by (simp add: frac_def)
  ultimately have "\<bar>real_of_int (round_at r s x) - x\<bar> = 1/2" by auto
  moreover have "\<bar>real_of_int n - x\<bar> \<ge> 1/2"
    using \<open>x = real_of_int \<lfloor>x\<rfloor> + 1/2\<close> by (cases "n \<le> \<lfloor>x\<rfloor>") linarith+
  ultimately show ?thesis by simp
next
  case False
  then have q: "round_at r s x = \<lfloor>x + 1/2\<rfloor>" using assms by (auto simp: round_at_def)
  have half: "\<bar>real_of_int \<lfloor>x + 1/2\<rfloor> - x\<bar> \<le> 1/2" by linarith
  show ?thesis
  proof (cases "n = \<lfloor>x + 1/2\<rfloor>")
    case False
    then have "n + 1 \<le> \<lfloor>x + 1/2\<rfloor> \<or> \<lfloor>x + 1/2\<rfloor> + 1 \<le> n" by linarith
    then have "\<bar>real_of_int n - x\<bar> \<ge> 1/2" by linarith
    then show ?thesis using half q by simp
  qed (simp add: q)
qed

section \<open>Correct rounding without a grid\<close>

text \<open>
  The same property without reference to the routine's own terms: the largest number of a format,
  the exact values that overflow in a mode, and for the others which number of the format is chosen.
\<close>

definition largest :: "fmt \<Rightarrow> real" where
  "largest f = (2 ^ (fmt_sig f + 1) - 1) * p2 (bias f - int (fmt_sig f))"

definition to_nearest :: "rm \<Rightarrow> bool" where
  "to_nearest r \<longleftrightarrow> r = Rne \<or> r = Rmm"

definition away :: "rm \<Rightarrow> bool \<Rightarrow> bool" where
  "away r negative \<longleftrightarrow> r = Rup \<and> \<not> negative \<or> r = Rdn \<and> negative"

text \<open>
  Rounding to nearest overflows from half a unit above the largest number on, rounding away from zero
  just above it, rounding towards zero from the next power of two on.
\<close>

definition overflows :: "fmt \<Rightarrow> rm \<Rightarrow> bool \<Rightarrow> real \<Rightarrow> bool" where
  "overflows f r negative v \<longleftrightarrow>
     (if to_nearest r then largest f + p2 (bias f - int (fmt_sig f) - 1) \<le> v
      else if away r negative then largest f < v
      else p2 (bias f + 1) \<le> v)"

text \<open>
  \<open>b\<close> is preferred to \<open>y\<close> for the exact magnitude \<open>v\<close>: to nearest it is closer, or of two equally close
  numbers the one with an even significand or the larger one; away from zero it is the smaller of those
  not below \<open>v\<close>, towards zero the larger of those not above.
\<close>

definition preferred :: "fmt \<Rightarrow> rm \<Rightarrow> bool \<Rightarrow> real \<Rightarrow> u64 \<Rightarrow> u64 \<Rightarrow> bool" where
  "preferred f r negative v b y \<longleftrightarrow>
     (if to_nearest r then
        fmag f y = fmag f b \<or> \<bar>fmag f b - v\<bar> < \<bar>fmag f y - v\<bar>
        \<or> \<bar>fmag f b - v\<bar> = \<bar>fmag f y - v\<bar> \<and> (if r = Rne then \<not> bit b 0 else fmag f y < fmag f b)
      else if away r negative then v \<le> fmag f b \<and> (v \<le> fmag f y \<longrightarrow> fmag f b \<le> fmag f y)
      else fmag f b \<le> v \<and> (fmag f y \<le> v \<longrightarrow> fmag f y \<le> fmag f b))"

text \<open>Rounding to an integer, per mode.\<close>

lemma round_at_modes:
  "to_nearest r \<Longrightarrow> frac x \<noteq> 1/2 \<Longrightarrow> round_at r s x = \<lfloor>x + 1/2\<rfloor>"
  "r = Rne \<Longrightarrow> frac x = 1/2 \<Longrightarrow> round_at r s x = 2 * ((\<lfloor>x\<rfloor> + 1) div 2)"
  "r = Rmm \<Longrightarrow> round_at r s x = \<lfloor>x + 1/2\<rfloor>"
  "away r s \<Longrightarrow> round_at r s x = \<lceil>x\<rceil>"
  "\<not> to_nearest r \<Longrightarrow> \<not> away r s \<Longrightarrow> round_at r s x = \<lfloor>x\<rfloor>"
  by (cases r; auto simp: round_at_def to_nearest_def away_def)+

lemma round_at_reaches:
  fixes N :: int
  assumes "even N"
  shows "N \<le> round_at r s x \<longleftrightarrow>
     (if to_nearest r then real_of_int N - 1/2 \<le> x else if away r s then real_of_int N - 1 < x else real_of_int N \<le> x)"
proof (cases "to_nearest r")
  case True
  show ?thesis
  proof (cases "r = Rne \<and> frac x = 1/2")
    case True
    then have x: "x = real_of_int \<lfloor>x\<rfloor> + 1/2" by (simp add: frac_def)
    have "N \<le> 2 * ((\<lfloor>x\<rfloor> + 1) div 2) \<longleftrightarrow> N \<le> \<lfloor>x\<rfloor> + 1" using assms by presburger
    also have "\<dots> \<longleftrightarrow> real_of_int N - 1/2 \<le> x" using x by linarith
    finally show ?thesis using True round_at_modes(2) by (simp add: to_nearest_def)
  next
    case False
    then have "round_at r s x = \<lfloor>x + 1/2\<rfloor>" using \<open>to_nearest r\<close> round_at_modes(1,3) by (auto simp: to_nearest_def)
    then show ?thesis using \<open>to_nearest r\<close> by (simp add: le_floor_iff algebra_simps)
  qed
next
  case False
  then show ?thesis
    by (cases "away r s") (auto simp: round_at_modes le_floor_iff, linarith+)
qed

lemma overflow_iff:
  assumes f: "fmt_ok f" and v: "v > 0"
  defines "k \<equiv> ulp_exponent f v"
  shows "p2 (bias f + 1) \<le> real_of_int (round_at r s (v / p2 k)) * p2 k \<longleftrightarrow> overflows f r s v"
proof -
  note facts = fmt_facts [OF f]
  let ?x = "v / p2 k" and ?N = "2 ^ (fmt_sig f + 1) :: int" and ?u = "bias f - int (fmt_sig f)"
  have v_x: "v = ?x * p2 k" by simp
  have mult_le_cancel_right_pos: "a * p \<le> b * p \<longleftrightarrow> a \<le> b" and mult_less_cancel_right_pos: "a * p < b * p \<longleftrightarrow> a < b"
    if "p > 0" for a b p :: real using that by simp_all
  have unit: "p2 ?u > 0" "largest f = (real_of_int ?N - 1) * p2 ?u" "p2 (bias f + 1) = real_of_int ?N * p2 ?u"
    "p2 (?u - 1) = 1/2 * p2 ?u"
  proof -
    have "p2 (bias f + 1) = p2 (?u + int (fmt_sig f + 1))" by simp
    then show "p2 (bias f + 1) = real_of_int ?N * p2 ?u" by (simp only: p2_add p2_nat) simp
    have "p2 (?u - 1) = p2 ?u / p2 1" by (rule p2_diff)
    then show "p2 (?u - 1) = 1/2 * p2 ?u" by simp
  qed (simp_all add: largest_def)
  consider (below) "v < p2 (bias f)" | (top) "p2 (bias f) \<le> v" "v < p2 (bias f + 1)" | (above) "p2 (bias f + 1) \<le> v" by linarith
  then show ?thesis
  proof cases
    case below
    have "\<lfloor>log 2 v\<rfloor> < bias f" using binade(1) [OF v] below by (meson le_less_trans p2_less_iff)
    then have k: "k \<le> bias f" using facts by (simp add: k_def ulp_exponent_def min_e_def)
    then have whole: "p2 (bias f) = real_of_int (2 ^ nat (bias f - k)) * p2 k"
      using p2_shift [OF k] by simp
    then have "?x < real_of_int (2 ^ nat (bias f - k))" using below by (simp add: divide_less_eq)
    then have "round_at r s ?x \<le> 2 ^ nat (bias f - k)"
      using round_at_between [of r s ?x] by (smt (verit) ceiling_le_iff floor_le_ceiling)
    then have "real_of_int (round_at r s ?x) * p2 k \<le> p2 (bias f)"
      unfolding whole by (intro mult_right_mono) (simp_all only: of_int_le_iff p2_simps)
    then have no: "real_of_int (round_at r s ?x) * p2 k < p2 (bias f + 1)" by (smt (verit) p2_less_iff)
    have "p2 (bias f) = p2 (int (fmt_sig f) + ?u)" by simp
    also have "\<dots> = 2 ^ fmt_sig f * p2 ?u" by (simp only: p2_add p2_nat)
    also have "\<dots> \<le> largest f" unfolding unit(2) by (intro mult_right_mono) simp_all
    finally have "v < largest f" using below by simp
    moreover have "v < p2 (bias f + 1)" using below by (smt (verit) p2_less_iff)
    moreover have "v < largest f + p2 (?u - 1)" using calculation(1) by (smt (verit) p2_simps(1))
    ultimately have "\<not> overflows f r s v" by (simp add: overflows_def)
    then show ?thesis using no by simp
  next
    case top
    have k: "k = ?u" using floor_log2 [OF top] facts by (simp add: k_def ulp_exponent_def min_e_def)
    have "p2 (bias f + 1) \<le> real_of_int (round_at r s ?x) * p2 k \<longleftrightarrow> ?N \<le> round_at r s ?x"
      unfolding unit(3) k by (simp only: mult_le_cancel_right_pos [OF unit(1)] of_int_le_iff)
    also have "\<dots> \<longleftrightarrow> overflows f r s v"
    proof -
      have even: "even ?N" by simp
      have "overflows f r s v \<longleftrightarrow>
          (if to_nearest r then (real_of_int ?N - 1/2) * p2 ?u \<le> ?x * p2 ?u
           else if away r s then (real_of_int ?N - 1) * p2 ?u < ?x * p2 ?u else real_of_int ?N * p2 ?u \<le> ?x * p2 ?u)"
        unfolding overflows_def unit(2-4) unfolding k [symmetric] v_x [symmetric] by (simp add: algebra_simps)
      then show ?thesis
        unfolding round_at_reaches [OF even] by (simp only: mult_le_cancel_right_pos [OF unit(1)] mult_less_cancel_right_pos [OF unit(1)])
    qed
    finally show ?thesis .
  next
    case above
    have log: "bias f + 1 \<le> \<lfloor>log 2 v\<rfloor>" using above binade(2) [OF v] by (smt (verit) p2_less_iff)
    then have k: "k = \<lfloor>log 2 v\<rfloor> - int (fmt_sig f)" using facts by (simp add: k_def ulp_exponent_def min_e_def)
    have "p2 (fmt_sig f + k) \<le> v" using binade(1) [OF v] k by simp
    then have "real_of_int (2 ^ fmt_sig f) \<le> ?x" by (simp add: le_divide_eq p2_add)
    then have "2 ^ fmt_sig f \<le> round_at r s ?x"
      using round_at_between [of r s ?x] by (smt (verit) le_floor_iff floor_le_ceiling)
    then have "real_of_int (2 ^ fmt_sig f) * p2 k \<le> real_of_int (round_at r s ?x) * p2 k"
      by (intro mult_right_mono) (simp_all only: of_int_le_iff p2_simps)
    moreover have "real_of_int (2 ^ fmt_sig f) * p2 k = p2 (fmt_sig f + k)" by (simp add: p2_add)
    moreover have "p2 (bias f + 1) \<le> p2 (fmt_sig f + k)" using log k by simp
    ultimately have "p2 (bias f + 1) \<le> real_of_int (round_at r s ?x) * p2 k" by linarith
    moreover have "largest f + p2 (?u - 1) \<le> p2 (bias f + 1)" "largest f < p2 (bias f + 1)"
      unfolding unit(2-4) by (simp_all add: left_diff_distrib)
    ultimately show ?thesis using above by (auto simp: overflows_def)
  qed
qed


text \<open>The last bit of a pattern is that of its significand on the grid of the exact value.\<close>

lemma significand_parity:
  assumes f: "fmt_ok f" and b: "ffinite f b" and v: "v > 0"
  defines "k \<equiv> ulp_exponent f v"
  assumes w: "fmag f b = real_of_int q * p2 k" and q: "q \<le> 2 ^ (fmt_sig f + 1)" "min_e f < k \<Longrightarrow> 2 ^ fmt_sig f \<le> q"
  shows "bit b 0 \<longleftrightarrow> odd q"
proof -
  note facts = fmt_facts [OF f]
  have sig: "even ((2::nat) ^ fmt_sig f)" using facts(2) by simp
  have frac: "ffrac f b < 2 ^ fmt_sig f" by (simp add: ffrac_def unat_take_bit_less)
  have low: "bit b 0 \<longleftrightarrow> odd (ffrac f b)"
    using facts(2) by (simp add: ffrac_def bit_unat bit_take_bit_iff flip: bit_0)
  obtain n j where n: "fmag f b = real n * p2 j" "odd n \<longleftrightarrow> bit b 0" "n < 2 ^ (fmt_sig f + 1)" "min_e f \<le> j"
    "min_e f < j \<longrightarrow> 2 ^ fmt_sig f \<le> n" "ffrac f b = 0 \<or> n \<noteq> 2 ^ fmt_sig f"
  proof (cases "ffield f b = 0")
    case True
    then show ?thesis
      using that [of "ffrac f b" "min_e f"] low frac by (auto simp: fmag_def)
  next
    case False
    then show ?thesis
      using that [of "2 ^ fmt_sig f + ffrac f b" "int (ffield f b) - bias f - int (fmt_sig f)"] low frac sig
      by (auto simp: fmag_def min_e_def)
  qed
  have eq: "real n * p2 j = real_of_int q * p2 k" using n(1) w by simp
  consider "j = k" | "k < j" | "j < k" by linarith
  then show ?thesis
  proof cases
    case 1
    then have "int n = q" using eq by simp
    then show ?thesis using n(2) by auto
  next
    case 2
    have "real n * 2 ^ nat (j - k) = real_of_int q" using eq p2_shift [of k j] 2 by simp
    then have "real_of_int (int n * 2 ^ nat (j - k)) = real_of_int q" by simp
    then have qn: "q = int n * 2 ^ nat (j - k)" by (simp only: of_int_eq_iff)
    then have "even q" using 2 by simp
    have "2 ^ fmt_sig f \<le> n" using n(5) 2 by (simp add: k_def ulp_exponent_def)
    moreover have "n \<le> 2 ^ fmt_sig f"
    proof -
      have "(2::int) ^ 1 \<le> 2 ^ nat (j - k)" using 2 by (intro power_increasing) auto
      then have "int n * 2 \<le> q" unfolding qn by (intro mult_left_mono) auto
      moreover have "q \<le> 2 * 2 ^ fmt_sig f" using q(1) by simp
      ultimately have "int n \<le> int (2 ^ fmt_sig f)" unfolding of_nat_power of_nat_numeral by linarith
      then show ?thesis by (simp only: of_nat_le_iff)
    qed
    ultimately have "n = 2 ^ fmt_sig f" by simp
    then show ?thesis using n(2) sig \<open>even q\<close> by simp
  next
    case 3
    then have "2 ^ fmt_sig f \<le> q" using q(2) n(4) by simp
    have "real n = real_of_int q * 2 ^ nat (k - j)" using eq p2_shift [of j k] 3 by simp
    then have "real_of_int (int n) = real_of_int (q * 2 ^ nat (k - j))" by simp
    then have nq: "int n = q * 2 ^ nat (k - j)" by (simp only: of_int_eq_iff)
    have "(2::int) ^ 1 \<le> 2 ^ nat (k - j)" using 3 by (intro power_increasing) auto
    then have "2 ^ fmt_sig f * 2 \<le> int n" unfolding nq using \<open>2 ^ fmt_sig f \<le> q\<close> order_trans [OF zero_le_power \<open>2 ^ fmt_sig f \<le> q\<close>]
      by (intro mult_mono) auto
    then show ?thesis using n(3) by (simp flip: of_nat_less_iff [where 'a = int])
  qed
qed


lemma chosen_on_grid:
  assumes f: "fmt_ok f" and v: "v > 0" and b: "ffinite f b" and y: "ffinite f y"
  defines "k \<equiv> ulp_exponent f v"
  assumes w: "fmag f b = real_of_int (round_at r s (v / p2 k)) * p2 k"
  shows "preferred f r s v b y"
proof -
  define x where "x = v / p2 k"
  define q where "q = round_at r s x"
  define Y where "Y = fmag f y / p2 k"
  have scaled: "v = x * p2 k" "fmag f y = Y * p2 k" "fmag f b = q * p2 k" by (simp_all add: x_def Y_def w q_def)
  have grid: "(\<exists>n. Y = real_of_int n) \<or> Y < real_of_int \<lfloor>x\<rfloor>"
  proof -
    have "Y < 2 ^ fmt_sig f \<Longrightarrow> 2 ^ fmt_sig f \<le> \<lfloor>x\<rfloor> \<Longrightarrow> Y < real_of_int \<lfloor>x\<rfloor>"
      by (metis less_le_trans of_int_le_iff of_int_numeral of_int_power)
    then show ?thesis using on_grid [OF f y v] by (auto simp: Y_def x_def k_def Ints_def)
  qed
  have dist: "\<bar>a * p2 k - b * p2 k\<bar> = \<bar>a - b\<bar> * p2 k" for a b by (simp add: abs_mult flip: left_diff_distrib)
  consider (near) "to_nearest r" | (up) "\<not> to_nearest r" "away r s" | (down) "\<not> to_nearest r" "\<not> away r s" by blast
  then show ?thesis
  proof cases
    case near
    then have r: "r = Rne \<or> r = Rmm" by (simp add: to_nearest_def)
    have "Y = q \<or> \<bar>q - x\<bar> < \<bar>Y - x\<bar> \<or> \<bar>q - x\<bar> = \<bar>Y - x\<bar> \<and> (if r = Rne then even q else Y < q)"
    proof (cases "\<exists>n. Y = real_of_int n")
      case True
      then obtain n where n: "Y = real_of_int n" by blast
      have le: "\<bar>q - x\<bar> \<le> \<bar>Y - x\<bar>" using round_at_nearest [OF r] by (simp add: q_def n)
      have q: "q = \<lfloor>x\<rfloor> \<or> q = \<lceil>x\<rceil>" using round_at_between by (simp add: q_def)
      show ?thesis
      proof (cases "Y = q \<or> \<bar>q - x\<bar> < \<bar>Y - x\<bar>")
        case False
        then have tie: "\<bar>q - x\<bar> = \<bar>Y - x\<bar>" "n \<noteq> q" using le n by auto
        then have half: "frac x = 1/2" and pair: "{n, q} = {\<lfloor>x\<rfloor>, \<lfloor>x\<rfloor> + 1}"
        proof -
          have "(n = \<lfloor>x\<rfloor> \<and> q = \<lfloor>x\<rfloor> + 1 \<or> n = \<lfloor>x\<rfloor> + 1 \<and> q = \<lfloor>x\<rfloor>) \<and> x = real_of_int \<lfloor>x\<rfloor> + 1/2"
          proof -
            have mid: "2 * x = real_of_int n + real_of_int q" using tie unfolding n by (auto simp: abs_if split: if_splits)
            from q show ?thesis
            proof
              assume "q = \<lfloor>x\<rfloor>"
              then have "n = q + 1" using tie(2) mid by linarith
              then show ?thesis using mid \<open>q = \<lfloor>x\<rfloor>\<close> by simp
            next
              assume "q = \<lceil>x\<rceil>"
              then have "q = n + 1" using tie(2) mid by linarith
              moreover from this have "\<lfloor>x\<rfloor> = n" using mid by linarith
              ultimately show ?thesis using mid by simp
            qed
          qed
          then show "frac x = 1/2" "{n, q} = {\<lfloor>x\<rfloor>, \<lfloor>x\<rfloor> + 1}" by (auto simp: frac_def)
        qed
        show ?thesis
          using r
        proof
          assume "r = Rne"
          then have "even q" using round_at_modes(2) half by (simp add: q_def)
          then show ?thesis using tie \<open>r = Rne\<close> by simp
        next
          assume "r = Rmm"
          then have "q = \<lfloor>x + 1/2\<rfloor>" by (simp add: q_def round_at_modes)
          then have "q = \<lfloor>x\<rfloor> + 1" using half unfolding frac_def by linarith
          then have "n = \<lfloor>x\<rfloor>" using pair by auto
          then show ?thesis using tie \<open>r = Rmm\<close> n \<open>q = \<lfloor>x\<rfloor> + 1\<close> by simp
        qed
      qed auto
    next
      case False
      then have "Y < real_of_int \<lfloor>x\<rfloor>" using grid by blast
      then have "\<bar>real_of_int \<lfloor>x\<rfloor> - x\<bar> < \<bar>Y - x\<bar>" by linarith
      moreover have "\<bar>q - x\<bar> \<le> \<bar>real_of_int \<lfloor>x\<rfloor> - x\<bar>" unfolding q_def by (rule round_at_nearest [OF r])
      ultimately show ?thesis by linarith
    qed
    moreover have "bit b 0 \<longleftrightarrow> odd q"
    proof (rule significand_parity [OF f b v])
      show "fmag f b = real_of_int q * p2 (ulp_exponent f v)" using scaled(3) by (simp add: k_def)
      have "x < real_of_int (2 ^ (fmt_sig f + 1))" using ulp_scaled(1) [OF v] by (simp add: x_def k_def)
      then show "q \<le> 2 ^ (fmt_sig f + 1)" using round_at_between [of r s x] unfolding q_def by (smt (verit) ceiling_le_iff floor_le_ceiling)
      assume "min_e f < ulp_exponent f v"
      then have "real_of_int (2 ^ fmt_sig f) \<le> x" using ulp_scaled(2) [OF v] by (simp add: x_def k_def)
      then show "2 ^ fmt_sig f \<le> q" using round_at_between [of r s x] unfolding q_def by (smt (verit) le_floor_iff floor_le_ceiling)
    qed
    ultimately show ?thesis
      using near by (auto simp: preferred_def scaled dist)
  next
    case up
    then have "q = \<lceil>x\<rceil>" by (simp add: q_def round_at_modes)
    then have "x \<le> q" "x \<le> Y \<longrightarrow> q \<le> Y"
      using grid by (auto simp: ceiling_le_iff, linarith)
    then show ?thesis using up by (simp add: preferred_def scaled)
  next
    case down
    then have "q = \<lfloor>x\<rfloor>" by (simp add: q_def round_at_modes)
    then have "q \<le> x" "Y \<le> x \<longrightarrow> Y \<le> q"
      using grid by (auto simp: le_floor_iff)
    then show ?thesis using down by (simp add: preferred_def scaled)
  qed
qed


lemma special_patterns:
  assumes f: "fmt_ok f"
  shows "ffield f (finf f s) = 2 ^ exp_bits f - 1" "ffrac f (finf f s) = 0" "fneg f (finf f s) = s"
    "finf f s AND fmt_mask f = finf f s"
    "ffinite f (max_finite f s)" "fmag f (max_finite f s) = largest f" "fneg f (max_finite f s) = s"
    "max_finite f s AND fmt_mask f = max_finite f s"
proof -
  note facts = fmt_facts [OF f]
  have ones: "(of_nat (2 ^ n - 1) :: u64) = push_bit n 1 - 1" for n
    by (simp add: of_nat_diff push_bit_eq_mult)
  have big: "(4::nat) \<le> 2 ^ exp_bits f" "(1::nat) \<le> 2 ^ fmt_sig f"
    using power_increasing [OF facts(3), of "2::nat"] by simp_all
  have "(2::nat) ^ exp_bits f - 2 = (2 ^ exp_bits f - 1) - 1" by simp
  then have field: "(of_nat (2 ^ exp_bits f - 2) :: u64) = max_field f - 1"
    using big by (simp only: of_nat_diff [of 1] ones max_field_def) (simp add: ones)
  have inf: "finf f s = fzero f s OR push_bit (fmt_sig f) (of_nat (2 ^ exp_bits f - 1)) OR of_nat 0"
    unfolding ones by (simp add: finf_def fzero_def max_field_def or.commute)
  have top: "max_finite f s = fzero f s OR push_bit (fmt_sig f) (of_nat (2 ^ exp_bits f - 2)) OR of_nat (2 ^ fmt_sig f - 1)"
    unfolding field ones by (simp add: max_finite_def sig_mask_def ac_simps)
  show "ffield f (finf f s) = 2 ^ exp_bits f - 1" "ffrac f (finf f s) = 0" "fneg f (finf f s) = s"
    "finf f s AND fmt_mask f = finf f s"
    unfolding inf by (intro packed [OF f]; simp)+
  have max: "ffield f (max_finite f s) = 2 ^ exp_bits f - 2" "ffrac f (max_finite f s) = 2 ^ fmt_sig f - 1"
    "fneg f (max_finite f s) = s" "max_finite f s AND fmt_mask f = max_finite f s"
    unfolding top by (intro packed [OF f]; simp)+
  show "fneg f (max_finite f s) = s" "max_finite f s AND fmt_mask f = max_finite f s" by (fact max(3), fact max(4))
  show "ffinite f (max_finite f s)" using max(1) big by (simp add: ffinite_def)
  have "int (2 ^ exp_bits f - 2) - bias f = bias f" using facts(9) big by (simp add: of_nat_diff)
  moreover have "real (2 ^ fmt_sig f + ffrac f (max_finite f s)) = 2 ^ (fmt_sig f + 1) - 1"
    unfolding max(2) of_nat_add of_nat_diff [OF big(2)] by simp
  moreover have "ffield f (max_finite f s) \<noteq> 0" using max(1) big by simp
  ultimately show "fmag f (max_finite f s) = largest f"
    using max(1) by (simp only: fmag_def largest_def if_False)
qed

text \<open>
  The whole of it: sign and width of the pattern, the result of an overflow, and the flags. The underflow
  flag follows the code's rule, an inexact result in the subnormal range; \<^verbatim>\<open>Divergences\<close> shows where
  that differs from the rule its comment names.
\<close>

definition rounded :: "fmt \<Rightarrow> rm \<Rightarrow> bool \<Rightarrow> real \<Rightarrow> u64 \<times> u32 \<Rightarrow> u64 \<Rightarrow> bool" where
  "rounded f r negative v out y \<longleftrightarrow>
     (let b = fst out
      in fneg f b = negative \<and> b AND fmt_mask f = b
        \<and> (if overflows f r negative v
           then snd out = OF OR NX
             \<and> (if to_nearest r \<or> away r negative then ffield f b = 2 ^ exp_bits f - 1 \<and> ffrac f b = 0
                else ffinite f b \<and> fmag f b = largest f)
           else ffinite f b \<and> preferred f r negative v b y
             \<and> snd out = (if fmag f b = v then 0 else if fmag f b < p2 (1 - bias f) then NX OR UF else NX)))"

lemma rounds_to_rounded:
  assumes f: "fmt_ok f" and v: "v > 0" and out: "rounds_to f r s v out" and y: "ffinite f y"
  shows "rounded f r s v out y"
proof -
  define k where "k = ulp_exponent f v"
  define q where "q = round_at r s (v / p2 k)"
  note spec = out [unfolded rounds_to_def Let_def k_def [symmetric] q_def [symmetric]]
  have over: "p2 (bias f + 1) \<le> real_of_int q * p2 k \<longleftrightarrow> overflows f r s v"
    unfolding q_def k_def by (rule overflow_iff [OF f v])
  have inf: "overflow_to_inf r s \<longleftrightarrow> to_nearest r \<or> away r s"
    by (cases r) (simp_all add: overflow_to_inf_def to_nearest_def away_def)
  show ?thesis
  proof (cases "overflows f r s v")
    case True
    then have "out = (if to_nearest r \<or> away r s then finf f s else max_finite f s, OF OR NX)"
      using spec over by (simp add: inf)
    then show ?thesis
      using True special_patterns [OF f, of s] by (simp add: rounded_def)
  next
    case False
    then have b: "ffinite f (fst out)" "fneg f (fst out) = s" "fmag f (fst out) = real_of_int q * p2 k"
      "fst out AND fmt_mask f = fst out" "snd out = (if real_of_int q * p2 k = v then 0 else if q < 2 ^ fmt_sig f then NX OR UF else NX)"
      using spec over by simp_all
    have "q < 2 ^ fmt_sig f \<longleftrightarrow> fmag f (fst out) < p2 (1 - bias f)"
    proof (cases "min_e f < k")
      case True
      have "real_of_int (2 ^ fmt_sig f) \<le> v / p2 k" using ulp_scaled(2) [OF v] True by (simp add: k_def)
      then have "2 ^ fmt_sig f \<le> q" using round_at_between [of r s "v / p2 k"] unfolding q_def by (smt (verit) le_floor_iff floor_le_ceiling)
      moreover have "p2 (1 - bias f) \<le> p2 (int (fmt_sig f) + k)" using True by (simp add: min_e_def)
      moreover have "p2 (int (fmt_sig f) + k) = real_of_int (2 ^ fmt_sig f) * p2 k" by (simp only: p2_add p2_nat) simp
      moreover have "real_of_int (2 ^ fmt_sig f) * p2 k \<le> real_of_int q * p2 k"
        using calculation(1) by (intro mult_right_mono) (simp_all only: of_int_le_iff p2_simps)
      ultimately show ?thesis unfolding b(3) by linarith
    next
      case False
      then have "k = min_e f" by (simp add: k_def ulp_exponent_def)
      then have "p2 (1 - bias f) = p2 (int (fmt_sig f) + k)" by (simp add: min_e_def)
      also have "\<dots> = real_of_int (2 ^ fmt_sig f) * p2 k" by (simp only: p2_add p2_nat) simp
      finally show ?thesis unfolding b(3) by (simp only: mult_less_cancel_right_pos [OF p2_simps(1)] of_int_less_iff)
    qed
    moreover have "preferred f r s v (fst out) y"
      by (rule chosen_on_grid [OF f v b(1) y]) (use b(3) in \<open>simp add: q_def k_def\<close>)
    ultimately show ?thesis
      using False b by (simp add: rounded_def)
  qed
qed


text \<open>
  C10. The one rounding routine of the unit rounds correctly, in every mode, for both formats. An exact
  value too large for the mode raises overflow and gives infinity or, rounding towards zero, the largest
  finite number. Any other gives a finite number that is preferred to every number \<open>y\<close> of the format:
  to nearest the closest one, ties going to an even significand or away from zero, in the directed modes
  the next one on the side of the mode. Inexact is raised exactly when the result is not the value.
\<close>

theorem rounding_is_correct:
  fixes f s m e r y
  assumes "fmt_ok f" and "m \<noteq> 0" and "unat m < 2 ^ 127" and "ffinite f y"
  shows "rounded f r s (unat m * p2 e) (round_pack f s m e r) y"
proof -
  have "unat m * p2 e > 0" using assms(2) by (metis of_nat_0_less_iff gr0I unat_0_iff p2_simps(1) mult_pos_pos)
  then show ?thesis using rounds_to_rounded [OF assms(1) _ round_pack_rounds [OF assms(1-3)] assms(4)] by simp
qed

section \<open>A few single-precision numbers\<close>

lemma single_ok: "fmt_ok fmt_S"
  by (simp add: fmt_ok_def)

lemma single_numbers:
  "ffinite fmt_S 0x3fc00000" "fmag fmt_S 0x3fc00000 = 3/2" "\<not> fneg fmt_S 0x3fc00000"
  "ffinite fmt_S 0x40000000" "fmag fmt_S 0x40000000 = 2" "\<not> fneg fmt_S 0x40000000"
  by (simp_all add: ffinite_def fmag_def ffield_def ffrac_def fneg_def fmt_S_def exp_bits_def bias_def)

theorem rounding_is_correct_witness:
  "fmag fmt_S (fst (round_pack fmt_S False 3 (- 1) Rne)) = 3/2 \<and> snd (round_pack fmt_S False 3 (- 1) Rne) = 0"
proof -
  have "\<not> overflows fmt_S Rne False (3/2)"
    by (simp add: overflows_def to_nearest_def largest_def fmt_S_def bias_def exp_bits_def not_le add_pos_pos)
  then show ?thesis
    using rounding_is_correct [OF single_ok _ _ single_numbers(1), of 3 Rne False "- 1"]
    by (auto simp: rounded_def preferred_def to_nearest_def single_numbers Let_def)
qed

end
