(* ===== verification/Fp_Arith.thy ===== *)
theory Fp_Arith
  imports Rounding
begin

text \<open>
  The arithmetic of the soft-float unit is correctly rounded: \<open>fadd\<close>, \<open>fsub\<close>, \<open>fmul\<close>, \<open>fdiv\<close>, \<open>fsqrt\<close> and
  the fused operations, for every pair of finite operands in every mode. Each feeds
  \<open>round_pack\<close> either the exact result or one with a sticky low bit; \<open>sticky_rounds\<close> is the
  reason the second is as good as the first.
\<close>

section \<open>Unpacking\<close>

lemma push_bit_and_take_bit_zero: "push_bit n a AND take_bit n b = (0 :: nat)"
  by (rule bit_eqI) (auto simp: bit_simps)

lemma hidden_bit:
  assumes f: "fmt_ok f"
  shows "(ucast (push_bit (fmt_sig f) 1 OR take_bit (fmt_sig f) x) :: u128) = of_nat (2 ^ fmt_sig f + ffrac f x)"
proof -
  have w: "ffrac f x < 2 ^ fmt_sig f" by (simp add: ffrac_def unat_take_bit_less)
  then have "take_bit (fmt_sig f) (ffrac f x) = ffrac f x" by (simp add: take_bit_nat_eq_self)
  then have "push_bit (fmt_sig f) 1 AND ffrac f x = 0"
    by (metis (no_types) push_bit_and_take_bit_zero)
  then have "push_bit (fmt_sig f) 1 OR ffrac f x = 2 ^ fmt_sig f + ffrac f x"
    by (simp add: disjunctive_add_eq_or [symmetric] push_bit_eq_mult)
  moreover have "unat (push_bit (fmt_sig f) 1 :: u64) = push_bit (fmt_sig f) 1" 
    using f by (auto simp: fmt_ok_def fmt_S_def fmt_D_def)
  ultimately have "unat (push_bit (fmt_sig f) 1 OR take_bit (fmt_sig f) x) = 2 ^ fmt_sig f + ffrac f x"
    by (simp only: unsigned_or_eq ffrac_def)
  then show ?thesis by (metis of_nat_unat)
qed

lemma unpack_parts:
  assumes f: "fmt_ok f"
  shows "unpack f x =
    (fneg f x,
     if ffield f x = 2 ^ exp_bits f - 1 then (if ffrac f x = 0 then CInf else CNan (\<not> bit x (fmt_sig f - 1)))
     else if ffield f x = 0 then
       (if ffrac f x = 0 then CZero
        else (let shift = fmt_sig f + 1 - nat_len (ffrac f x)
              in CNum (push_bit shift (of_nat (ffrac f x))) (min_e f - int shift)))
     else CNum (of_nat (2 ^ fmt_sig f + ffrac f x)) (int (ffield f x) - bias f - int (fmt_sig f)))"
proof -
  note facts = fmt_facts [OF f]
  have sign: "(x AND fmt_mask f) AND sign_mask f \<noteq> 0 \<longleftrightarrow> fneg f x"
    using facts by (auto simp: fneg_def push_bit_eq_mult and_exp_eq_0_iff_not_bit bit_and_iff bit_mask_iff)
  have field: "drop_bit (fmt_sig f) (x AND fmt_mask f) AND max_field f = take_bit (exp_bits f) (drop_bit (fmt_sig f) x)"
    using facts by (intro bit_word_eqI) (auto simp: bit_simps)
  have frac: "(x AND fmt_mask f) AND sig_mask f = take_bit (fmt_sig f) x"
    using facts by (intro bit_word_eqI) (auto simp: bit_simps)
  have full: "take_bit (exp_bits f) (drop_bit (fmt_sig f) x) = max_field f \<longleftrightarrow> ffield f x = 2 ^ exp_bits f - 1"
  proof -
    have "unat (max_field f) = 2 ^ exp_bits f - 1"
      using f by (auto simp: fmt_ok_def fmt_S_def fmt_D_def max_field_def exp_bits_def)
    then show ?thesis by (simp only: word_unat_eq_iff ffield_def)
  qed
  have zero: "take_bit (exp_bits f) (drop_bit (fmt_sig f) x) = 0 \<longleftrightarrow> ffield f x = 0"
    "take_bit (fmt_sig f) x = 0 \<longleftrightarrow> ffrac f x = 0"
    by (simp_all add: ffield_def ffrac_def unat_0_iff)
  have quiet: "take_bit (fmt_sig f) x AND quiet_bit f = 0 \<longleftrightarrow> \<not> bit x (fmt_sig f - 1)"
    using facts by (auto simp: push_bit_eq_mult and_exp_eq_0_iff_not_bit bit_take_bit_iff)
  note hidden = hidden_bit [OF f, of x]
  have cast: "(ucast (take_bit (fmt_sig f) x) :: u128) = of_nat (ffrac f x)"
    by (simp add: ffrac_def)
  show ?thesis
    unfolding unpack_def Let_def sign field frac full zero quiet hidden cast
    by (simp add: ffield_def ffrac_def)
qed


lemma unpack_sign: "fmt_ok f \<Longrightarrow> unpack f x = (fneg f x, snd (unpack f x))"
  by (simp add: unpack_parts)

lemma narrow_nat: "n < 2 ^ 54 \<Longrightarrow> unat (of_nat n :: u128) = n"
  using unat_of_nat [of n, where 'a = 128] by (simp add: mod_less)

text \<open>A subnormal fraction, shifted until its leading bit stands where that of a normal one does.\<close>

lemma normalised_fraction:
  fixes w p :: nat
  assumes w: "w \<noteq> 0" "w < 2 ^ p" and p: "(2::nat) ^ p \<le> 2 ^ 52"
  defines "d \<equiv> p + 1 - nat_len w"
  shows "2 ^ p \<le> w * 2 ^ d" and "w * 2 ^ d < 2 ^ (p + 1)"
    and "unat (push_bit d (of_nat w) :: u128) = w * 2 ^ d"
proof -
  define L where "L = nat_len w"
  have L: "2 ^ (L - 1) \<le> w" "w < 2 ^ L" "L > 0"
    using nat_len_bounds [OF w(1)] by (simp_all add: L_def)
  have "(2::nat) ^ (L - 1) < 2 ^ p" using L(1) w by linarith
  then have d: "d > 0" "d + L = p + 1" using L(3) by (auto simp: d_def L_def [symmetric])
  have "(2::nat) ^ p = 2 ^ (L - 1) * 2 ^ d" using d L(3) by (simp flip: power_add)
  then show "2 ^ p \<le> w * 2 ^ d" using L(1) by simp
  have "(2::nat) ^ (p + 1) = 2 ^ L * 2 ^ d" using d by (simp flip: power_add add: add.commute)
  then show hi: "w * 2 ^ d < 2 ^ (p + 1)" using L(2) by simp
  have "(push_bit d (of_nat w) :: u128) = of_nat (w * 2 ^ d)" by (simp add: push_bit_eq_mult)
  moreover have "w * 2 ^ d < 2 ^ 54" using hi p by simp
  ultimately show "unat (push_bit d (of_nat w) :: u128) = w * 2 ^ d" by (simp only: narrow_nat)
qed

lemma unpack_finite:
  assumes f: "fmt_ok f" and x: "ffinite f x"
  shows "if fmag f x = 0 then snd (unpack f x) = CZero
     else \<exists>m e. snd (unpack f x) = CNum m e \<and> fmag f x = unat m * p2 e
            \<and> 2 ^ fmt_sig f \<le> unat m \<and> unat m < 2 ^ (fmt_sig f + 1)"
proof -
  note facts = fmt_facts [OF f]
  have w: "ffrac f x < 2 ^ fmt_sig f" by (simp add: ffrac_def unat_take_bit_less)
  have "(2::nat) ^ fmt_sig f \<le> 2 ^ 52" using facts by (intro power_increasing) auto
  note small = this
  have x': "ffield f x \<noteq> 2 ^ exp_bits f - 1" using x by (simp add: ffinite_def)
  consider (zero) "ffield f x = 0" "ffrac f x = 0" | (sub) "ffield f x = 0" "ffrac f x \<noteq> 0" | (normal) "ffield f x \<noteq> 0"
    by blast
  then show ?thesis
  proof cases
    case zero
    then show ?thesis using x' by (simp add: unpack_parts [OF f] fmag_def)
  next
    case normal
    define N where "N = 2 ^ fmt_sig f + ffrac f x"
    have "N < 2 ^ 54" using w small by (simp add: N_def)
    then have N: "unat (of_nat N :: u128) = N" by (rule narrow_nat)
    have "snd (unpack f x) = CNum (of_nat N) (int (ffield f x) - bias f - int (fmt_sig f))"
      using normal x' by (simp add: unpack_parts [OF f] N_def del: of_nat_add)
    moreover have "fmag f x = real (unat (of_nat N :: u128)) * p2 (int (ffield f x) - bias f - int (fmt_sig f))"
      unfolding N using normal by (simp add: fmag_def N_def)
    moreover have "N \<noteq> 0" "2 ^ fmt_sig f \<le> N" "N < 2 ^ (fmt_sig f + 1)" using w by (simp_all add: N_def)
    ultimately show ?thesis using N by (metis mult_eq_0_iff of_nat_eq_0_iff p2_simps(3))
  next
    case sub
    define d where "d = fmt_sig f + 1 - nat_len (ffrac f x)"
    note norm = normalised_fraction [OF sub(2) w small, folded d_def]
    have "snd (unpack f x) = CNum (push_bit d (of_nat (ffrac f x))) (min_e f - int d)"
      using sub x' by (simp only: unpack_parts [OF f] d_def [symmetric] Let_def snd_conv if_False if_True HOL.refl)
    moreover have "fmag f x = real (unat (push_bit d (of_nat (ffrac f x)) :: u128)) * p2 (min_e f - int d)"
      unfolding norm(3) using sub by (simp add: fmag_def p2_diff)
    moreover have "ffrac f x * 2 ^ d \<noteq> 0" using sub by simp
    ultimately show ?thesis using norm by (metis mult_eq_0_iff of_nat_eq_0_iff p2_simps(3))
  qed
qed

lemma unpack_special:
  assumes "fmt_ok f" and "\<not> ffinite f x"
  shows "snd (unpack f x) = (if ffrac f x = 0 then CInf else CNan (\<not> bit x (fmt_sig f - 1)))"
proof -
  have "ffield f x < 2 ^ exp_bits f" by (simp add: ffield_def unat_take_bit_less)
  then have "ffield f x = 2 ^ exp_bits f - 1" using assms(2) by (simp add: ffinite_def)
  then show ?thesis by (simp add: unpack_parts [OF assms(1)])
qed

section \<open>Sticky bits\<close>

text \<open>A value that lies strictly between its odd neighbours rounds as the odd number does.\<close>

lemma odd_cut:
  fixes y :: real and M H :: int
  assumes "odd M" and "\<bar>y - M\<bar> < 1" and "even H"
  shows "real_of_int H \<le> y \<longleftrightarrow> H \<le> M" and "real_of_int H \<noteq> y" and "H \<noteq> M"
proof -
  show "H \<noteq> M" using assms by auto
  have "H \<le> M \<Longrightarrow> H \<le> M - 1" using \<open>H \<noteq> M\<close> by linarith
  moreover have "\<not> H \<le> M \<Longrightarrow> M + 1 \<le> H" by linarith
  ultimately show "real_of_int H \<le> y \<longleftrightarrow> H \<le> M" "real_of_int H \<noteq> y" using assms(2) by linarith+
qed

lemma floor_cuts: "(\<And>n. real_of_int n \<le> x \<longleftrightarrow> real_of_int n \<le> y) \<Longrightarrow> \<lfloor>x\<rfloor> = \<lfloor>y\<rfloor>"
  by (metis le_floor_iff order.antisym order_refl)

lemma odd_halves:
  fixes y :: real and M :: int and d :: nat
  assumes M: "odd M" "\<bar>y - M\<bar> < 1" and d: "d \<ge> 2"
  defines "x \<equiv> y / 2 ^ d" and "x' \<equiv> real_of_int M / 2 ^ d"
  shows "round_at r s x = round_at r s x'" and "x \<noteq> real_of_int n" and "x' \<noteq> real_of_int n"
proof -
  obtain c where c: "d = Suc (Suc c)" using d by (metis add_2_eq_Suc le_Suc_ex)
  have half: "real_of_int h / 2 \<le> x \<longleftrightarrow> real_of_int h / 2 \<le> x'" "real_of_int h / 2 \<noteq> x" "real_of_int h / 2 \<noteq> x'" for h
  proof -
    define H where "H = h * 2 ^ Suc c"
    have "even H" by (simp add: H_def)
    note cut = odd_cut [OF M this]
    have *: "real_of_int h / 2 \<le> z / 2 ^ d \<longleftrightarrow> real_of_int H \<le> z" "real_of_int h / 2 = z / 2 ^ d \<longleftrightarrow> real_of_int H = z" for z
      by (simp_all add: H_def c field_simps)
    show "real_of_int h / 2 \<le> x \<longleftrightarrow> real_of_int h / 2 \<le> x'" "real_of_int h / 2 \<noteq> x" "real_of_int h / 2 \<noteq> x'"
      unfolding x_def x'_def * using cut by (simp_all only: of_int_le_iff of_int_eq_iff simp_thms not_False_eq_True)
  qed
  have int: "real_of_int n \<le> x \<longleftrightarrow> real_of_int n \<le> x'" "real_of_int n \<noteq> x" "real_of_int n \<noteq> x'" for n
    using half [of "2 * n"] by simp_all
  show "x \<noteq> real_of_int n" "x' \<noteq> real_of_int n" using int [of n] by auto
  have fl: "\<lfloor>x\<rfloor> = \<lfloor>x'\<rfloor>"
    using int(1) by (rule floor_cuts)
  have ce: "\<lceil>z\<rceil> = \<lfloor>z\<rfloor> + 1" if "z = x \<or> z = x'" for z
    using that int(2,3) [of "\<lfloor>z\<rfloor>"] by (auto simp: ceiling_altdef)
  have hf: "\<lfloor>x + 1/2\<rfloor> = \<lfloor>x' + 1/2\<rfloor>"
  proof -
    have "real_of_int n \<le> x + 1/2 \<longleftrightarrow> real_of_int n \<le> x' + 1/2" for n
      using half(1) [of "2 * n - 1"] by (simp add: field_simps)
    then show ?thesis by (rule floor_cuts)
  qed
  have fr: "frac z \<noteq> 1/2" if "z = x \<or> z = x'" for z
  proof
    assume "frac z = 1/2"
    then have "z = real_of_int (2 * \<lfloor>z\<rfloor> + 1) / 2" by (simp add: frac_def)
    then show False using that half(2,3) by metis
  qed
  show "round_at r s x = round_at r s x'"
    using fr [of x] fr [of x'] by (cases r) (simp_all add: round_at_def fl hf ce)
qed

lemma rounds_to_cong:
  assumes "ulp_exponent f v = ulp_exponent f v'"
    and "round_at r s (v / p2 (ulp_exponent f v)) = round_at r s (v' / p2 (ulp_exponent f v))"
    and "\<And>n. v / p2 (ulp_exponent f v) \<noteq> real_of_int n" and "\<And>n. v' / p2 (ulp_exponent f v) \<noteq> real_of_int n"
  shows "rounds_to f r s v out = rounds_to f r s v' out"
proof -
  have "real_of_int q * p2 (ulp_exponent f v) \<noteq> v" "real_of_int q * p2 (ulp_exponent f v) \<noteq> v'" for q
    using assms(3,4) [of q] by (metis nonzero_mult_div_cancel_right p2_simps(3))+
  then show ?thesis
    unfolding rounds_to_def Let_def using assms(1,2) by simp
qed

lemma sticky_rounds:
  fixes v :: real and M :: nat
  assumes "odd M" and big: "2 ^ (fmt_sig f + 2) \<le> M" and near: "\<bar>v - M * p2 e\<bar> < p2 e"
  shows "rounds_to f r s v out = rounds_to f r s (M * p2 e) out"
proof -
  define y where "y = v / p2 e"
  have v: "v = y * p2 e" by (simp add: y_def)
  have y: "\<bar>y - int M\<bar> < 1"
  proof -
    have "\<bar>y - M\<bar> * p2 e < 1 * p2 e" using near by (simp add: v abs_mult left_diff_distrib [symmetric])
    then show ?thesis by (simp only: mult_less_cancel_right) simp
  qed
  define t where "t = nat_len M - 1"
  have "M \<noteq> 0" using big by (metis not_gr_zero not_le zero_less_numeral zero_less_power)
  then have t: "2 ^ t \<le> M" "M < 2 ^ Suc t" using nat_len_bounds [of M] by (auto simp: t_def)
  have "(2::nat) ^ (fmt_sig f + 2) < 2 ^ Suc t" using big t(2) by linarith
  then have "fmt_sig f + 2 < Suc t" by (rule power_less_imp_less_exp [rotated]) simp
  then have tt: "fmt_sig f + 2 \<le> t" by simp
  have ev: "even ((2::int) ^ t)" "even ((2::int) ^ Suc t)" using tt by simp_all
  have odd: "odd (int M)" using assms(1) by simp
  have tM: "(2::int) ^ t \<le> int M" "\<not> (2::int) ^ Suc t \<le> int M"
    using t by (metis of_nat_le_iff of_nat_numeral of_nat_power not_le)+
  have "real_of_int (2 ^ t) \<le> y" "\<not> real_of_int (2 ^ Suc t) \<le> y"
    using odd_cut(1) [OF odd y ev(1)] odd_cut(1) [OF odd y ev(2)] tM by blast+
  then have "2 ^ t \<le> y" "y < 2 ^ Suc t" by simp_all
  moreover have "2 ^ t \<le> real M" "real M < 2 ^ Suc t"
    using t by (metis of_nat_le_iff of_nat_less_iff of_nat_numeral of_nat_power)+
  ultimately have range: "p2 (int t + e) \<le> v" "v < p2 (int t + e + 1)" "p2 (int t + e) \<le> M * p2 e" "M * p2 e < p2 (int t + e + 1)"
    by (simp_all add: v p2_add)
  then have k: "ulp_exponent f v = ulp_exponent f (M * p2 e)" "ulp_exponent f v \<ge> e + 2"
    using tt floor_log2 [OF range(1,2)] floor_log2 [OF range(3,4)] by (simp_all add: ulp_exponent_def)
  define d where "d = nat (ulp_exponent f v - e)"
  have d: "d \<ge> 2" "v / p2 (ulp_exponent f v) = y / 2 ^ d" "M * p2 e / p2 (ulp_exponent f v) = real_of_int (int M) / 2 ^ d"
    using k(2) by (auto simp: d_def v p2_diff simp flip: p2_nat)
  show ?thesis
    by (rule rounds_to_cong [OF k(1)]) (simp_all only: d odd_halves [OF odd y d(1)] not_False_eq_True)
qed

section \<open>Multiplication\<close>

text \<open>What an operation does with a finite operand: its sign, and zero or a normalised number.\<close>

lemma operand_cases:
  assumes f: "fmt_ok f" and x: "ffinite f x"
  obtains (zero) "fmag f x = 0" "unpack f x = (fneg f x, CZero)"
    | (num) m e where "unpack f x = (fneg f x, CNum m e)" "fmag f x = unat m * p2 e" "fmag f x > 0"
        "m \<noteq> 0" "2 ^ fmt_sig f \<le> unat m" "unat m < 2 ^ (fmt_sig f + 1)"
proof (cases "fmag f x = 0")
  case True
  then show ?thesis using zero unpack_finite [OF f x] unpack_sign [OF f, of x] by simp
next
  case False
  then obtain m e where m: "snd (unpack f x) = CNum m e" "fmag f x = unat m * p2 e"
      "2 ^ fmt_sig f \<le> unat m" "unat m < 2 ^ (fmt_sig f + 1)"
    using unpack_finite [OF f x] by auto
  moreover have "m \<noteq> 0" using m(3) by (metis not_one_le_zero one_le_power order_trans unat_0 one_le_numeral)
  moreover have "fmag f x > 0" using False m(2) by (metis mult_nonneg_nonneg of_nat_0_le_iff order_less_le p2_simps(2))
  ultimately show ?thesis using num [of m e] unpack_sign [OF f, of x] by metis
qed

lemma unat_mult_small:
  fixes m n :: u128
  assumes "unat m < 2 ^ a" and "unat n < 2 ^ b" and "a + b \<le> 128"
  shows "unat (m * n) = unat m * unat n" and "unat m * unat n < 2 ^ (a + b)"
proof -
  show *: "unat m * unat n < 2 ^ (a + b)" using assms(1,2) by (simp add: power_add mult_strict_mono)
  also have "\<dots> \<le> (2::nat) ^ 128" using assms(3) by (intro power_increasing) auto
  finally show "unat (m * n) = unat m * unat n" by (simp add: unat_word_ariths)
qed

text \<open>
  C12. Multiplication is correctly rounded: for finite operands of either sign the result is the
  signed zero of an exact zero product, and otherwise the exact product rounded once.
\<close>

theorem fmul_rounds:
  assumes f: "fmt_ok f" and a: "ffinite f a" and b: "ffinite f b"
  defines "s \<equiv> fneg f a \<noteq> fneg f b" and "v \<equiv> fmag f a * fmag f b"
  shows "if v = 0 then fmul f a b r = (fzero f s, 0) else rounds_to f r s v (fmul f a b r)"
  using f a
proof (cases rule: operand_cases)
  case zero
  from f b show ?thesis by (cases rule: operand_cases) (simp_all add: v_def zero fmul_def s_def is_nan_def)
next
  case (num m e)
  note na = num
  from f b show ?thesis
  proof (cases rule: operand_cases)
    case zero
    then show ?thesis by (simp add: v_def na fmul_def s_def is_nan_def)
  next
    case (num n g)
    have "fmt_sig f + 1 + (fmt_sig f + 1) \<le> 106" using fmt_facts [OF f] by simp
    then have p: "unat (m * n) = unat m * unat n" "unat m * unat n < 2 ^ 106"
      using unat_mult_small [OF na(6) num(6)] power_increasing [of "fmt_sig f + 1 + (fmt_sig f + 1)" 106 "2::nat"]
      by (auto intro: less_le_trans)
    have "m * n \<noteq> 0" using p(1) na(4) num(4) by (metis mult_eq_0_iff unat_0_iff)
    moreover have "unat (m * n) < 2 ^ 127" using p by simp
    moreover have "v = unat (m * n) * p2 (e + g)" by (simp add: v_def na num p p2_add)
    moreover have "fmul f a b r = round_pack f s (m * n) (e + g) r"
      by (simp add: s_def fmul_def na(1) num(1) is_nan_def)
    moreover have "v \<noteq> 0" using na(3) num(3) by (simp add: v_def)
    ultimately show ?thesis using round_pack_rounds [OF f, of "m * n" r s "e + g"] by metis
  qed
qed

theorem fmul_rounds_witness:
  "rounds_to fmt_S Rup False 3 (fmul fmt_S 0x3fc00000 0x40000000 Rup)"
  using fmul_rounds [OF single_ok single_numbers(1) single_numbers(4), of Rup] by (simp add: single_numbers)

section \<open>Division\<close>

lemma div_truncates:
  fixes n d :: nat
  assumes "d > 0"
  shows "real (n div d) \<le> real n / real d" and "real n / real d < real (n div d) + 1"
    and "real n / real d = real (n div d) \<longleftrightarrow> n mod d = 0"
proof -
  have n: "real n = real d * real (n div d) + real (n mod d)"
    by (metis of_nat_add of_nat_mult mult_div_mod_eq)
  have eq: "real n / real d = real (n div d) + real (n mod d) / real d"
    using assms by (subst n) (simp add: add_divide_distrib)
  have "0 \<le> real (n mod d) / real d" "real (n mod d) / real d < 1" using assms by (simp_all add: divide_less_eq)
  then show "real (n div d) \<le> real n / real d" "real n / real d < real (n div d) + 1" using eq by linarith+
  show "real n / real d = real (n div d) \<longleftrightarrow> n mod d = 0" using eq assms by simp
qed

lemma odd_or_one: "odd ((n::nat) OR 1)"
  by (simp add: even_or_iff)


lemma unat_or_one: "unat (q OR of_bool b :: u128) = (if b then unat q OR 1 else unat q)"
  by (simp add: unsigned_or_eq)

lemma truncated_near:
  fixes R :: nat and y :: real
  assumes "real R \<le> y" and "y < real R + 1" and "M = (if y = R then R else R OR 1)"
  shows "y = M \<or> odd M \<and> \<bar>y - M\<bar> < 1"
proof (cases "y = R")
  case False
  then have "odd M" "real M = R + of_bool (even R)" using assms(3) odd_or_one [of R] by (simp_all add: or_Suc_0_eq)
  then show ?thesis using False assms(1,2) by (cases "even R") auto
qed (use assms in simp)

lemma round_pack_near:
  fixes y :: real
  assumes f: "fmt_ok f" and M: "2 ^ (fmt_sig f + 2) \<le> unat M" "unat M < 2 ^ 127"
    and y: "y = unat M \<or> odd (unat M) \<and> \<bar>y - unat M\<bar> < 1"
  shows "rounds_to f r s (y * p2 e) (round_pack f s M e r)"
proof -
  have M0: "M \<noteq> 0" using M(1) by (metis not_one_le_zero one_le_numeral one_le_power order_trans unat_0)
  note exact = round_pack_rounds [OF f M0 M(2), of r s e]
  from y show ?thesis
  proof
    assume *: "odd (unat M) \<and> \<bar>y - unat M\<bar> < 1"
    have "\<bar>y * p2 e - unat M * p2 e\<bar> < p2 e"
    proof -
      have "\<bar>y - unat M\<bar> * p2 e < 1 * p2 e" using * by (intro mult_strict_right_mono) simp_all
      then show ?thesis by (simp add: abs_mult left_diff_distrib [symmetric])
    qed
    then show ?thesis using sticky_rounds [of "unat M" f "y * p2 e" e r s] * M(1) exact by blast
  qed (use exact in simp)
qed

text \<open>The integer quotient with its sticky bit is as close to the quotient as rounding needs.\<close>

lemma quotient_near:
  fixes m n :: u128
  assumes m: "unat m < 2 ^ 53" and n: "n \<noteq> 0" "unat n < 2 * unat m"
  defines "N \<equiv> push_bit 64 m"
  defines "M \<equiv> (N div n) OR of_bool (N mod n \<noteq> 0)"
  shows "unat N = unat m * 2 ^ 64" and "2 ^ 62 \<le> unat M" and "unat M < 2 ^ 127"
    and "unat N / unat n = unat M \<or> odd (unat M) \<and> \<bar>unat N / unat n - unat M\<bar> < 1"
proof -
  show N: "unat N = unat m * 2 ^ 64"
    using m unfolding N_def by (simp only: unsigned_push_bit_eq) (simp add: push_bit_eq_mult take_bit_eq_mod)
  define Q where "Q = unat N div unat n"
  have n0: "unat n > 0" using n(1) by (metis gr0I unat_0_iff)
  have q: "unat (N div n) = Q" "N mod n = 0 \<longleftrightarrow> unat N mod unat n = 0"
    by (simp_all add: Q_def unat_div unat_mod [symmetric] unat_0_iff)
  have "2 ^ 62 * unat n \<le> unat N" using n(2) by (simp add: N)
  then have lo: "2 ^ 62 \<le> Q" using n0 by (simp add: Q_def less_eq_div_iff_mult_less_eq)
  have "Q \<le> unat N" by (simp add: Q_def)
  then have hi: "Q < 2 ^ 126" using m by (simp add: N)
  have M: "unat M = (if unat N mod unat n = 0 then Q else Q OR 1)"
    unfolding M_def unat_or_one q by simp
  show "2 ^ 62 \<le> unat M" "unat M < 2 ^ 127" using lo hi by (auto simp: M or_Suc_0_eq)
  show "unat N / unat n = unat M \<or> odd (unat M) \<and> \<bar>unat N / unat n - unat M\<bar> < 1"
    using div_truncates [OF n0, of "unat N"] by (intro truncated_near [of Q]) (auto simp: M Q_def)
qed

text \<open>
  C13. Division is correctly rounded: the 64 extra quotient bits and the sticky remainder bit stand
  for the infinite quotient.
\<close>

theorem fdiv_rounds:
  assumes f: "fmt_ok f" and a: "ffinite f a" and b: "ffinite f b" and b0: "fmag f b \<noteq> 0"
  defines "s \<equiv> fneg f a \<noteq> fneg f b" and "v \<equiv> fmag f a / fmag f b"
  shows "if v = 0 then fdiv f a b r = (fzero f s, 0) else rounds_to f r s v (fdiv f a b r)"
  using f b
proof (cases rule: operand_cases)
  case zero
  then show ?thesis using b0 by simp
next
  case (num n g)
  note nb = num
  from f a show ?thesis
  proof (cases rule: operand_cases)
    case zero
    then show ?thesis by (simp add: v_def nb fdiv_def s_def is_nan_def)
  next
    case (num m e)
    note facts = fmt_facts [OF f]
    define N where "N = push_bit 64 m"
    define M where "M = (N div n) OR of_bool (N mod n \<noteq> 0)"
    have m: "unat m < 2 ^ 53" using num(6) power_increasing [of "fmt_sig f + 1" 53 "2::nat"] facts by (auto intro: less_le_trans)
    have "unat n < 2 * unat m" using nb(6) num(5) by simp
    note near = quotient_near [OF m nb(4) this, folded N_def, folded M_def]
    have v: "v = unat N / unat n * p2 (e - g - 64)"
      by (simp add: v_def num(2) nb(2) near(1) p2_diff)
    have run: "fdiv f a b r = round_pack f s M (e - g - 64) r"
      by (simp add: s_def fdiv_def num(1) nb(1) is_nan_def Let_def M_def N_def)
    have "(2::nat) ^ (fmt_sig f + 2) \<le> 2 ^ 62" using facts by (intro power_increasing) auto
    then have "2 ^ (fmt_sig f + 2) \<le> unat M" using near(2) by simp
    then have "rounds_to f r s v (fdiv f a b r)"
      unfolding run v using near(3,4) by (rule round_pack_near [OF f])
    moreover have "v \<noteq> 0" using num(3) nb(3) by (simp add: v_def)
    ultimately show ?thesis by simp
  qed
qed

theorem fdiv_rounds_witness:
  "rounds_to fmt_S Rdn False (3/4) (fdiv fmt_S 0x3fc00000 0x40000000 Rdn)"
  using fdiv_rounds [OF single_ok single_numbers(1) single_numbers(4), of Rdn] by (simp add: single_numbers)

section \<open>Square root\<close>

text \<open>Newton's iteration over the natural numbers, from an overestimate.\<close>

lemma newton_above:
  fixes x n :: nat
  assumes "x > 0"
  shows "n < ((x + n div x) div 2 + 1)\<^sup>2"
proof -
  define t where "t = (x + n div x) div 2"
  have "x + n div x + 1 \<le> 2 * (t + 1)" by (simp add: t_def)
  then have le: "(x + (n div x + 1)) ^ 2 \<le> (2 * (t + 1)) ^ 2" by (intro power_mono) auto
  have "n < x * (n div x + 1)"
    using dividend_less_times_div [OF assms, of n] by simp
  then have "4 * n < 4 * (x * (n div x + 1))" by simp
  also have "\<dots> \<le> (x + (n div x + 1))\<^sup>2"
  proof -
    have "4 * (int x * int (n div x + 1)) \<le> (int x + int (n div x + 1))\<^sup>2"
      using zero_le_power2 [of "int x - int (n div x + 1)"] by (simp add: power2_eq_square algebra_simps)
    then show ?thesis by (metis of_nat_add of_nat_le_iff of_nat_mult of_nat_numeral of_nat_power)
  qed
  finally have "4 * n < (2 * (t + 1))\<^sup>2" using le by (rule less_le_trans)
  then show ?thesis unfolding t_def [symmetric] by (simp add: power2_eq_square algebra_simps)
qed

lemma newton_stop:
  fixes x n :: nat
  assumes "x > 0" and "x \<le> (x + n div x) div 2"
  shows "x\<^sup>2 \<le> n"
proof -
  have "x \<le> n div x" using assms(2) by simp
  then have "x * x \<le> x * (n div x)" by simp
  also have "\<dots> \<le> n" by simp
  finally show ?thesis by (simp add: power2_eq_square)
qed

lemma newton_bound:
  fixes x n :: nat
  assumes "n < (x + 1)\<^sup>2" and "x > 0"
  shows "n div x \<le> x + 2"
proof -
  have "n < (x + 3) * x" using assms by (simp add: power2_eq_square algebra_simps)
  then have "n div x < x + 3" by (rule less_mult_imp_div_less)
  then show ?thesis by simp
qed

lemma isqrt_loop_correct:
  assumes "unat n < (unat x + 1)\<^sup>2" and "0 < unat x" and "unat x \<le> 2 ^ 64" and "n \<noteq> 0"
  shows "(unat (isqrt_loop n x))\<^sup>2 \<le> unat n \<and> unat n < (unat (isqrt_loop n x) + 1)\<^sup>2"
  using assms
proof (induction n x rule: isqrt_loop.induct)
  case (1 n x)
  define t where "t = drop_bit 1 (x + n div x)"
  have "unat x + unat n div unat x < 2 ^ 128"
    using newton_bound [OF 1(2,3)] 1(4) by simp
  then have t: "unat t = (unat x + unat n div unat x) div 2"
    unfolding t_def by (simp add: unat_drop_bit_div unat_word_ariths unat_div)
  show ?case
  proof (cases "t \<ge> x")
    case True
    then have "isqrt_loop n x = x" by (simp add: isqrt_loop.simps [of n x] t_def Let_def)
    moreover have "(unat x)\<^sup>2 \<le> unat n"
      using newton_stop [OF 1(3)] True t by (simp add: word_le_nat_alt)
    ultimately show ?thesis using 1(2) by simp
  next
    case False
    then have run: "isqrt_loop n x = isqrt_loop n t" by (simp add: isqrt_loop.simps [of n x] t_def Let_def)
    have "unat n > 0" using 1(5) by (metis gr0I unat_0_iff)
    then have "unat x + unat n div unat x \<ge> 2"
      using 1(3) by (cases "unat x = 1") auto
    then have "0 < unat t" by (simp add: t)
    moreover have "unat n < (unat t + 1)\<^sup>2" unfolding t by (rule newton_above [OF 1(3)])
    moreover have "unat t \<le> 2 ^ 64" using False 1(4) by (simp add: word_le_nat_alt)
    ultimately show ?thesis
      using 1(1) [OF t_def] False 1(5) unfolding run by blast
  qed
qed

lemma isqrt_correct: "(unat (isqrt n))\<^sup>2 \<le> unat n \<and> unat n < (unat (isqrt n) + 1)\<^sup>2"
proof (cases "n = 0")
  case False
  define h where "h = (bit_len n + 1) div 2"
  have n: "unat n < 2 ^ bit_len n" using nat_len_bounds [of "unat n"] False by (simp add: bit_len_def unat_0_iff)
  have "2 ^ (bit_len n - 1) \<le> unat n" using nat_len_bounds [of "unat n"] False by (simp add: bit_len_def unat_0_iff)
  also have "\<dots> < 2 ^ LENGTH(128)" by (rule unsigned_less)
  finally have "bit_len n - 1 < LENGTH(128)" by (rule power_less_imp_less_exp [rotated]) simp
  then have h: "h \<le> 64" "bit_len n \<le> 2 * h" by (auto simp: h_def)
  have "unat (push_bit h 1 :: u128) = 2 ^ h"
    using h(1) power_strict_increasing [of h 128 "2::nat"]
    by (simp only: unsigned_push_bit_eq) (simp add: push_bit_eq_mult take_bit_eq_mod)
  moreover have "unat n < (2 ^ h + 1)\<^sup>2"
  proof -
    have "(2::nat) ^ bit_len n \<le> 2 ^ (2 * h)" using h(2) by (intro power_increasing) auto
    then have "unat n < 2 ^ (2 * h)" using n by linarith
    also have "\<dots> = (2 ^ h)\<^sup>2" by (simp add: power_mult [symmetric] mult.commute)
    also have "\<dots> \<le> (2 ^ h + 1)\<^sup>2" by (intro power_mono) auto
    finally show ?thesis .
  qed
  moreover have "(2::nat) ^ h \<le> 2 ^ 64" using h(1) by (intro power_increasing) auto
  ultimately show ?thesis
    using isqrt_loop_correct [of n "push_bit h 1"] False by (simp only: isqrt_def h_def if_False) simp
qed (simp add: isqrt_def)

text \<open>The integer square root with its remainder kept in the lowest bit.\<close>

lemma isqrt_near:
  assumes hi: "unat N < 2 ^ 118" and lo: "(2 ^ k)\<^sup>2 \<le> unat N"
  defines "R \<equiv> isqrt N"
  defines "M \<equiv> R OR of_bool (R * R \<noteq> N)"
  shows "2 ^ k \<le> unat M" and "unat M < 2 ^ 127"
    and "sqrt (real (unat N)) = unat M \<or> odd (unat M) \<and> \<bar>sqrt (real (unat N)) - unat M\<bar> < 1"
proof -
  have R: "(unat R)\<^sup>2 \<le> unat N" "unat N < (unat R + 1)\<^sup>2" using isqrt_correct [of N] by (simp_all add: R_def)
  have "(unat R)\<^sup>2 < (2 ^ 60)\<^sup>2" using R(1) hi by simp
  then have Rhi: "unat R < 2 ^ 60" by (rule power_less_imp_less_base) simp
  have "(2 ^ k)\<^sup>2 < (unat R + 1)\<^sup>2" using R(2) lo by (rule le_less_trans [rotated])
  then have "2 ^ k < unat R + 1" by (rule power_less_imp_less_base) simp
  then have Rlo: "2 ^ k \<le> unat R" by simp
  have sq: "R * R = N \<longleftrightarrow> sqrt (real (unat N)) = real (unat R)"
  proof -
    have "unat (R * R) = (unat R)\<^sup>2"
      using unat_mult_small(1) [OF Rhi Rhi] by (simp add: power2_eq_square)
    then have "R * R = N \<longleftrightarrow> (unat R)\<^sup>2 = unat N" by (metis word_unat_eq_iff)
    also have "\<dots> \<longleftrightarrow> (real (unat R))\<^sup>2 = real (unat N)" by (metis of_nat_eq_iff of_nat_power)
    also have "\<dots> \<longleftrightarrow> sqrt (real (unat N)) = real (unat R)" by (metis of_nat_0_le_iff real_sqrt_pow2 real_sqrt_unique)
    finally show ?thesis .
  qed
  have M: "unat M = (if sqrt (real (unat N)) = real (unat R) then unat R else unat R OR 1)"
    unfolding M_def unat_or_one sq by simp
  show "sqrt (real (unat N)) = unat M \<or> odd (unat M) \<and> \<bar>sqrt (real (unat N)) - unat M\<bar> < 1"
  proof (rule truncated_near [OF _ _ M])
    show "real (unat R) \<le> sqrt (real (unat N))" using R(1) by (metis of_nat_le_iff of_nat_power real_le_rsqrt)
    have "real (unat N) < (real (unat R) + 1)\<^sup>2"
      using R(2) by (metis of_nat_1 of_nat_add of_nat_less_iff of_nat_power)
    moreover have "0 \<le> real (unat R) + 1" by (metis add_nonneg_nonneg of_nat_0_le_iff zero_le_one)
    ultimately show "sqrt (real (unat N)) < real (unat R) + 1" by (intro real_less_lsqrt)
  qed
  show "2 ^ k \<le> unat M" "unat M < 2 ^ 127" using Rlo Rhi by (auto simp: M or_Suc_0_eq)
qed

lemma root_of_scaled: "sqrt (x * p2 (int d + (h + h))) = sqrt (x * 2 ^ d) * p2 h"
proof -
  have "p2 (int d + (h + h)) = p2 (int d) * (p2 h * p2 h)" by (simp only: p2_add)
  then have "x * p2 (int d + (h + h)) = (x * 2 ^ d) * (p2 h)\<^sup>2" by (simp only: p2_nat power2_eq_square mult.assoc)
  then show ?thesis by (simp only:) (simp add: real_sqrt_mult)
qed

text \<open>
  C14. Square root is correctly rounded: Newton's loop on the integers stops at the exact integer
  square root of the widened significand, and a sticky bit stands for the rest.
\<close>

theorem fsqrt_rounds:
  assumes f: "fmt_ok f" and a: "ffinite f a" and pos: "\<not> fneg f a \<or> fmag f a = 0"
  shows "if fmag f a = 0 then fsqrt f a r = (fzero f (fneg f a), 0)
     else rounds_to f r False (sqrt (fmag f a)) (fsqrt f a r)"
  using f a
proof (cases rule: operand_cases)
  case zero
  then show ?thesis by (simp add: fsqrt_def is_nan_def)
next
  case (num m e)
  note facts = fmt_facts [OF f]
  define d where "d = (if (e - 64) mod 2 = 0 then 64 else 65 :: nat)"
  define h where "h = (e - int d) div 2"
  define N where "N = push_bit d m"
  define R where "R = isqrt N"
  define M where "M = R OR of_bool (R * R \<noteq> N)"
  have even: "e - int d = h + h" by (auto simp: h_def d_def) presburger+
  have m: "unat m < 2 ^ 53"
    using num(6) power_increasing [of "fmt_sig f + 1" 53 "2::nat"] facts by (auto intro: less_le_trans)
  have N: "unat N = unat m * 2 ^ d"
    using m unfolding N_def by (simp only: unsigned_push_bit_eq) (auto simp: d_def push_bit_eq_mult take_bit_eq_mod)
  have Nhi: "unat N < 2 ^ 118" using m by (auto simp: N d_def)
  have Nlo: "(2 ^ (fmt_sig f + 2))\<^sup>2 \<le> unat N"
  proof -
    have "(2::nat) ^ ((fmt_sig f + 2) * 2) \<le> 2 ^ (fmt_sig f + 64)" using facts by (intro power_increasing) auto
    also have "\<dots> = 2 ^ fmt_sig f * 2 ^ 64" by (simp add: power_add)
    also have "\<dots> \<le> unat m * 2 ^ d" using num(5) by (intro mult_mono power_increasing) (auto simp: d_def)
    finally show ?thesis by (simp only: N power_mult)
  qed
  note near = isqrt_near [OF Nhi Nlo, folded R_def, folded M_def]
  have "e = int d + (h + h)" using even by simp
  then have root: "sqrt (fmag f a) = sqrt (real (unat N)) * p2 h"
    using root_of_scaled [of "real (unat m)" d h] by (simp only: num(2) N) simp
  have "rounds_to f r False (sqrt (fmag f a)) (round_pack f False M h r)"
    unfolding root using near by (rule round_pack_near [OF f])
  moreover have "fsqrt f a r = round_pack f False M h r"
    using num(3) pos by (simp add: fsqrt_def num(1) is_nan_def Let_def M_def R_def N_def d_def h_def)
  ultimately show ?thesis using num(3) by simp
qed

theorem fsqrt_rounds_witness:
  "rounds_to fmt_S Rne False (sqrt 2) (fsqrt fmt_S 0x40000000 Rne)"
  using fsqrt_rounds [OF single_ok single_numbers(4), of Rne] by (simp add: single_numbers)

section \<open>Addition\<close>

lemma fscale_exact:
  assumes "base \<le> e" and "unat m * p2 (e - base) < 2 ^ 126"
  shows "real (unat (fscale m e base)) = unat m * p2 (e - base)"
    and "e - base \<ge> 1 \<Longrightarrow> even (unat (fscale m e base))"
proof -
  define d where "d = nat (e - base)"
  have d: "p2 (e - base) = real (2 ^ d)" using assms(1) by (simp add: d_def flip: p2_nat)
  then have "real (unat m * 2 ^ d) < real (2 ^ 126)" using assms(2) by simp
  then have "unat m * 2 ^ d < 2 ^ 126" by (simp only: of_nat_less_iff)
  then have "unat (push_bit d m) = unat m * 2 ^ d"
    by (simp only: unsigned_push_bit_eq) (simp add: push_bit_eq_mult take_bit_eq_mod)
  then have u: "unat (fscale m e base) = unat m * 2 ^ d" using assms(1) by (simp add: fscale_def d_def)
  show "real (unat (fscale m e base)) = unat m * p2 (e - base)" unfolding u d by simp
  show "e - base \<ge> 1 \<Longrightarrow> even (unat (fscale m e base))" unfolding u by (simp add: d_def)
qed

lemma fscale_near:
  assumes "e < base" and "unat m < 2 ^ 110" and "m \<noteq> 0"
  defines "y \<equiv> unat m * p2 (e - base)" and "M \<equiv> unat (fscale m e base)"
  shows "(y = M \<or> odd M \<and> \<bar>y - M\<bar> < 1) \<and> M \<le> 2 ^ 110"
proof -
  define d where "d = nat (base - e)"
  have y: "y = real (unat m) / real (2 ^ d)"
    using assms(1) by (simp add: y_def d_def p2_diff flip: p2_nat)
  have m0: "unat m \<noteq> 0" using assms(3) by (simp add: unat_0_iff)
  have exact: "y = real (unat m div 2 ^ d) \<longleftrightarrow> unat m mod 2 ^ d = 0"
    unfolding y by (rule div_truncates(3)) simp
  have M: "M = (if y = real (unat m div 2 ^ d) then unat m div 2 ^ d else unat m div 2 ^ d OR 1)"
  proof (cases "d \<ge> 128")
    case True
    have "(2::nat) ^ 128 \<le> 2 ^ d" using True by (intro power_increasing) auto
    then have "unat m < 2 ^ d" using assms(2) by simp
    moreover have "M = 1" using True assms(1,3) by (simp add: M_def fscale_def d_def)
    ultimately show ?thesis using m0 unfolding exact by simp
  next
    case False
    have "M = unat (drop_bit d m OR of_bool (take_bit d m \<noteq> 0))"
      using False assms(1) unfolding M_def fscale_def and_mask_take_bit Let_def d_def by simp
    moreover have "take_bit d m \<noteq> 0 \<longleftrightarrow> unat m mod 2 ^ d \<noteq> 0"
      by (simp only: unat_take_bit_eq [symmetric] unat_0_iff)
    ultimately show ?thesis unfolding exact unat_or_one unat_drop_bit_div by simp
  qed
  have "y = M \<or> odd M \<and> \<bar>y - M\<bar> < 1"
    using div_truncates(1,2) [of "2 ^ d" "unat m"] by (intro truncated_near [OF _ _ M]) (simp_all add: y)
  moreover have "M \<le> unat m div 2 ^ d + 1" by (auto simp: M or_Suc_0_eq)
  moreover have "unat m div 2 ^ d \<le> unat m" by simp
  then have "unat m div 2 ^ d + 1 \<le> 2 ^ 110" using assms(2) by linarith
  ultimately show ?thesis by linarith
qed

text \<open>The larger operand is exact and even, so a sticky smaller one leaves the result odd.\<close>

lemma combine:
  fixes a b :: nat and za zb :: real
  assumes a: "za = a" "even a" "2 ^ 125 \<le> a"
    and b: "zb = b \<or> odd b \<and> \<bar>zb - b\<bar> < 1 \<and> b \<le> 2 ^ 110"
  shows "za + zb = a + b \<or> odd (a + b) \<and> \<bar>za + zb - (a + b)\<bar> < 1 \<and> 2 ^ 100 \<le> a + b"
    and "za - zb = real a - real b \<or> b < a \<and> zb < za \<and> odd (a - b) \<and> \<bar>za - zb - real (a - b)\<bar> < 1 \<and> 2 ^ 100 \<le> a - b"
  using assms by auto


definition stuck :: "nat \<Rightarrow> real \<Rightarrow> bool" where
  "stuck n y \<longleftrightarrow> y = real n \<or> odd n \<and> \<bar>y - real n\<bar> < 1 \<and> 2 ^ 100 \<le> n"

definition aligned :: "nat \<Rightarrow> real \<Rightarrow> bool" where
  "aligned n y \<longleftrightarrow> y = real n \<or> odd n \<and> \<bar>y - real n\<bar> < 1 \<and> n \<le> 2 ^ 110"

lemma aligned_pair:
  fixes a b :: nat and za zb :: real
  assumes "za = a \<and> even a \<and> 2 ^ 125 \<le> a \<and> aligned b zb \<or> zb = b \<and> even b \<and> 2 ^ 125 \<le> b \<and> aligned a za"
  shows "stuck (a + b) (za + zb)"
    and "b \<le> a \<Longrightarrow> stuck (a - b) (za - zb) \<and> zb \<le> za \<and> (a = b \<longleftrightarrow> za = zb)"
    and "a < b \<Longrightarrow> stuck (b - a) (zb - za) \<and> za < zb"
  using assms combine(1) [of za a zb b] combine(1) [of zb b za a] combine(2) [of za a zb b] combine(2) [of zb b za a]
  unfolding stuck_def aligned_def by (auto simp: of_nat_diff add.commute)

lemma scaled_operand:
  fixes m :: u128 and e top base :: int
  assumes "m \<noteq> 0" and "unat m < 2 ^ 110" and top: "e + int (bit_len m) \<le> top" and base: "base = top - 126"
  defines "a \<equiv> unat (fscale m e base)" and "z \<equiv> unat m * p2 (e - base)"
  shows "aligned a z" and "a < 2 ^ 126" and "e + int (bit_len m) = top \<Longrightarrow> z = a \<and> even a \<and> 2 ^ 125 \<le> a"
proof -
  note len = bit_len_bounds [OF assms(1)]
  have "z < p2 (int (bit_len m)) * p2 (e - base)" unfolding z_def using len(2) by (rule mult_strict_right_mono) simp
  also have "\<dots> = p2 (e + int (bit_len m) - base)" by (simp only: p2_add [symmetric]) (simp add: algebra_simps)
  also have "\<dots> \<le> p2 126" using top base by (subst p2_le_iff) simp
  finally have z: "z < 2 ^ 126" by simp
  have "p2 (int (bit_len m) - 1) < 2 ^ 110"
    using len(1) assms(2) by (metis of_nat_less_iff of_nat_numeral of_nat_power order_le_less_trans)
  then have "p2 (int (bit_len m) - 1) < p2 110" by simp
  then have len110: "int (bit_len m) \<le> 110" by (simp only: p2_less_iff) 
  have exact: "z = a \<and> (e - base \<ge> 1 \<longrightarrow> even a)" if "base \<le> e"
    using fscale_exact [OF that, of m] z by (simp add: a_def z_def)
  show "aligned a z"
    using exact fscale_near [of e base m] assms(1,2) unfolding aligned_def a_def z_def by (cases "base \<le> e") auto
  show "a < 2 ^ 126"
  proof (cases "base \<le> e")
    case True
    then have "real a < real (2 ^ 126)" using exact z by simp
    then show ?thesis by (simp only: of_nat_less_iff)
  next
    case False
    then show ?thesis using fscale_near [of e base m] assms(1,2) by (simp add: a_def)
  qed
  assume eq: "e + int (bit_len m) = top"
  then have e: "base \<le> e" "e - base \<ge> 1" using base len110 by simp_all
  have "int (bit_len m) - 1 + (e - base) = 125" using eq base by simp
  then have "p2 125 = p2 (int (bit_len m) - 1) * p2 (e - base)" by (simp only: p2_add [symmetric])
  also have "\<dots> \<le> z" unfolding z_def using len(1) by (rule mult_right_mono) simp
  finally have "real (2 ^ 125) \<le> real a" using exact e by simp
  then show "z = a \<and> even a \<and> 2 ^ 125 \<le> a" using exact e by (simp only: of_nat_le_iff)
qed


definition with_sign :: "bool \<Rightarrow> real \<Rightarrow> real" where
  "with_sign s v = (if s then - v else v)"

lemma unat_positive: "m \<noteq> 0 \<Longrightarrow> 0 < real (unat m)"
  by (metis of_nat_0_less_iff gr0I unat_0_iff)

text \<open>Two aligned operands added or subtracted as words, with the sign that the code gives.\<close>

lemma add_aligned:
  fixes wa wb :: u128 and za zb :: real
  assumes pair: "za = unat wa \<and> even (unat wa) \<and> 2 ^ 125 \<le> unat wa \<and> aligned (unat wb) zb
      \<or> zb = unat wb \<and> even (unat wb) \<and> 2 ^ 125 \<le> unat wb \<and> aligned (unat wa) za"
    and small: "unat wa < 2 ^ 126" "unat wb < 2 ^ 126" and pos: "za > 0" "zb > 0"
    and out: "(s, m) = (if sa = sb then (sa, wa + wb) else if wa \<ge> wb then (sa, wa - wb) else (sb, wb - wa))"
  defines "x \<equiv> with_sign sa za + with_sign sb zb"
  shows "unat m < 2 ^ 127 \<and> stuck (unat m) \<bar>x\<bar> \<and> (unat m = 0 \<longleftrightarrow> x = 0) \<and> (x \<noteq> 0 \<longrightarrow> (s \<longleftrightarrow> x < 0))"
proof -
  note sums = aligned_pair [OF pair]
  consider (same) "sa = sb" | (ge) "sa \<noteq> sb" "wb \<le> wa" | (lt) "sa \<noteq> sb" "wa < wb" by fastforce
  then show ?thesis
  proof cases
    case same
    then have sm: "s = sa" "unat m = unat wa + unat wb" using out small by (simp_all add: unat_word_ariths)
    have "2 ^ 125 \<le> unat wa \<or> 2 ^ 125 \<le> unat wb" using pair by blast
    then have "unat wa + unat wb \<noteq> 0" by auto
    then show ?thesis using same small pos sums(1) by (auto simp: sm x_def with_sign_def add.commute [of za])
  next
    case ge
    then have sm: "s = sa" "unat m = unat wa - unat wb" using out by (auto simp: unat_sub)
    have "unat wb \<le> unat wa" using ge by (simp add: word_le_nat_alt)
    then show ?thesis using ge small sums(2) by (auto simp: sm x_def with_sign_def)
  next
    case lt
    then have "s = sb \<and> m = wb - wa" using out by (simp add: not_le [symmetric])
    then have sm: "s = sb" "unat m = unat wb - unat wa" using lt by (simp_all add: unat_sub less_imp_le)
    have "unat wa < unat wb" using lt by (simp add: word_less_nat_alt)
    then show ?thesis using lt small sums(3) by (auto simp: sm x_def with_sign_def)
  qed
qed

lemma add_raw_sum:
  assumes m: "ma \<noteq> 0" "unat ma < 2 ^ 110" "mb \<noteq> 0" "unat mb < 2 ^ 110"
    and run: "add_raw sa ma ea sb mb eb = (s, m, base)"
  defines "t \<equiv> with_sign sa (unat ma * p2 ea) + with_sign sb (unat mb * p2 eb)"
  shows "unat m < 2 ^ 127 \<and> (m = 0 \<longleftrightarrow> t = 0) \<and> (t \<noteq> 0 \<longrightarrow> (s \<longleftrightarrow> t < 0)) \<and> (\<exists>y. \<bar>t\<bar> = y * p2 base \<and> stuck (unat m) y)"
proof -
  define top where "top = max (ea + int (bit_len ma)) (eb + int (bit_len mb))"
  have base: "base = top - 126" using run by (auto simp: add_raw_def top_def Let_def split: if_splits)
  define wa wb where "wa = fscale ma ea base" and "wb = fscale mb eb base"
  define za zb where "za = unat ma * p2 (ea - base)" and "zb = unat mb * p2 (eb - base)"
  note opa = scaled_operand [OF m(1,2) _ base, of ea, folded wa_def za_def]
  note opb = scaled_operand [OF m(3,4) _ base, of eb, folded wb_def zb_def]
  have le: "ea + int (bit_len ma) \<le> top" "eb + int (bit_len mb) \<le> top" by (simp_all add: top_def)
  have max: "ea + int (bit_len ma) = top \<or> eb + int (bit_len mb) = top" by (auto simp: top_def)
  have pair: "za = unat wa \<and> even (unat wa) \<and> 2 ^ 125 \<le> unat wa \<and> aligned (unat wb) zb
      \<or> zb = unat wb \<and> even (unat wb) \<and> 2 ^ 125 \<le> unat wb \<and> aligned (unat wa) za"
    using max opa(1,3) opb(1,3) le by blast
  have small: "unat wa < 2 ^ 126" "unat wb < 2 ^ 126" using opa(2) opb(2) le by simp_all
  have t: "t = (with_sign sa za + with_sign sb zb) * p2 base"
  proof -
    have "unat ma * p2 ea = za * p2 base" "unat mb * p2 eb = zb * p2 base" by (simp_all add: za_def zb_def p2_diff)
    then show ?thesis by (simp add: t_def with_sign_def algebra_simps)
  qed
  have pos: "za > 0" "zb > 0" using unat_positive [OF m(1)] unat_positive [OF m(3)] by (simp_all only: za_def zb_def zero_less_mult_iff p2_simps simp_thms)
  have out: "(s, m) = (if sa = sb then (sa, wa + wb) else if wa \<ge> wb then (sa, wa - wb) else (sb, wb - wa))"
    using run by (auto simp: add_raw_def Let_def wa_def wb_def base top_def split: if_splits)
  note sum = add_aligned [OF pair small pos out]
  have "\<bar>t\<bar> = \<bar>with_sign sa za + with_sign sb zb\<bar> * p2 base" by (simp add: t abs_mult)
  moreover have "t < 0 \<longleftrightarrow> with_sign sa za + with_sign sb zb < 0" "t = 0 \<longleftrightarrow> with_sign sa za + with_sign sb zb = 0"
    by (simp_all add: t mult_less_0_iff)
  moreover have "m = 0 \<longleftrightarrow> unat m = 0" by (simp add: unat_0_iff)
  ultimately show ?thesis using sum by metis
qed

lemma sum_rounds:
  assumes f: "fmt_ok f" and m: "ma \<noteq> 0" "unat ma < 2 ^ 110" "mb \<noteq> 0" "unat mb < 2 ^ 110"
    and run: "add_raw sa ma ea sb mb eb = (s, m, base)"
  defines "t \<equiv> with_sign sa (unat ma * p2 ea) + with_sign sb (unat mb * p2 eb)"
  shows "m = 0 \<longleftrightarrow> t = 0" and "t \<noteq> 0 \<Longrightarrow> rounds_to f r (t < 0) \<bar>t\<bar> (round_pack f s m base r)"
proof -
  note sum = add_raw_sum [OF m run, folded t_def]
  then show "m = 0 \<longleftrightarrow> t = 0" by blast
  assume "t \<noteq> 0"
  then have s: "s \<longleftrightarrow> t < 0" and m0: "m \<noteq> 0" and hi: "unat m < 2 ^ 127" using sum by auto
  obtain y where y: "\<bar>t\<bar> = y * p2 base" "stuck (unat m) y" using sum by blast
  from y(2) show "rounds_to f r (t < 0) \<bar>t\<bar> (round_pack f s m base r)"
    unfolding stuck_def y(1) s [symmetric]
  proof
    assume *: "odd (unat m) \<and> \<bar>y - real (unat m)\<bar> < 1 \<and> 2 ^ 100 \<le> unat m"
    have "(2::nat) ^ (fmt_sig f + 2) \<le> 2 ^ 100" using fmt_facts [OF f] by (intro power_increasing) auto
    then show "rounds_to f r s (y * p2 base) (round_pack f s m base r)"
      using * by (intro round_pack_near [OF f _ hi]) auto
  qed (use round_pack_rounds [OF f m0 hi] in simp)
qed

text \<open>What the code makes of a sum, the exact zero included.\<close>

lemma signed_sum_rounds:
  assumes f: "fmt_ok f" and m: "ma \<noteq> 0" "unat ma < 2 ^ 110" "mb \<noteq> 0" "unat mb < 2 ^ 110"
    and t: "t = with_sign sa (unat ma * p2 ea) + with_sign sb (unat mb * p2 eb)"
    and res: "res = (case add_raw sa ma ea sb mb eb of
        (s, l, base) \<Rightarrow> if l = 0 then (fzero f (zero_sign r), 0) else round_pack f s l base r)"
  shows "if t = 0 then res = (fzero f (if sa = sb then sb else r = Rdn), 0) else rounds_to f r (t < 0) \<bar>t\<bar> res"
proof -
  obtain s l base where run: "add_raw sa ma ea sb mb eb = (s, l, base)" by (metis prod_cases3)
  note sum = sum_rounds [OF f m run, folded t]
  have "unat ma * p2 ea > 0" "unat mb * p2 eb > 0"
    using unat_positive [OF m(1)] unat_positive [OF m(3)] by (simp_all add: zero_less_mult_iff)
  then have "sa \<noteq> sb" if "t = 0"
    using that by (auto simp: t with_sign_def split: if_splits)
  moreover have "res = (if l = 0 then (fzero f (zero_sign r), 0) else round_pack f s l base r)"
    by (simp add: res run)
  ultimately show ?thesis using sum by (auto simp: zero_sign_def)
qed

section \<open>Numbers that are already rounded\<close>

definition fval :: "fmt \<Rightarrow> u64 \<Rightarrow> real" where
  "fval f x = with_sign (fneg f x) (fmag f x)"

lemma flip_sign:
  fixes x neg
  assumes f: "fmt_ok f"
  defines "y \<equiv> (x AND fmt_mask f) XOR (if neg then sign_mask f else 0)"
  shows "fneg f y = (fneg f x \<noteq> neg)" and "fmag f y = fmag f x" and "ffinite f y = ffinite f x" and "y AND fmt_mask f = y"
proof -
  note facts = fmt_facts [OF f]
  have bits: "bit y k \<longleftrightarrow> k < fmt_bits f \<and> bit x k \<noteq> (neg \<and> k = fmt_bits f - 1)" if "k < 64" for k
    using that facts by (auto simp: y_def bit_simps)
  have "take_bit (exp_bits f) (drop_bit (fmt_sig f) y) = take_bit (exp_bits f) (drop_bit (fmt_sig f) x)"
    using facts by (intro bit_word_eqI) (auto simp: bit_take_bit_iff bit_drop_bit_eq bits)
  moreover have "take_bit (fmt_sig f) y = take_bit (fmt_sig f) x"
    using facts by (intro bit_word_eqI) (auto simp: bit_take_bit_iff bits)
  ultimately have "ffield f y = ffield f x" "ffrac f y = ffrac f x" by (simp_all add: ffield_def ffrac_def)
  then show "fmag f y = fmag f x" "ffinite f y = ffinite f x" by (simp_all add: fmag_def ffinite_def)
  show "fneg f y = (fneg f x \<noteq> neg)" using facts bits [of "fmt_bits f - 1"] by (auto simp: fneg_def)
  show "y AND fmt_mask f = y" using facts by (intro bit_word_eqI) (auto simp: bit_and_iff bit_mask_iff bits)
qed

lemma round_at_int [simp]: "round_at r s (real_of_int n) = n"
  by (cases r) (auto simp: round_at_def floor_eq_iff)

lemma exact_rounds:
  assumes f: "fmt_ok f" and y: "ffinite f y" "fmag f y > 0" "y AND fmt_mask f = y"
  shows "rounds_to f r (fneg f y) (fmag f y) (y, 0)"
proof -
  obtain n j where nj: "fmag f y = real n * p2 j" "n < 2 ^ (fmt_sig f + 1)" "min_e f \<le> j" "j + int (fmt_sig f) \<le> bias f"
    using fmag_form [OF f y(1)] by blast
  define k where "k = ulp_exponent f (fmag f y)"
  have lt: "fmag f y < p2 (j + int (fmt_sig f) + 1)"
  proof -
    have "real n < real (2 ^ (fmt_sig f + 1))" using nj(2) by (simp only: of_nat_less_iff)
    then have "real n * p2 j < 2 ^ (fmt_sig f + 1) * p2 j" by (intro mult_strict_right_mono) simp_all
    then show ?thesis by (simp add: nj(1) p2_add)
  qed
  have "p2 \<lfloor>log 2 (fmag f y)\<rfloor> < p2 (j + int (fmt_sig f) + 1)"
    using binade(1) [OF y(2)] lt by (rule order_le_less_trans)
  then have "\<lfloor>log 2 (fmag f y)\<rfloor> < j + int (fmt_sig f) + 1" by (simp only: p2_less_iff)
  then have kj: "k \<le> j" using nj(3) by (simp add: k_def ulp_exponent_def)
  then have x: "fmag f y / p2 k = real_of_int (int (n * 2 ^ nat (j - k)))"
    by (simp add: nj(1) flip: p2_nat) (simp add: p2_diff)
  have "p2 (j + int (fmt_sig f) + 1) \<le> p2 (bias f + 1)" using nj(4) by simp
  then have "\<not> fmag f y \<ge> p2 (bias f + 1)" using lt by linarith
  moreover have "real_of_int (int (n * 2 ^ nat (j - k))) * p2 k = fmag f y" by (simp only: x [symmetric]) simp
  ultimately show ?thesis
    unfolding rounds_to_def k_def [symmetric] x Let_def round_at_int using y by simp
qed

lemma flipped_rounds:
  fixes x neg
  assumes f: "fmt_ok f" and x: "ffinite f x" "fmag f x > 0"
  defines "y \<equiv> (x AND fmt_mask f) XOR (if neg then sign_mask f else 0)" and "t \<equiv> with_sign (fneg f x \<noteq> neg) (fmag f x)"
  shows "rounds_to f r (t < 0) \<bar>t\<bar> (y, 0)" and "t \<noteq> 0"
proof -
  note y = flip_sign [OF f, of x neg, folded y_def]
  have "rounds_to f r (fneg f y) (fmag f y) (y, 0)" using y x by (intro exact_rounds [OF f]) simp_all
  moreover have "t < 0 \<longleftrightarrow> fneg f y" "\<bar>t\<bar> = fmag f y" using x by (auto simp: t_def y with_sign_def)
  ultimately show "rounds_to f r (t < 0) \<bar>t\<bar> (y, 0)" by simp
  show "t \<noteq> 0" using x by (auto simp: t_def with_sign_def)
qed

lemma add_or_sub_rounds:
  fixes neg
  assumes f: "fmt_ok f" and a: "ffinite f a" and b: "ffinite f b"
  defines "t \<equiv> fval f a + with_sign neg (fval f b)" and "sb \<equiv> fneg f b \<noteq> neg"
  shows "if t = 0 then add_or_sub f a b r neg = (fzero f (if fneg f a = sb then sb else r = Rdn), 0)
     else rounds_to f r (t < 0) \<bar>t\<bar> (add_or_sub f a b r neg)"
proof -
  have t: "t = with_sign (fneg f a) (fmag f a) + with_sign sb (fmag f b)"
    by (simp add: t_def sb_def fval_def with_sign_def)
  have unpb: "\<exists>c. unpack f b = (fneg f b, c)" using unpack_sign [OF f, of b] by metis
  from f a show ?thesis
  proof (cases rule: operand_cases)
    case zero
    note za = zero
    from f b show ?thesis
    proof (cases rule: operand_cases)
      case zero
      then show ?thesis
        by (simp add: t za with_sign_def add_or_sub_def sb_def zero_sign_def is_nan_def)
    next
      case (num m e)
      have "add_or_sub f a b r neg = ((b AND fmt_mask f) XOR (if neg then sign_mask f else 0), 0)"
        by (simp add: add_or_sub_def za num(1) is_nan_def)
      moreover have "t = with_sign sb (fmag f b)" by (simp add: t za(1) with_sign_def)
      ultimately show ?thesis
        using flipped_rounds [OF f b num(3), where neg = neg] by (simp add: sb_def)
    qed
  next
    case (num m e)
    note na = num
    from f b show ?thesis
    proof (cases rule: operand_cases)
      case zero
      have "add_or_sub f a b r neg = ((a AND fmt_mask f) XOR (if False then sign_mask f else 0), 0)"
        by (simp add: add_or_sub_def zero na(1) is_nan_def)
      moreover have "t = with_sign (fneg f a) (fmag f a)" by (simp add: t zero(1) with_sign_def)
      ultimately show ?thesis
        using flipped_rounds [OF f a na(3), where neg = False] by simp
    next
      case (num n g)
      have "(2::nat) ^ (fmt_sig f + 1) \<le> 2 ^ 110" using fmt_facts [OF f] by (intro power_increasing) auto
      then have small: "unat m < 2 ^ 110" "unat n < 2 ^ 110" using na(6) num(6) by linarith+
      show ?thesis
        by (rule signed_sum_rounds [OF f na(4) small(1) num(4) small(2)])
           (simp_all add: t na(2) num(2) add_or_sub_def na(1) num(1) is_nan_def sb_def)
    qed
  qed
qed

text \<open>
  C11. Addition and subtraction are correctly rounded: an exact zero has the common sign of its
  operands, or the one the rounding mode decides, and any other sum is rounded once, however
  far apart the operands lie and however much they cancel.
\<close>

theorem addition_rounds:
  fixes f a b r
  assumes "fmt_ok f" and "ffinite f a" and "ffinite f b"
  defines "added \<equiv> fval f a + fval f b" and "difference \<equiv> fval f a - fval f b"
  shows "(if added = 0 then fadd f a b r = (fzero f (if fneg f a = fneg f b then fneg f b else r = Rdn), 0)
          else rounds_to f r (added < 0) \<bar>added\<bar> (fadd f a b r))
    \<and> (if difference = 0 then fsub f a b r = (fzero f (if fneg f a \<noteq> fneg f b then \<not> fneg f b else r = Rdn), 0)
       else rounds_to f r (difference < 0) \<bar>difference\<bar> (fsub f a b r))"
  using add_or_sub_rounds [OF assms(1-3), of False r] add_or_sub_rounds [OF assms(1-3), of True r]
  unfolding added_def difference_def fadd_def fsub_def by (auto simp: with_sign_def)

theorem addition_rounds_witness:
  "rounds_to fmt_S Rne True (1/2) (fsub fmt_S 0x3fc00000 0x40000000 Rne)"
  using addition_rounds [OF single_ok single_numbers(1) single_numbers(4), of Rne]
  by (simp add: single_numbers fval_def with_sign_def)

section \<open>The fused operations\<close>

lemma class_of_finite: "fmt_ok f \<Longrightarrow> ffinite f x \<Longrightarrow> unpack f x = (n, k) \<Longrightarrow> k \<noteq> CInf \<and> \<not> is_nan k"
  by (elim operand_cases) (auto simp: is_nan_def)

text \<open>The product of two classified operands, \<open>None\<close> when it is zero.\<close>

definition product_of :: "cls \<Rightarrow> cls \<Rightarrow> (u128 \<times> int) option" where
  "product_of ca cb = (case (ca, cb) of (CNum ma ea, CNum mb eb) \<Rightarrow> Some (ma * mb, ea + eb) | _ \<Rightarrow> None)"

lemma product_exact:
  assumes f: "fmt_ok f" and a: "ffinite f a" and b: "ffinite f b"
    and un: "unpack f a = (sa, ca)" "unpack f b = (sb, cb)"
  obtains (none) "product_of ca cb = None" "fmag f a * fmag f b = 0"
    | (some) m e where "product_of ca cb = Some (m, e)" "fmag f a * fmag f b = unat m * p2 e" "m \<noteq> 0" "unat m < 2 ^ 106"
  using f a
proof (cases rule: operand_cases)
  case zero
  then show thesis using un by (intro none) (simp_all add: product_of_def)
next
  case (num m e)
  note ma = num
  from f b show thesis
  proof (cases rule: operand_cases)
    case zero
    then show thesis using un by (intro none) (simp_all add: product_of_def split: cls.split)
  next
    case (num n g)
    have facts: "fmt_sig f + 1 + (fmt_sig f + 1) \<le> 106" using fmt_facts [OF f] by simp
    note p = unat_mult_small [OF ma(6) num(6)]
    have "(2::nat) ^ (fmt_sig f + 1 + (fmt_sig f + 1)) \<le> 2 ^ 106" using facts by (intro power_increasing) auto
    then have "unat (m * n) = unat m * unat n" "unat (m * n) < 2 ^ 106" using p facts by linarith+
    moreover have "m * n \<noteq> 0" using calculation(1) ma(4) num(4) by (metis mult_eq_0_iff unat_0_iff)
    moreover have "product_of ca cb = Some (m * n, e + g)" using un ma(1) num(1) by (auto simp: product_of_def)
    moreover have "fmag f a * fmag f b = unat m * unat n * p2 (e + g)" by (simp add: ma(2) num(2) p2_add)
    ultimately show thesis using some [of "m * n" "e + g"] by simp
  qed
qed

lemma fma_finite:
  assumes f: "fmt_ok f" and fin: "ffinite f a" "ffinite f b" "ffinite f c"
    and un: "unpack f a = (sa, ca)" "unpack f b = (sb, cb)" "unpack f c = (sc, cc)"
  shows "fma f a b c np na r =
     (case product_of ca cb of
        None \<Rightarrow> if cc = CZero then (fzero f (if ((sa \<noteq> sb) \<noteq> np) = (sc \<noteq> na) then ((sa \<noteq> sb) \<noteq> np) else zero_sign r), 0)
                else ((c AND fmt_mask f) XOR (if na then sign_mask f else 0), 0)
      | Some (m, e) \<Rightarrow>
          (case cc of
             CNum mc ec \<Rightarrow> (let (sign, m', e') = add_raw ((sa \<noteq> sb) \<noteq> np) m e (sc \<noteq> na) mc ec
                           in if m' = 0 then (fzero f (zero_sign r), 0) else round_pack f sign m' e' r)
           | _ \<Rightarrow> round_pack f ((sa \<noteq> sb) \<noteq> np) m e r))"
  using class_of_finite [OF f fin(1) un(1)] class_of_finite [OF f fin(2) un(2)] class_of_finite [OF f fin(3) un(3)]
  unfolding fma_def Let_def un prod.case product_of_def by simp

text \<open>
  C15. The fused operations round once: product and sum are exact, whatever the signs requested
  for the product and the addend, and an exact zero has the sign the rounding mode decides.
\<close>

theorem fma_rounds:
  fixes np na
  assumes f: "fmt_ok f" and a: "ffinite f a" and b: "ffinite f b" and c: "ffinite f c"
  defines "t \<equiv> with_sign np (fval f a * fval f b) + with_sign na (fval f c)"
    and "sp \<equiv> ((fneg f a \<noteq> fneg f b) \<noteq> np)" and "sc \<equiv> fneg f c \<noteq> na"
  shows "if t = 0 then fma f a b c np na r = (fzero f (if sp = sc then sp else r = Rdn), 0)
     else rounds_to f r (t < 0) \<bar>t\<bar> (fma f a b c np na r)"
proof -
  have t: "t = with_sign sp (fmag f a * fmag f b) + with_sign sc (fmag f c)"
    by (simp add: t_def sp_def sc_def fval_def with_sign_def)
  have facts: "fmt_sig f + 1 + (fmt_sig f + 1) \<le> 106" "fmt_sig f + 1 \<le> 110" using fmt_facts [OF f] by simp_all
  obtain ca cb cc where un: "unpack f a = (fneg f a, ca)" "unpack f b = (fneg f b, cb)" "unpack f c = (fneg f c, cc)"
    using unpack_sign [OF f] by metis
  note run = fma_finite [OF f a b c un, of np na r, folded sp_def sc_def]
  from f c show ?thesis
  proof (cases rule: operand_cases)
    case zero
    then have cc: "cc = CZero" using un by simp
    from f a b un(1,2) show ?thesis
    proof (cases rule: product_exact)
      case none
      then show ?thesis by (simp add: t zero(1) with_sign_def run cc zero_sign_def)
    next
      case p: (some m e)
      have "unat m < 2 ^ 127" using p(4) by simp
      note round_pack_rounds [OF f p(3) this, of r sp e]
      moreover have pos: "unat m * p2 e > 0" using unat_positive [OF p(3)] by (simp add: zero_less_mult_iff)
      moreover have "t \<noteq> 0" "t < 0 \<longleftrightarrow> sp" "\<bar>t\<bar> = unat m * p2 e"
        using pos unfolding t zero(1) p(2) with_sign_def by auto
      ultimately show ?thesis by (simp only: run p(1) cc option.case prod.case cls.case if_False)
    qed
  next
    case (num n g)
    then have cc: "cc = CNum n g" using un by simp
    from f a b un(1,2) show ?thesis
    proof (cases rule: product_exact)
      case p: none
      have "t = with_sign sc (fmag f c)" unfolding t p(2) by (simp add: with_sign_def)
      then show ?thesis
        using flipped_rounds(1) [OF f c num(3), where neg = na and r = r] flipped_rounds(2) [OF f c num(3), where neg = na] by (simp add: run p(1) cc sc_def)
    next
      case p: (some m e)
      have "(2::nat) ^ (fmt_sig f + 1) \<le> 2 ^ 110" using facts by (intro power_increasing) auto
      then have small: "unat m < 2 ^ 110" "unat n < 2 ^ 110" using p(4) num(6) by simp_all
      have "if t = 0 then fma f a b c np na r = (fzero f (if sp = sc then sc else r = Rdn), 0)
          else rounds_to f r (t < 0) \<bar>t\<bar> (fma f a b c np na r)"
        by (rule signed_sum_rounds [OF f p(3) small(1) num(4) small(2)])
           (simp_all add: t p(2) num(2) run p(1) cc)
      then show ?thesis by (simp cong: if_cong)
    qed
  qed
qed

theorem fma_rounds_witness:
  "rounds_to fmt_S Rne True 1 (fma fmt_S 0x3fc00000 0x40000000 0x40000000 True False Rne)"
  using fma_rounds [OF single_ok single_numbers(1) single_numbers(4) single_numbers(4), of True False Rne]
  by (simp add: single_numbers fval_def with_sign_def)

end
