(* ===== verification/Fp_Convert.thy ===== *)
theory Fp_Convert
  imports Fp_Arith
begin

text \<open>
  Conversions between formats and to and from integers, and the comparisons: the integer key
  they compare orders the bit patterns as the numbers they stand for.
\<close>

section \<open>Conversions\<close>

lemma convert_format_rounds:
  assumes f: "fmt_ok from" and to: "fmt_ok to" and a: "ffinite from a"
  shows "if fmag from a = 0 then fconvert from to a r = (fzero to (fneg from a), 0)
     else rounds_to to r (fneg from a) (fmag from a) (fconvert from to a r)"
  using f a
proof (cases rule: operand_cases)
  case zero
  then show ?thesis by (simp add: fconvert_def)
next
  case (num m e)
  have "(2::nat) ^ (fmt_sig from + 1) \<le> 2 ^ 127" using fmt_facts [OF f] by (intro power_increasing) auto
  then have "unat m < 2 ^ 127" using num(6) by linarith
  then have "rounds_to to r (fneg from a) (fmag from a) (round_pack to (fneg from a) m e r)"
    unfolding num(2) by (rule round_pack_rounds [OF to num(4)])
  then show ?thesis using num(3) by (simp add: fconvert_def num(1))
qed

lemma from_int_rounds:
  assumes f: "fmt_ok f" and m: "m \<noteq> 0"
  shows "rounds_to f r s (real (unat m)) (from_int f s m r)"
proof -
  have lt: "unat m < 2 ^ LENGTH(64)" by (rule unsigned_less)
  then have u: "unat (ucast m :: u128) = unat m" by (simp add: unsigned_ucast_eq take_bit_nat_eq_self)
  with lt have "unat (ucast m :: u128) < 2 ^ 127" by simp
  moreover have "(ucast m :: u128) \<noteq> 0" using m u by (metis unat_0_iff)
  ultimately show ?thesis using round_pack_rounds [OF f, of "ucast m" r s 0] unfolding u from_int_def by simp
qed

text \<open>
  C39. Conversions into a format are correctly rounded: from the other format, keeping the sign of
  a zero, and from the magnitude and sign of an integer.
\<close>

theorem conversions_round:
  assumes "fmt_ok from" and "fmt_ok to" and "ffinite from a" and "n \<noteq> 0"
  shows "(if fmag from a = 0 then fconvert from to a r = (fzero to (fneg from a), 0)
          else rounds_to to r (fneg from a) (fmag from a) (fconvert from to a r))
    \<and> rounds_to to r s (real (unat n)) (from_int to s n r)"
  using convert_format_rounds [OF assms(1-3)] from_int_rounds [OF assms(2,4)] by blast

theorem conversions_round_witness:
  "rounds_to fmt_S Rne False 2 (fconvert fmt_S fmt_S 0x40000000 Rne) \<and> rounds_to fmt_S Rne True 7 (from_int fmt_S True 7 Rne)"
  using conversions_round [OF single_ok single_ok single_numbers(4), of 7 Rne True] by (simp add: single_numbers)

section \<open>Conversion to integers\<close>

lemma round_to_int_correct:
  assumes m: "m \<noteq> 0" "unat m < 2 ^ 126" and small: "e \<ge> 0 \<Longrightarrow> int (bit_len m) + e \<le> 127"
    and run: "round_to_int m e s r = (q, inexact)"
  shows "int (unat q) = round_at r s (unat m * p2 e)" and "inexact \<longleftrightarrow> real (unat q) \<noteq> unat m * p2 e"
proof -
  have "int (unat q) = round_at r s (unat m * p2 e) \<and> (inexact \<longleftrightarrow> real (unat q) \<noteq> unat m * p2 e)"
  proof (cases "e \<ge> 0")
    case True
    define d where "d = nat e"
    have e: "e = int d" using True by (simp add: d_def)
    have "real (unat m) * p2 e < p2 (int (bit_len m)) * p2 e"
      using bit_len_bounds(2) [OF m(1)] by (rule mult_strict_right_mono) simp
    also have "\<dots> = p2 (int (bit_len m) + e)" by (simp only: p2_add)
    also have "\<dots> \<le> p2 127" using small [OF True] by (subst p2_le_iff)
    finally have "real (unat m * 2 ^ d) < real (2 ^ 127)" unfolding e p2_nat by simp
    then have "unat m * 2 ^ d < 2 ^ 127" by (simp only: of_nat_less_iff)
    then have "unat (push_bit d m) = unat m * 2 ^ d"
      by (simp only: unsigned_push_bit_eq) (simp add: push_bit_eq_mult take_bit_eq_mod)
    then have q: "unat q = unat m * 2 ^ d" "\<not> inexact" using run True by (auto simp: round_to_int_def d_def)
    have "unat m * p2 e = real_of_int (int (unat m * 2 ^ d))" unfolding e p2_nat by simp
    then show ?thesis using q by (simp only: round_at_int q) simp
  next
    case False
    define d where "d = nat (- e)"
    obtain q0 guard sticky where sp: "split_at m d = (q0, guard, sticky)" by (metis prod_cases3)
    have x: "unat m * p2 e = real (unat m) / 2 ^ d"
    proof -
      have "e = - int d" using False by (simp add: d_def)
      then have "p2 e = 1 / p2 (int d)" by (simp only: power_int_minus_divide)
      then show ?thesis by (simp only: p2_nat) simp
    qed
    have s: "splits (unat m * p2 e) (unat q0) guard sticky"
      unfolding x using split_at_splits [of d m q0 guard sticky] sp m False by (simp add: d_def)
    have "real (unat q0) \<le> real (unat m) / 2 ^ d" using s unfolding x by (simp only: splits_def)
    also have "\<dots> \<le> real (unat m) / 1" by (intro divide_left_mono of_nat_0_le_iff) simp_all
    finally have "real (unat q0) \<le> real (unat m)" by simp
    then have q0: "unat q0 < 2 ^ 126" using m(2) by (simp only: of_nat_le_iff)
    have "q = q0 + of_bool (rounds_up r s q0 guard sticky)" and i: "inexact \<longleftrightarrow> guard \<or> sticky"
      using run False sp by (simp_all add: round_to_int_def d_def)
    then have q: "unat q = unat q0 + of_bool (rounds_up r s q0 guard sticky)"
      using q0 by (simp add: unat_word_ariths)
    moreover have "inexact \<longleftrightarrow> real (unat q) \<noteq> unat m * p2 e"
      unfolding i q using rounds_up_exact [OF s] by blast
    ultimately show ?thesis using splits_rounds [OF s HOL.refl, of r s] by simp
  qed
  then show "int (unat q) = round_at r s (unat m * p2 e)" and "inexact \<longleftrightarrow> real (unat q) \<noteq> unat m * p2 e"
    by blast+
qed

lemma narrow_minus: "(ucast (- v) :: u64) = - ucast (v :: u128)"
proof (transfer, simp)
  fix v :: int
  have "take_bit 64 (- take_bit 128 v) = take_bit 64 (- take_bit 64 (take_bit 128 v))" by (simp only: take_bit_minus)
  also have "\<dots> = take_bit 64 (- take_bit 64 v)" by simp
  also have "\<dots> = take_bit 64 (- v)" by (simp only: take_bit_minus)
  finally show "take_bit 64 (- v) = take_bit 64 (- take_bit 128 v)" by simp
qed

definition int_low :: "nat \<Rightarrow> bool \<Rightarrow> int" where
  "int_low w signd = (if signd then - (2 ^ (w - 1)) else 0)"

definition int_high :: "nat \<Rightarrow> bool \<Rightarrow> int" where
  "int_high w signd = (if signd then 2 ^ (w - 1) - 1 else 2 ^ w - 1)"

lemma int_limits:
  fixes signd
  assumes "w = 32 \<or> w = 64"
  defines "max_pos \<equiv> (if signd then push_bit (w - 1) 1 - 1 else push_bit w 1 - 1) :: u128"
    and "min_mag \<equiv> (if signd then push_bit (w - 1) 1 else 0) :: u128"
  shows "int (unat max_pos) = int_high w signd" and "int (unat min_mag) = - int_low w signd"
    and "(ucast max_pos :: u64) = word_of_int (int_high w signd)"
    and "(if signd then ucast (- min_mag) else 0 :: u64) = word_of_int (int_low w signd)"
    and "int_low w signd \<le> 0" "0 < int_high w signd" "int_high w signd < 2 ^ 64" "- (2 ^ 64) < int_low w signd"
  using assms(1) unfolding max_pos_def min_mag_def int_low_def int_high_def by (cases signd; auto)+

text \<open>The test on exponents that the code makes first finds only values out of every range.\<close>

lemma huge_value:
  assumes "m \<noteq> 0" and "e \<ge> 0" and "int (bit_len m) + e > 127"
  shows "2 ^ 64 \<le> round_at r s (unat m * p2 e)"
proof -
  have x: "unat m * p2 e = real_of_int (int (unat m * 2 ^ nat e))"
    using assms(2) by (simp add: power_int_nonneg_exp)
  have "p2 64 \<le> p2 (int (bit_len m) - 1 + e)" using assms(2,3) by (subst p2_le_iff) simp
  also have "\<dots> \<le> unat m * p2 e"
    unfolding p2_add using bit_len_bounds(1) [OF assms(1)] by (rule mult_right_mono) simp
  finally have "real_of_int (2 ^ 64) \<le> real_of_int (round_at r s (unat m * p2 e))"
    unfolding x round_at_int by simp
  then show ?thesis by (simp only: of_int_le_iff)
qed

text \<open>
  C37. Conversion to an integer rounds in the given mode and saturates: the result is the rounded
  value clamped to the range of the width, the invalid flag reports the clamping, and the inexact
  flag any other change of value.
\<close>

theorem to_int_saturates:
  fixes r signd
  assumes f: "fmt_ok f" and a: "ffinite f a" and w: "w = 32 \<or> w = 64"
  defines "q \<equiv> round_at r (fneg f a) (fmag f a)"
  defines "i \<equiv> (if fneg f a then - q else q)"
  shows "to_int f a w signd r =
    (word_of_int (max (int_low w signd) (min (int_high w signd) i)),
     if i < int_low w signd \<or> int_high w signd < i then NV else if real_of_int i \<noteq> fval f a then NX else 0)"
  using f a
proof (cases rule: operand_cases)
  case zero
  have "q = 0" using round_at_int [of r "fneg f a" 0] by (simp add: q_def zero(1))
  then show ?thesis
    using int_limits(5,6) [OF w, of signd] zero by (simp add: to_int_def i_def fval_def with_sign_def Let_def)
next
  case (num m e)
  define max_pos :: u128 where "max_pos = (if signd then push_bit (w - 1) 1 - 1 else push_bit w 1 - 1)"
  define min_mag :: u128 where "min_mag = (if signd then push_bit (w - 1) 1 else 0)"
  let ?lo = "int_low w signd" and ?hi = "int_high w signd"
  note lim = int_limits [OF w, of signd, folded max_pos_def min_mag_def]
  have "(2::nat) ^ (fmt_sig f + 1) \<le> 2 ^ 126" using fmt_facts [OF f] by (intro power_increasing) auto
  then have m: "unat m < 2 ^ 126" using num(6) by linarith
  have run: "to_int f a w signd r =
     (if e \<ge> 0 \<and> int (bit_len m) + e > 127 then (if fneg f a then word_of_int ?lo else word_of_int ?hi, NV)
      else let (q, inexact) = round_to_int m e (fneg f a) r
           in if fneg f a then (if q > min_mag then (word_of_int ?lo, NV) else (ucast (- q), if inexact then NX else 0))
              else (if q > max_pos then (word_of_int ?hi, NV) else (ucast q, if inexact then NX else 0)))"
    unfolding to_int_def num(1) prod.case Let_def cls.case max_pos_def [symmetric] min_mag_def [symmetric] lim(3,4)
    by (rule HOL.refl)
  show ?thesis
  proof (cases "e \<ge> 0 \<and> int (bit_len m) + e > 127")
    case True
    then have "2 ^ 64 \<le> q" unfolding q_def num(2) by (intro huge_value [OF num(4)]) simp_all
    then show ?thesis using True lim(5-8) by (auto simp: run i_def)
  next
    case False
    obtain qq inexact where ri: "round_to_int m e (fneg f a) r = (qq, inexact)" by fastforce
    have small: "int (bit_len m) + e \<le> 127" if "e \<ge> 0" using that False by simp
    have q: "q = int (unat qq)"
      using round_to_int_correct(1) [OF num(4) m small ri] by (simp only: q_def num(2))
    have "inexact \<longleftrightarrow> real_of_int q \<noteq> fmag f a"
      using round_to_int_correct(2) [OF num(4) m small ri] by (simp only: q of_int_of_nat_eq num(2))
    then have ix: "inexact \<longleftrightarrow> real_of_int i \<noteq> fval f a" by (auto simp: i_def fval_def with_sign_def)
    have cmp: "qq > min_mag \<longleftrightarrow> q > - ?lo" "qq > max_pos \<longleftrightarrow> q > ?hi"
      unfolding word_less_nat_alt q lim(1) [symmetric] lim(2) [symmetric] by (simp_all only: of_nat_less_iff)
    have cast: "(ucast qq :: u64) = word_of_int q" "(ucast (- qq) :: u64) = word_of_int (- q)"
      by (simp_all add: q narrow_minus)
    have q0: "0 \<le> q" by (simp only: q of_nat_0_le_iff)
    show ?thesis
      unfolding run ri if_not_P [OF False] Let_def prod.case cmp cast ix using lim(5,6) q0
      by (cases "fneg f a") (simp_all add: i_def min_def max_def)
  qed
qed

theorem to_int_saturates_witness:
  "to_int fmt_S 0x40000000 32 True Rtz = (2, 0)"
proof -
  have "round_at Rtz False 2 = 2" using round_at_int [of Rtz False 2] by simp
  then show ?thesis
    using to_int_saturates [OF single_ok single_numbers(4), of 32 True Rtz]
    by (simp add: single_numbers int_low_def int_high_def fval_def with_sign_def)
qed

section \<open>Comparisons\<close>

definition code :: "fmt \<Rightarrow> u64 \<Rightarrow> nat" where
  "code f x = unat (take_bit (fmt_sig f + exp_bits f) x)"

lemma code_parts:
  shows "code f x = ffield f x * 2 ^ fmt_sig f + ffrac f x" and "ffrac f x < 2 ^ fmt_sig f"
proof -
  have "code f x div 2 ^ fmt_sig f = unat (drop_bit (fmt_sig f) (take_bit (fmt_sig f + exp_bits f) x))"
    by (simp only: code_def unat_drop_bit_div)
  also have "\<dots> = ffield f x" by (simp add: ffield_def drop_bit_take_bit)
  finally have "code f x div 2 ^ fmt_sig f = ffield f x" .
  moreover have "code f x mod 2 ^ fmt_sig f = ffrac f x"
    by (simp add: code_def ffrac_def unat_take_bit_eq mod_mod_cancel le_imp_power_dvd)
  ultimately show "code f x = ffield f x * 2 ^ fmt_sig f + ffrac f x" by (metis div_mult_mod_eq)
  show "ffrac f x < 2 ^ fmt_sig f" by (simp add: ffrac_def unat_take_bit_less)
qed

definition decode_mag :: "fmt \<Rightarrow> nat \<Rightarrow> real" where
  "decode_mag f n = (let field = n div 2 ^ fmt_sig f; w = n mod 2 ^ fmt_sig f
     in if field = 0 then w * p2 (min_e f) else (2 ^ fmt_sig f + w) * p2 (int field - bias f - int (fmt_sig f)))"

lemma fmag_code: "fmag f x = decode_mag f (code f x)"
  using code_parts [of f x] by (simp add: fmag_def decode_mag_def Let_def)

lemma decode_mag_step: "decode_mag f n < decode_mag f (Suc n)"
proof -
  define N where "N = (2::nat) ^ fmt_sig f"
  define q w where "q = n div N" and "w = n mod N"
  have N: "N > 0" "real N = 2 ^ fmt_sig f" by (simp_all add: N_def)
  have n: "n = q * N + w" "w < N" using N(1) by (simp_all only: q_def w_def div_mult_mod_eq mod_less_divisor)
  have here: "decode_mag f n = (if q = 0 then w * p2 (min_e f) else (2 ^ fmt_sig f + w) * p2 (int q - bias f - int (fmt_sig f)))"
    by (simp add: decode_mag_def q_def w_def N_def Let_def)
  show ?thesis
  proof (cases "Suc w < N")
    case True
    moreover have "Suc n = Suc w + q * N" using n by simp
    ultimately have "Suc n div N = q" "Suc n mod N = Suc w" using N(1) by (simp_all only: div_mult_self1 mod_mult_self1 div_less mod_less)
    then have "decode_mag f (Suc n) = (if q = 0 then Suc w * p2 (min_e f) else (2 ^ fmt_sig f + Suc w) * p2 (int q - bias f - int (fmt_sig f)))"
      by (simp add: decode_mag_def N_def Let_def)
    then show ?thesis by (simp add: here)
  next
    case False
    then have w: "Suc w = N" using n by simp
    then have "Suc n = Suc q * N" using n by simp
    then have "Suc n div N = Suc q" "Suc n mod N = 0" using N by simp_all
    then have next_: "decode_mag f (Suc n) = 2 ^ fmt_sig f * p2 (int (Suc q) - bias f - int (fmt_sig f))"
      by (simp add: decode_mag_def N_def Let_def)
    have wN: "real w = 2 ^ fmt_sig f - 1" using w N by linarith
    show ?thesis
    proof (cases "q = 0")
      case True
      then show ?thesis by (simp add: here next_ wN min_e_def)
    next
      case False
      have "p2 (int (Suc q) - bias f - int (fmt_sig f)) = 2 * p2 (int q - bias f - int (fmt_sig f))"
        by (simp add: p2_diff p2_add)
      then show ?thesis using False by (simp add: here next_ wN)
    qed
  qed
qed

lemma decode_mag_mono: "decode_mag f m < decode_mag f n \<longleftrightarrow> m < n"
  using lift_Suc_mono_less [of "decode_mag f", OF decode_mag_step] by (metis less_asym linorder_neqE_nat)

lemma fkey_code:
  assumes f: "fmt_ok f"
  shows "fkey f x = (if fneg f x then - int (code f x) else int (code f x))"
proof -
  note facts = fmt_facts [OF f]
  have "(x AND fmt_mask f) AND NOT (sign_mask f) = take_bit (fmt_sig f + exp_bits f) x"
    using facts by (intro bit_word_eqI) (auto simp: bit_simps)
  moreover have "sint (take_bit (fmt_sig f + exp_bits f) x) = int (code f x)"
  proof -
    define v where "v = take_bit (fmt_sig f + exp_bits f) x"
    have "\<not> bit (uint v) 63" using facts(14) by (simp add: v_def bit_uint_iff bit_take_bit_iff)
    then have "sint v = take_bit 63 (uint v)" by (simp add: sint_uint signed_take_bit_eq_if_positive)
    also have "\<dots> = uint (take_bit 63 v)" by (simp add: unsigned_take_bit_eq)
    also have "take_bit 63 v = v" using facts(14) by (simp add: v_def min_absorb2)
    finally show ?thesis unfolding v_def code_def by simp
  qed
  moreover have "(x AND fmt_mask f) AND sign_mask f \<noteq> 0 \<longleftrightarrow> fneg f x"
    using facts by (auto simp: fneg_def push_bit_eq_mult and_exp_eq_0_iff_not_bit bit_and_iff bit_mask_iff)
  ultimately show ?thesis by (simp add: fkey_def Let_def)
qed

lemma fkey_order:
  assumes f: "fmt_ok f"
  shows "fkey f a < fkey f b \<longleftrightarrow> fval f a < fval f b" and "fkey f a \<le> fkey f b \<longleftrightarrow> fval f a \<le> fval f b"
proof -
  let ?g = "decode_mag f"
  have zero: "?g 0 = 0" by (simp add: decode_mag_def)
  have pos: "?g n > 0 \<longleftrightarrow> n > 0" "?g n \<ge> 0" for n
    using decode_mag_mono [of f 0 n] decode_mag_mono [of f n 0] zero by auto
  have opposite: "- int m < int n \<longleftrightarrow> - ?g m < ?g n" "int m < - int n \<longleftrightarrow> ?g m < - ?g n" for m n
    using pos [of m] pos [of n] by linarith+
  have less: "fkey f a < fkey f b \<longleftrightarrow> fval f a < fval f b" for a b
    unfolding fkey_code [OF f] fval_def with_sign_def fmag_code
    by (cases "fneg f a"; cases "fneg f b") (simp_all only: if_True if_False opposite neg_less_iff_less of_nat_less_iff decode_mag_mono)
  show "fkey f a < fkey f b \<longleftrightarrow> fval f a < fval f b" by (rule less)
  show "fkey f a \<le> fkey f b \<longleftrightarrow> fval f a \<le> fval f b" using less [of b a] by (simp add: not_less [symmetric])
qed

lemma finite_not_nan: "fmt_ok f \<Longrightarrow> ffinite f a \<Longrightarrow> \<not> is_nan (snd (unpack f a))"
  by (cases rule: operand_cases, assumption, assumption) (simp_all add: is_nan_def)

text \<open>
  C38. The comparisons compare the numbers: for finite operands of any sign, both zeros included,
  less, less-or-equal and equal are those of the real numbers and raise no flag.
\<close>

theorem comparisons_order:
  assumes "fmt_ok f" and "ffinite f a" and "ffinite f b"
  shows "flt f a b False = (fval f a < fval f b, 0) \<and> flt f a b True = (fval f a \<le> fval f b, 0)
    \<and> feq f a b = (fval f a = fval f b, 0)"
  using finite_not_nan [OF assms(1)] assms(2,3) fkey_order [OF assms(1), of a b] fkey_order(2) [OF assms(1), of b a]
  by (auto simp: flt_def feq_def Let_def)

theorem comparisons_order_witness:
  "flt fmt_S 0x3fc00000 0x40000000 False = (True, 0)"
  using comparisons_order [OF single_ok single_numbers(1) single_numbers(4)]
  by (simp add: single_numbers fval_def with_sign_def)

end
