(* ===== verification/Firmware.thy ===== *)
theory Firmware
  imports Hart
begin

text \<open>
  What the firmware layer, \<^verbatim>\<open>emu/src/sbi.rs\<close>, promises the kernel that calls it: where it answers,
  what it leaves alone, which calls do not return, and that a console write transmits the bytes of
  the buffer it is given.
\<close>

section \<open>What a call leaves alone\<close>

definition same_program :: "cpu \<Rightarrow> cpu \<Rightarrow> bool" where
  "same_program c c' \<longleftrightarrow>
     fregs c' = fregs c \<and> pc c' = pc c \<and> priv_mode c' = priv_mode c \<and> xlen c' = xlen c
     \<and> reservation c' = reservation c \<and> dram (mem c') = dram (mem c) \<and> tohost (mem c') = tohost (mem c)"

lemma mem_read_tohost [simp]: "tohost (snd (mem_read a n m)) = tohost m"
  by (simp add: mem_read_def Let_def split: option.split prod.split)

interpretation firmware_program: firmware_contract same_program
  by unfold_locales
    (auto simp: same_program_def set_reg_def set_timer_def flush_tlb_def upd_csrs_def upd_mem_def)

lemma set_reg_other [simp]: "r \<noteq> q \<Longrightarrow> regs (set_reg q v c) r = regs c r"
  by (simp add: set_reg_def)

lemma effects_keep_regs [simp]:
  "regs (sbi_putchar v c) = regs c" "regs (set_timer w c) = regs c" "regs (flush_tlb c) = regs c"
  "regs (upd_csrs g c) = regs c" "regs (upd_mem f c) = regs c"
  by (simp_all add: sbi_putchar_def set_timer_def flush_tlb_def upd_csrs_def upd_mem_def)

lemma dbcn_loop_keeps_regs [simp]: "regs (snd (dbcn_loop n a i c)) = regs c"
  by (induction n arbitrary: i c) (simp_all add: on_mem_run split: sum.split)

lemma dbcn_loop_regs: "dbcn_loop n a i c = (w, c') \<Longrightarrow> regs c' = regs c"
  using dbcn_loop_keeps_regs [of n a i c] by simp

lemma legacy_keeps_regs:
  "r \<noteq> 10 \<Longrightarrow> regs (snd (sbi_legacy eid c)) r = regs c r"
  by (auto simp: sbi_legacy_def legacy_getchar_def legacy_send_ipi_def on_mem_run Let_def split: prod.split sum.split)

lemma modern_keeps_regs: "sbi_modern eid fid c = Some (r, c') \<Longrightarrow> regs c' = regs c"
  by (auto dest!: dbcn_loop_regs simp: sbi_modern_def Let_def split: if_splits prod.splits)

text \<open>
  C27. A call of the firmware answers in the registers a0 and a1 and leaves every other register,
  the program counter, the privilege mode, the floating-point registers and all of the DRAM alone.
  It returns to the caller unless the kernel asked for a shutdown, by the legacy call or by a
  system reset.
\<close>

theorem firmware_answers_in_a0_a1:
  "same_program c (snd (handle_sbi c))
   \<and> regs (snd (handle_sbi c)) =
       (regs c)(10 := regs (snd (handle_sbi c)) 10, 11 := regs (snd (handle_sbi c)) 11)
   \<and> (fst (handle_sbi c) \<longleftrightarrow>
        \<not> (regs c 17 = LEGACY_SHUTDOWN \<or> (regs c 17 = EXT_SRST \<and> regs c 16 = 0)))"
proof (intro conjI)
  show "same_program c (snd (handle_sbi c))" by (rule firmware_program.R_handle_sbi)
  have "regs (snd (handle_sbi c)) r = regs c r" if "r \<noteq> 10" "r \<noteq> 11" for r
    using that by (auto simp: handle_sbi_def Let_def legacy_keeps_regs dest: modern_keeps_regs split: option.split)
  then show "regs (snd (handle_sbi c)) =
       (regs c)(10 := regs (snd (handle_sbi c)) 10, 11 := regs (snd (handle_sbi c)) 11)"
    by auto
  show "fst (handle_sbi c) \<longleftrightarrow>
      \<not> (regs c 17 = LEGACY_SHUTDOWN \<or> (regs c 17 = EXT_SRST \<and> regs c 16 = 0))"
    by (auto simp: handle_sbi_def sbi_legacy_def sbi_modern_def Let_def split: option.split prod.split if_splits)
qed

section \<open>The debug console\<close>

definition transmit :: "u8 list \<Rightarrow> cpu \<Rightarrow> cpu" where
  "transmit bs = upd_mem (\<lambda>m. m\<lparr>uart := (uart m)\<lparr>tx := tx (uart m) @ bs\<rparr>\<rparr>)"

lemma transmit_Nil [simp]: "transmit [] c = c"
  by (simp add: transmit_def upd_mem_def)

lemma transmit_append: "transmit ys (transmit xs c) = transmit (xs @ ys) c"
  by (simp add: transmit_def upd_mem_def)

lemma putchar_transmits: "sbi_putchar v c = transmit [ucast v] c"
  by (simp add: sbi_putchar_def transmit_def putchar_def upd_mem_def)

lemma transmit_dram [simp]: "dram (mem (transmit bs c)) = dram (mem c)"
  by (simp add: transmit_def upd_mem_def)

lemma unat_u64_of_nat: "n < 2 ^ 64 \<Longrightarrow> unat (of_nat n :: u64) = n"
  by (simp only: unat_of_nat) simp

lemma stays_in_dram:
  assumes "DRAM_BASE \<le> a" and "unat (a - DRAM_BASE) + k < length (dram m)" and "addressable m"
  shows "DRAM_BASE \<le> a + of_nat k"
proof -
  have small: "unat (a - DRAM_BASE) + k < 2 ^ 63" using assms(2,3) by (simp add: addressable_def)
  have "unat a = unat (a - DRAM_BASE) + 0x80000000"
    using assms(1) by (simp add: unat_sub word_le_nat_alt)
  then have "unat a + k < 2 ^ 64" using small by simp
  then have "unat (a + of_nat k) = unat a + k"
    using unat_u64_of_nat [of "unat a + k"] by simp
  then show ?thesis using assms(1) by (simp add: word_le_nat_alt)
qed

lemma byte_read:
  assumes "DRAM_BASE \<le> a" and "unat (a - DRAM_BASE) + k < length (dram m)" and "addressable m"
  shows "mem_read (a + of_nat k) 1 m = (Inr (ucast (dram m ! (unat (a - DRAM_BASE) + k))), m)"
proof -
  have off: "unat (a + of_nat k - DRAM_BASE) = unat (a - DRAM_BASE) + k"
  proof -
    have "a + of_nat k - DRAM_BASE = of_nat (unat (a - DRAM_BASE) + k)" by simp
    moreover have "unat (a - DRAM_BASE) + k < 2 ^ 64" using assms(2,3) by (simp add: addressable_def)
    ultimately show ?thesis by (simp only: unat_u64_of_nat)
  qed
  have "DRAM_BASE \<le> a + of_nat k"
    using assms by (rule stays_in_dram)
  then have "in_dram m (a + of_nat k) 1"
    using assms(2) off by (simp add: in_dram_def)
  then show ?thesis
    using assms(2) by (simp add: dram_read [OF _ assms(3)] off slice_of_def take_Suc_conv_app_nth Cons_nth_drop_Suc [symmetric])
qed

lemma dbcn_loop_transmits:
  assumes "DRAM_BASE \<le> a" and "unat (a - DRAM_BASE) + k + n \<le> length (dram (mem c))" and "addressable (mem c)"
  shows "dbcn_loop n a (of_nat k) c
    = (of_nat (k + n), transmit (slice_of (unat (a - DRAM_BASE) + k) n (dram (mem c))) c)"
  using assms
proof (induction n arbitrary: k c)
  case 0
  then show ?case by (simp add: slice_of_def)
next
  case (Suc n)
  let ?i = "unat (a - DRAM_BASE) + k" and ?d = "dram (mem c)"
  have read: "on_mem (mem_read (a + of_nat k) 1) c = (Inr (ucast (?d ! ?i)), c)"
    using byte_read [of a k "mem c"] Suc.prems by (simp add: on_mem_run)
  have bytes: "slice_of ?i (Suc n) ?d = ?d ! ?i # slice_of (Suc ?i) n ?d"
    using Suc.prems(2) by (simp add: slice_of_def Cons_nth_drop_Suc [symmetric])
  have "dbcn_loop n a (of_nat (Suc k)) (transmit [?d ! ?i] c)
      = (of_nat (Suc k + n), transmit (slice_of (Suc ?i) n ?d) (transmit [?d ! ?i] c))"
    using Suc.IH [of "Suc k" "transmit [?d ! ?i] c"] Suc.prems by (simp add: addressable_def)
  then show ?case
    unfolding bytes using read by (simp add: putchar_transmits transmit_append add.commute)
qed

text \<open>
  C28. The console write of the firmware transmits the buffer: called with a length and a physical
  address inside the DRAM, it appends exactly those bytes, in order, to what the UART has
  transmitted, reports all of them written, and changes nothing else.
\<close>

theorem console_write_transmits:
  assumes "regs c 17 = EXT_DBCN" and "regs c 16 = 0" and "addressable (mem c)"
    and "DRAM_BASE \<le> regs c 11" and "unat (regs c 11 - DRAM_BASE) + unat (regs c 10) \<le> length (dram (mem c))"
  shows "handle_sbi c =
    (True, set_reg 11 (regs c 10) (set_reg 10 0
       (transmit (slice_of (unat (regs c 11 - DRAM_BASE)) (unat (regs c 10)) (dram (mem c))) c)))"
proof -
  have "dbcn_loop (unat (regs c 10)) (regs c 11) 0 c =
      (regs c 10, transmit (slice_of (unat (regs c 11 - DRAM_BASE)) (unat (regs c 10)) (dram (mem c))) c)"
    using dbcn_loop_transmits [of "regs c 11" 0 "unat (regs c 10)" c] assms(3-5) by simp
  then show ?thesis
    using assms(1,2) by (simp add: handle_sbi_def sbi_modern_def sbi_ok_def Let_def)
qed

definition console_hart :: cpu where
  "console_hart =
    (let c = rv64 16
     in upd_mem (\<lambda>m. m\<lparr>dram := splice 4 [0x68, 0x69, 0x0a] (dram m)\<rparr>)
          (c\<lparr>regs := (regs c)(10 := 3, 11 := DRAM_BASE + 4, 16 := 0, 17 := EXT_DBCN)\<rparr>))"

theorem console_write_transmits_witness:
  "tx (uart (mem (snd (handle_sbi console_hart)))) = [0x68, 0x69, 0x0a] \<and> regs (snd (handle_sbi console_hart)) 11 = 3"
proof -
  have regs: "regs console_hart 17 = EXT_DBCN" "regs console_hart 16 = 0" "regs console_hart 11 = DRAM_BASE + 4"
    "regs console_hart 10 = 3"
    by (simp_all add: console_hart_def upd_mem_def Let_def)
  have dram: "dram (mem console_hart) = splice 4 [0x68, 0x69, 0x0a] (replicate 16 0)"
    and tx: "tx (uart (mem console_hart)) = []"
    by (simp_all add: console_hart_def upd_mem_def Let_def rv64_def cpu_new_def mem_new_def uart_default_def)
  then have size: "addressable (mem console_hart)" by (simp add: addressable_def)
  have "slice_of 4 3 (dram (mem console_hart)) = [0x68, 0x69, 0x0a]"
    unfolding dram by (rule slice_of_splice_same) simp_all
  then show ?thesis
    using console_write_transmits [of console_hart] regs dram tx size
    by (simp add: transmit_def upd_mem_def set_reg_def)
qed

end
