(* ===== verification/Command_Line.thy ===== *)
theory Command_Line
  imports Runner
begin

text \<open>
  What the command line program promises: its options survive being written out and read back, a
  kernel and its device tree are placed where the hart is told they are, and the exit codes say
  how the run ended.
\<close>

section \<open>The command line, written and read\<close>

fun decimal :: "nat \<Rightarrow> string" where
  "decimal n = (if n < 10 then [char_of (48 + n)] else decimal (n div 10) @ [char_of (48 + n mod 10)])"

declare decimal.simps [simp del]

definition valued :: "string \<Rightarrow> string option \<Rightarrow> string list" where
  "valued flag v = (case v of None \<Rightarrow> [] | Some s \<Rightarrow> [flag, s])"

definition render :: "options \<Rightarrow> string list" where
  "render opts =
    valued ''--kernel'' (kernel_path opts) @ valued ''--dtb'' (dtb_path opts)
    @ [''--mem'', decimal (unat (mem_mib opts)), ''--sample'', decimal (unat (sample opts)),
       ''--max-steps'', decimal (unat (max_steps opts))]
    @ (case width opts of Rv32 \<Rightarrow> [''--rv32''] | Rv64 \<Rightarrow> [''--rv64''])
    @ (if tracing opts then [''--trace''] else []) @ (if quiet opts then [''--quiet''] else [])
    @ (case image_path opts of None \<Rightarrow> [] | Some p \<Rightarrow> [p])"

lemma parse_digits_append:
  "parse_digits acc (xs @ ys) = Option.bind (parse_digits acc xs) (\<lambda>n. parse_digits n ys)"
  by (induction xs arbitrary: acc) (simp_all add: Let_def)

lemma parse_one_digit: "d < 10 \<Longrightarrow> parse_digits acc [char_of (48 + d)] = Some (10 * acc + d)"
  by (simp add: of_char_of)

lemma parse_decimal: "parse_digits 0 (decimal n) = Some n"
proof (induction n rule: decimal.induct)
  case (1 n)
  show ?case
  proof (cases "n < 10")
    case True
    then show ?thesis using parse_one_digit [of n 0] by (subst decimal.simps) simp
  next
    case False
    then show ?thesis
      using 1 parse_one_digit [of "n mod 10" "n div 10"]
      by (subst decimal.simps) (simp add: parse_digits_append)
  qed
qed

lemma decimal_not_Nil: "decimal n \<noteq> []"
  by (subst decimal.simps) simp

lemma plus_is_no_digit: "parse_digits acc (CHR ''+'' # cs) = None"
  by simp

lemma hd_decimal: "hd (decimal n) \<noteq> CHR ''+''"
proof
  assume "hd (decimal n) = CHR ''+''"
  then have "decimal n = CHR ''+'' # tl (decimal n)" using decimal_not_Nil [of n] by (metis list.collapse)
  then have "parse_digits 0 (decimal n) = None" by (metis plus_is_no_digit)
  then show False by (simp add: parse_decimal)
qed

lemma parse_u64_decimal: "parse_u64 (decimal (unat w)) = Some w"
  using hd_decimal decimal_not_Nil unsigned_less [where 'a = nat, of w] by (simp add: parse_u64_def skip_plus_def parse_decimal)


lemmas one_option = takes_value_def set_value_def set_flag_def number_def parse_u64_decimal

lemma parse_valued_kernel:
  "kernel_path opts = None \<Longrightarrow>
     parse_args (valued ''--kernel'' v @ rest) opts = parse_args rest (opts\<lparr>kernel_path := v\<rparr>)"
  by (cases opts; cases v) (simp_all add: valued_def one_option)

lemma parse_valued_dtb:
  "dtb_path opts = None \<Longrightarrow>
     parse_args (valued ''--dtb'' v @ rest) opts = parse_args rest (opts\<lparr>dtb_path := v\<rparr>)"
  by (cases opts; cases v) (simp_all add: valued_def one_option)

lemma parse_numbers:
  "parse_args (''--mem'' # decimal (unat w) # rest) opts = parse_args rest (opts\<lparr>mem_mib := w\<rparr>)"
  "parse_args (''--sample'' # decimal (unat w) # rest) opts = parse_args rest (opts\<lparr>sample := w\<rparr>)"
  "parse_args (''--max-steps'' # decimal (unat w) # rest) opts = parse_args rest (opts\<lparr>max_steps := w\<rparr>)"
  by (simp_all add: one_option)

lemma parse_flags:
  "parse_args ((case w of Rv32 \<Rightarrow> [''--rv32''] | Rv64 \<Rightarrow> [''--rv64'']) @ rest) opts = parse_args rest (opts\<lparr>width := w\<rparr>)"
  "\<not> tracing opts \<Longrightarrow> parse_args ((if b then [''--trace''] else []) @ rest) opts = parse_args rest (opts\<lparr>tracing := b\<rparr>)"
  "\<not> quiet opts \<Longrightarrow> parse_args ((if b then [''--quiet''] else []) @ rest) opts = parse_args rest (opts\<lparr>quiet := b\<rparr>)"
  by (cases opts; cases w; simp add: one_option)+

lemma takes_value_dashes: "takes_value a \<Longrightarrow> take 2 a = ''--''"
  by (auto simp: takes_value_def)

lemma set_flag_image:
  assumes "take 2 a \<noteq> ''--''"
  shows "set_flag a opts = Inr (opts\<lparr>image_path := Some a\<rparr>)"
proof -
  have "a \<noteq> ''--trace''" "a \<noteq> ''--quiet''" "a \<noteq> ''--rv32''" "a \<noteq> ''--rv64''" using assms by auto
  then show ?thesis using assms by (simp only: set_flag_def if_False)
qed

lemma parse_image:
  assumes "image_path opts = None" and "\<And>p. v = Some p \<Longrightarrow> take 2 p \<noteq> ''--''"
  shows "parse_args (case v of None \<Rightarrow> [] | Some p \<Rightarrow> [p]) opts = Inr (opts\<lparr>image_path := v\<rparr>)"
proof (cases v)
  case (Some p)
  then have "take 2 p \<noteq> ''--''" using assms(2) by simp
  then have "\<not> takes_value p" and "set_flag p opts = Inr (opts\<lparr>image_path := Some p\<rparr>)"
    using takes_value_dashes set_flag_image by blast+
  then show ?thesis using Some by simp
next
  case None
  then show ?thesis using assms(1) by (cases opts) simp
qed

text \<open>
  C40. A command line written out from a set of options reads back as those options: numbers
  printed in decimal, every flag and path recovered, none dropped or confused. Asked of the options:
  a memory size (zero stands for the default) and an image name that does not look like a flag.
\<close>

theorem command_line_roundtrip:
  assumes "mem_mib opts \<noteq> 0" and "\<And>p. image_path opts = Some p \<Longrightarrow> take 2 p \<noteq> ''--''"
  shows "parse (render opts) = Inr opts"
proof -
  have "parse_args (render opts) default_options = Inr opts"
    unfolding render_def
    using assms(2)
    by (simp add: parse_valued_kernel parse_valued_dtb parse_numbers parse_flags parse_image default_options_def del: parse_args.simps)
  then show ?thesis using assms(1) by (simp add: parse_def choose_memory_def)
qed

theorem command_line_roundtrip_witness:
  "parse (render \<lparr>image_path = Some ''tests/rv32ui-p-add'', kernel_path = None, dtb_path = None,
      mem_mib = 128, width = Rv32, tracing = False, sample = 1000, quiet = True, max_steps = 18446744073709551615\<rparr>)
   = Inr \<lparr>image_path = Some ''tests/rv32ui-p-add'', kernel_path = None, dtb_path = None,
      mem_mib = 128, width = Rv32, tracing = False, sample = 1000, quiet = True, max_steps = 18446744073709551615\<rparr>"
  by (rule command_line_roundtrip) simp_all

section \<open>Placing a kernel\<close>

lemma boot_kernel_cases:
  assumes "boot_kernel files kpath dtb memory c = (Inr (), c')"
  obtains name img tree m1 m2 where "dtb = Some name" "files kpath = Some img" "files name = Some tree"
    and "load_at (DRAM_BASE + KERNEL_OFFSET) img (mem c) = (Inr (), m1)"
    and "load_at (DRAM_BASE + memory - 0x200000) tree m1 = (Inr (), m2)"
    and "c' = boot_supervisor (DRAM_BASE + KERNEL_OFFSET) 0 (DRAM_BASE + memory - 0x200000) (c\<lparr>mem := m2\<rparr>)"
  using assms
  by (auto simp: boot_kernel_def Let_def bindE_eq_Inr_iff on_mem_Inr update_def split: option.splits)

lemma boot_supervisor_entry:
  "mem (boot_supervisor ent h d c) = mem c" "pc (boot_supervisor ent h d c) = ent"
  "priv_mode (boot_supervisor ent h d c) = Supervisor" "sbi (boot_supervisor ent h d c)"
  "regs (boot_supervisor ent h d c) 10 = h" "regs (boot_supervisor ent h d c) 11 = d"
  by (simp_all add: boot_supervisor_def Let_def upd_csrs_def)

lemma boot_supervisor_regs: "regs (boot_supervisor ent h d c) = (regs c)(10 := h, 11 := d)"
  by (simp add: boot_supervisor_def Let_def upd_csrs_def)

text \<open>
  C26. When booting a kernel succeeds, the hart is in supervisor mode under the firmware layer, at the
  address of the kernel two MiB into DRAM, with hart number 0 and the address of the device tree in
  its argument registers and the other registers as at reset. Every byte of DRAM is accounted for: the
  device tree stands two MiB below the end of memory, the kernel stands at its own address wherever the
  device tree has not been put on top of it, and the rest is untouched. Nothing in the program keeps
  the two apart, against its comment.
\<close>

theorem kernel_is_placed:
  assumes "boot_kernel files kpath (Some name) memory c = (Inr (), c')"
    and "files kpath = Some img" and "files name = Some tree"
  defines "k \<equiv> 0x200000" and "t \<equiv> unat (memory - 0x200000)"
  shows "length (dram (mem c')) = length (dram (mem c))
    \<and> k + length img \<le> length (dram (mem c)) \<and> t + length tree \<le> length (dram (mem c))
    \<and> (\<forall>i < length (dram (mem c)). dram (mem c') ! i =
         (if t \<le> i \<and> i < t + length tree then tree ! (i - t)
          else if k \<le> i \<and> i < k + length img then img ! (i - k)
          else dram (mem c) ! i))
    \<and> pc c' = 0x80200000 \<and> regs c' = (regs c)(10 := 0, 11 := 0x80000000 + of_nat t)
    \<and> priv_mode c' = Supervisor \<and> sbi c'"
proof -
  obtain m1 m2 where m1: "load_at (DRAM_BASE + KERNEL_OFFSET) img (mem c) = (Inr (), m1)"
    and m2: "load_at (DRAM_BASE + memory - 0x200000) tree m1 = (Inr (), m2)"
    and c': "c' = boot_supervisor (DRAM_BASE + KERNEL_OFFSET) 0 (DRAM_BASE + memory - 0x200000) (c\<lparr>mem := m2\<rparr>)"
    using assms(1-3) by (elim boot_kernel_cases) simp
  have offs: "unat (DRAM_BASE + KERNEL_OFFSET - DRAM_BASE) = k" "unat (DRAM_BASE + memory - 0x200000 - DRAM_BASE) = t"
    by (simp_all add: k_def t_def)
  note l1 = load_at_ok [OF m1, unfolded offs] and l2 = load_at_ok [OF m2, unfolded offs]
  have "DRAM_BASE + memory - 0x200000 = 0x80000000 + of_nat t" by (simp add: t_def)
  then show ?thesis
    using l1 l2 by (auto simp: c' boot_supervisor_entry boot_supervisor_regs nth_splice)
qed

lemma small_kernel_boots:
  assumes "length (dram (mem c)) = 0x600000" and "files kpath = Some img" and "files name = Some tree"
    and "length img \<le> 0x200000" and "length tree \<le> 0x200000"
  shows "\<exists>c'. boot_kernel files kpath (Some name) 0x600000 c = (Inr (), c')"
  using assms
  by (simp add: boot_kernel_def bindE_def on_mem_def map_err_def load_at_def mem_index_def update_def Let_def)

theorem kernel_is_placed_witness:
  "\<exists>c'. boot_kernel (\<lambda>p. if p = ''Image'' then Some [1, 2, 3] else Some [9, 8]) ''Image'' (Some ''a.dtb'')
       0x600000 (rv64 0x600000) = (Inr (), c')
    \<and> dram (mem c') ! 0x400001 = 8 \<and> dram (mem c') ! 0x200002 = 3
    \<and> priv_mode c' = Supervisor \<and> regs c' 11 = 0x80400000"
proof -
  let ?files = "\<lambda>p. if p = ''Image'' then Some [1, 2, 3] else Some [9, 8 :: u8]"
  have size: "length (dram (mem (rv64 0x600000))) = 0x600000"
    by (simp add: rv64_def cpu_new_def mem_new_def)
  then obtain c' where ok: "boot_kernel ?files ''Image'' (Some ''a.dtb'') 0x600000 (rv64 0x600000) = (Inr (), c')"
    using small_kernel_boots [of "rv64 0x600000" ?files "''Image''" "[1, 2, 3]" "''a.dtb''" "[9, 8]"] by auto
  note placed = kernel_is_placed [OF ok, of "[1, 2, 3]" "[9, 8]", simplified size]
  have "dram (mem c') ! 0x400001 = 8" "dram (mem c') ! 0x200002 = 3" "priv_mode c' = Supervisor" "regs c' 11 = 0x80400000"
    using placed by (simp_all)
  then show ?thesis using ok by blast
qed

text \<open>
  Nothing keeps a kernel clear of its device tree: with four MiB of memory the tree is put at the
  very address of the kernel, the boot succeeds, and the hart enters the device tree.
\<close>

lemma device_tree_overwrites_kernel:
  assumes "length (dram (mem c)) = 0x400000" and "files kpath = Some img" and "files name = Some tree"
    and "length img \<le> 0x200000" and "length tree \<le> 0x200000"
  shows "\<exists>c'. boot_kernel files kpath (Some name) 0x400000 c = (Inr (), c')
    \<and> pc c' = DRAM_BASE + KERNEL_OFFSET \<and> slice_of (unat KERNEL_OFFSET) (length tree) (dram (mem c')) = tree"
  using assms
  by (simp add: boot_kernel_def bindE_def on_mem_def map_err_def load_at_def mem_index_def update_def Let_def
      boot_supervisor_entry)


section \<open>How the program ends\<close>

lemma load_image_code: "load_image img c = Some (Inl code, c') \<Longrightarrow> code = 2"
  by (auto simp: load_image_def map_err_def split: if_splits sum.splits prod.splits)

lemma boot_kernel_code: "boot_kernel files kpath dtb memory c = (Inl code, c') \<Longrightarrow> code = 2"
  by (auto simp: boot_kernel_def bindE_def map_err_def update_def Let_def
      split: option.splits sum.splits prod.splits)

lemma prepare_code: "prepare files opts = Some (Inl code, c) \<Longrightarrow> code = 2"
  by (auto simp: prepare_def dest: load_image_code boot_kernel_code split: option.splits)

lemma fresh_hart_memory: "length (dram (mem (fresh_hart opts))) = unat (memory_bytes opts)"
  by (simp add: fresh_hart_def upd_mem_def cpu_new_def mem_new_def)

lemma prepare_panics:
  assumes "prepare files opts = None"
  shows "\<exists>path img. kernel_path opts = None \<and> image_path opts = Some path \<and> files path = Some img
    \<and> take 4 img \<noteq> elf_magic \<and> unat (memory_bytes opts) < length img"
  using assms fresh_hart_memory [of opts]
  by (auto simp: prepare_def load_image_def mem_load_def split: option.splits if_splits sum.splits)

lemma exit_code_zero: "exit_code x = 0 \<longleftrightarrow> x = Pass \<or> x = Ecall \<or> x = Shutdown"
  by (cases x) (simp_all add: exit_code_def)

lemma exit_code_three: "exit_code x = 3 \<longleftrightarrow> x = StepLimit"
  by (cases x) (simp_all add: exit_code_def)

text \<open>
  C29. The program always comes to an end, in one of three ways. It refuses its command line or its
  input with exit code 2 before anything runs. It panics, but only over a flat image longer than the
  memory. Or it reports what the run loop ended with: code 0 exactly when the guest passed, made
  its bare environment call or shut the machine down, code 3 exactly when the steps ran out.
\<close>

theorem program_outcomes:
  "case main files args of
     Refused code \<Rightarrow> code = 2
   | Panicked \<Rightarrow> (\<exists>opts path img. parse args = Inr opts \<and> kernel_path opts = None
        \<and> image_path opts = Some path \<and> files path = Some img \<and> take 4 img \<noteq> elf_magic
        \<and> unat (memory_bytes opts) < length img)
   | Never_Ends \<Rightarrow> False
   | Finished (code, dump) log x c \<Rightarrow> (\<exists>opts c0. parse args = Inr opts \<and> prepare files opts = Some (Inr (), c0)
        \<and> run (unat (max_steps opts)) c0 = (x, c)
        \<and> (code = 0 \<longleftrightarrow> x = Pass \<or> x = Ecall \<or> x = Shutdown) \<and> (code = 3 \<longleftrightarrow> x = StepLimit))"
proof (cases "parse args")
  case (Inr opts)
  show ?thesis
  proof (cases "prepare files opts")
    case None
    then show ?thesis using Inr prepare_panics by (simp add: main_def)
  next
    case (Some res)
    obtain log x c where ran: "run_options opts (snd res) = Some (log, x, c)"
      and as_run: "run (unat (max_steps opts)) (snd res) = (x, c)"
      using run_options_is_run [of opts "snd res"] by (metis prod.collapse)
    show ?thesis
    proof (cases "fst res")
      case (Inl code)
      then have "prepare files opts = Some (Inl code, snd res)" using Some by (metis prod.collapse)
      then show ?thesis using Inr prepare_code by (simp add: main_def)
    next
      case (Inr u)
      then have "prepare files opts = Some (Inr (), snd res)" using Some by (metis old.unit.exhaust prod.collapse)
      then show ?thesis
        using \<open>parse args = Inr opts\<close> ran as_run by (simp add: main_def report_def exit_code_zero exit_code_three)
    qed
  qed
qed (simp add: main_def)

end
