(* ===== verification/Divergences.thy ===== *)
theory Divergences
  imports Guarantees Fp_Convert Firmware Command_Line
begin

text \<open>
  Places where the program does something else than its comments, or the rest of the program, say.
  Each is a statement about the model at a concrete input or for every input; the stale translation
  after a change of MPP is in \<^verbatim>\<open>Cpu\<close>, the aliasing of the CLINT hole in \<^verbatim>\<open>Memory\<close>, and the device
  tree put on top of the kernel in \<^verbatim>\<open>Command_Line\<close>.
\<close>

section \<open>Register width on RV32\<close>

text \<open>\<^verbatim>\<open>emu/src/sbi.rs\<close> answers an unknown legacy call with all 64 bits of minus two.\<close>

lemma firmware_answer_too_wide:
  assumes "xlen c = Rv32" and "regs c 17 = 9"
  shows "regs (snd (handle_sbi c)) 10 = - 2 \<and> \<not> canonical (snd (handle_sbi c))"
proof -
  have answer: "handle_sbi c = (True, set_reg 10 (- 2) c)"
    using assms(2) by (simp add: handle_sbi_def sbi_legacy_def)
  have "trunc (- 2) 32 \<noteq> (- 2 :: u64)" by code_simp
  then have "trunc (regs (set_reg 10 (- 2) c) 10) (xbits (set_reg 10 (- 2) c)) \<noteq> regs (set_reg 10 (- 2) c) 10"
    using assms(1) by (simp add: set_reg_def xbits_def)
  then show ?thesis unfolding canonical_def answer by (auto simp: set_reg_def)
qed

text \<open>A direct jump adds its offset in 64 bits and keeps them all, a register jump truncates.\<close>

lemma direct_jump_leaves_width: "pc (exec_jal 0x0080006f 0xfffffffc 0 (rv32 0)) = 0x100000004"
proof -
  have "imm_j 0x0080006f = 8" by code_simp
  then show ?thesis by (simp add: exec_jal_def)
qed

section \<open>Counters\<close>

text \<open>On RV32 every retired instruction cuts the instruction counter to its lower half.\<close>

lemma retire_cuts_instret:
  assumes "csr_xlen (csrs c) = Rv32" and "\<not> wrote_instret c"
  shows "csr_regs (csrs (retire c)) MINSTRET = (csr_regs (csrs c) MINSTRET AND 0xffffffff) + 1"
  using assms by (simp add: retire_def upd_csrs_def csr_read_def csr_read_value_def)

text \<open>The cycle counter is forced at every step, whatever software wrote to it.\<close>

lemma cycle_writes_are_lost:
  "begin_cycle (upd_csrs (csr_force MCYCLE w) c) = begin_cycle c"
  by (simp add: begin_cycle_def upd_csrs_def Let_def csr_force_def)

section \<open>Control registers\<close>

lemma reserved_vector_mode_not_held: "csr_regs (csr_write MTVEC 0x80000002 f) MTVEC = 0x80000000"
  by (simp add: csr_write_def)

lemma mstatush_is_unmasked: "csr_regs (csr_write MSTATUSH w f) MSTATUS = push_bit 32 w OR (csr_regs f MSTATUS AND 0xffffffff)"
  by (simp add: csr_write_def)

text \<open>
  On RV32 the hart forces \<open>mstatus\<close> from its 32-bit view, which clears the upper half that \<open>mstatush\<close>
  shows to machine mode: on a floating-point instruction, also of user code, and on a trap return.
\<close>

lemma status_cut_on_rv32:
  assumes "csr_xlen (csrs c) = Rv32"
  shows "csr_read (csrs (dirty_fp c)) MSTATUSH AND 0x7fffffff = 0"
    and "csr_read (csrs (trap_return m c)) MSTATUSH AND 0x7fffffff = 0"
proof -
  have cut: "take_bit 32 v AND 0x7fffffff00000000 = 0" for v :: u64
    by (simp add: and.assoc flip: low_word)
  have read: "csr_read (csrs c) MSTATUS = take_bit 32 (csr_status (csrs c))"
    using assms by (simp add: csr_read_def csr_read_value_def low_word Let_def)
  show "csr_read (csrs (dirty_fp c)) MSTATUSH AND 0x7fffffff = 0"
    using assms by (subst status_high) (simp_all add: dirty_fp_def read Let_def word_ao_dist and.assoc cut)
  show "csr_read (csrs (trap_return m c)) MSTATUSH AND 0x7fffffff = 0"
    using assms by (subst status_high) (simp_all add: trap_return_def read Let_def word_ao_dist and.assoc cut drop_bit_take_bit)
qed

text \<open>A write of \<open>mstatus\<close> keeps the reserved value 2 in MPP.\<close>

lemma reserved_mpp_is_kept: "csr_regs (csr_write MSTATUS 0x1000 (csr_new Rv64)) MSTATUS AND ST_MPP = 0x1000"
  by code_simp

section \<open>Floating point\<close>

text \<open>
  The exact value is just below the smallest normal number and has 24 significant bits; rounded to
  them it stays below, so the result is tiny, but only NX is raised.
\<close>

lemma underflow_missed: "round_pack fmt_S False 0xffffff (- 150) Rne = (0x00800000, NX)"
proof -
  have len: "bit_len 0xffffff = 24" by (simp add: bit_len_def nat_len.simps)
  have split: "split_at 0xffffff (Suc 0) = (0x7fffff, True, False)" by (simp add: split_at_def)
  have format: "fmt_sig fmt_S = 23" "min_e fmt_S = - 149" "bias fmt_S = 127" "max_field fmt_S = 255" "sig_mask fmt_S = 0x7fffff"
    by (simp_all add: fmt_S_def min_e_def bias_def max_field_def sig_mask_def exp_bits_def)
  show ?thesis
    by (simp add: round_pack_def len format split rounds_up_def fzero_def)
qed

end
