(* ===== verification/Spec2Isabelle.thy ===== *)
theory Spec2Isabelle
  imports Atomics Tohost Expansion Csr_Access Precise Elf_Image Diag Divergences
begin

text \<open>
  A verification development for nanoemu, the reference RISC-V simulator of nanoriscv
  (\<^verbatim>\<open>emu/src\<close>): a single hart, RV32 or RV64 with M, A, F, D, C, Zicsr and supervisor mode, its memory
  and devices, a firmware layer for kernels, and the command line program around it.

  \<^bold>\<open>The program and its parts.\<close> \<^verbatim>\<open>main.rs\<close> reads options, places an executable (\<^verbatim>\<open>elf.rs\<close>), a flat image
  or a kernel with its device tree in memory, and calls \<^verbatim>\<open>Cpu::run\<close>. Every round of \<^verbatim>\<open>run\<close> is one
  \<^verbatim>\<open>Cpu::step\<close>: the cycle counter and the timer tick, devices are polled, a pending interrupt is taken, or
  else an instruction is fetched through \<^verbatim>\<open>translate\<close> (cache and page-table walk of \<^verbatim>\<open>mmu.rs\<close>), expanded
  if compressed (\<^verbatim>\<open>compress.rs\<close>), decoded (\<^verbatim>\<open>decode.rs\<close>) and executed (\<^verbatim>\<open>execute\<close> with \<^verbatim>\<open>alu\<close>, \<^verbatim>\<open>muldiv\<close>, the
  soft-float unit \<^verbatim>\<open>fpu.rs\<close>, \<^verbatim>\<open>csr.rs\<close>, and memory with its devices \<^verbatim>\<open>memory.rs\<close>, \<^verbatim>\<open>plic.rs\<close>, \<^verbatim>\<open>uart.rs\<close>).
  An exception enters a trap handler of the guest; an environment call of a kernel may instead be
  answered by \<^verbatim>\<open>sbi.rs\<close>.

  \<^bold>\<open>Theories, in the order they build on each other.\<close>
  \<^item> \<open>Prelude\<close>: machine integers, state-and-error programs \<open>('s, 'e, 'a) prog\<close> with \<open>bindE\<close>, the contract
    \<open>keeps R p\<close> and its locale \<open>state_contract\<close>, little-endian bytes, slices and splices of lists.
  \<^item> \<open>Decode\<close>, \<open>Widths\<close>, \<open>Trap\<close>, \<open>Compress\<close>, \<open>Alu\<close>, \<open>Csr\<close>, \<open>Plic\<close>, \<open>Uart\<close>, \<open>Memory\<close>, \<open>Mmu\<close>, \<open>Fpu\<close>: one component
    each, named after its file (\<open>Widths\<close> and \<open>Alu\<close> model the integer functions of \<^verbatim>\<open>cpu.rs\<close>).
  \<^item> \<open>Cpu\<close>: the record \<open>cpu\<close>, registers, translation cache, memory access, fetch. \<open>Tlb\<close>: the cache against
    the walk. \<open>Interrupts\<close>: timer, interrupt choice, trap entry and return. \<open>Exec_Fp\<close>, \<open>Exec\<close>: \<^verbatim>\<open>execute\<close>,
    one definition per opcode arm. \<open>Sbi\<close>: \<^verbatim>\<open>handle_sbi\<close>. \<open>Hart\<close>: \<^verbatim>\<open>step\<close>, \<^verbatim>\<open>run\<close>, \<^verbatim>\<open>load_elf\<close>, \<^verbatim>\<open>boot_supervisor\<close>.
  \<^item> \<open>Data\<close>, \<open>Atomics\<close>, \<open>Cycle\<close>, \<open>Tohost\<close>: loads and stores, atomic instructions, the instruction cycle and
    the posting of a verdict as a program without paging sees them. \<open>Expansion\<close>: the opcode table of the
    compressed instructions.
  \<^item> \<open>Elf\<close>, \<open>Loading\<close>, \<open>Elf_Image\<close>: the reader, what loading achieves, and a writer the reader inverts.
  \<^item> \<open>Runner\<close>, \<open>Command_Line\<close>: \<^verbatim>\<open>main.rs\<close>. \<open>Diag\<close>: the diagnostic program \<^verbatim>\<open>examples/diag.rs\<close> and its agreement
    with the run loop.
  \<^item> \<open>Access\<close>, \<open>Contract\<close>, \<open>Guarantees\<close>, \<open>Csr_Access\<close>, \<open>Precise\<close>, \<open>Firmware\<close>, \<open>Stepping\<close>, \<open>Rounding\<close>, \<open>Fp_Arith\<close>, \<open>Fp_Convert\<close>: theorems
    over these. \<open>Divergences\<close>: where the code departs from its comments or from itself.

  \<^bold>\<open>How the model corresponds to the code.\<close> A method on \<^verbatim>\<open>&mut self\<close> is a function that returns the new
  state; one that returns a \<^verbatim>\<open>Result\<close> is a \<open>prog\<close>, whose error carries the state left behind, so an
  early return keeps the effects made before it. Structs are records with the fields of the source,
  enums are datatypes, integers are words of their width with the wrap-around of the release build,
  fixed arrays are functions on \<open>nat\<close> or on words, \<^verbatim>\<open>Vec<u8>\<close> is a list of bytes. Definitions keep the
  names of the source functions; a large function is split into one definition per arm or loop.

  \<^bold>\<open>What the lemmas show.\<close>
  \<^item> Protection: the locale \<open>hart_contract\<close> lifts a preorder that every primitive effect respects to every
    instruction, \<open>step_contract\<close> to steps and runs. Its interpretations give that no instruction raises the
    privilege, that machine-mode software reads the same control registers after any instruction of code below
    machine mode, but for the supervisor's fields and, on RV32, the upper half of \<open>mstatus\<close> that the
    program clears by a defect, that register zero stays zero, and that registers of RV32 stay within
    32 bits without the firmware. \<open>Csr_Access\<close> gives the exact effect of a control register instruction
    and the rule that permits it, \<open>Precise\<close> that an instruction which faults has changed nothing but memory and the translation cache.
  \<^item> Translation: \<open>mmu_translate\<close> refines the page tables seen as a function (\<open>find_leaf\<close>, \<open>grants\<close>, \<open>mapped\<close>,
    \<open>marked\<close>) where they lie in DRAM, and succeeds exactly by an entry it reads (\<open>read_leaf\<close>) wherever
    they lie; walks do not disturb each other, and translating through a coherent cache is the walk and
    keeps the cache coherent.
  \<^item> Arithmetic: \<open>alu\<close> and \<open>muldiv\<close> agree with word arithmetic at both widths; \<open>round_pack\<close>, the arithmetic
    operations and the conversions are correctly rounded with respect to the real numbers (\<open>rounds_to\<close>), and
    rounding chooses the number of the format that the mode prefers to every other (\<open>rounded\<close>).
  \<^item> Memory as a program sees it: without paging, loads read back stores of any alignment, across pages too,
    atomic operations compute on words of their width, a store-conditional succeeds once, and a step
    executes the instruction that the bytes at the program counter encode.
  \<^item> Encodings: compressed instructions expand exactly as their opcode table says; executables, command
    lines, memory and the CLINT read back what was written.
  \<^item> Devices and firmware: PLIC arbitration and claim, the UART as a queue, the effect of a write on the
    control registers and their legality, supervisor windows, calls of the firmware and its console.
  \<^item> Control: traps return to what they interrupted, interrupts are taken by the priority of the code's
    table, a verdict posted by a store ends the run, the run loop finds exactly the exits the guest can
    reach, and plain, sampled and traced running agree.

  \<^bold>\<open>Interfaces.\<close> \<open>state_contract\<close>, \<open>access_contract\<close>, \<open>hart_contract\<close>, \<open>step_contract\<close> and \<open>firmware_contract\<close> (effects that respect a
  preorder), \<open>byte_store\<close> (memory as the MMU and loads and stores use it), \<open>byte_source\<close> (a queue of input
  bytes as its readers see it) and \<open>bounded_loop\<close> (rounds under a limit of steps) are locales; each is
  interpreted on the model's own definitions in the theory of the component that provides them.

  \<^bold>\<open>Bounds and fuel.\<close> The walk descends at most the levels of its scheme, two or three, which is the loop of the
  source. \<open>run\<close>, \<open>traced_run\<close> and \<open>diag_loop\<close> recurse on the limit of steps the source loops over. Square root
  refines its guess until the code's own exit, with a termination proof. \<open>sampled_run\<close> has no bound of its
  own, since with a sample distance of zero its loop would not end; \<open>Runner\<close> proves that it ends as the
  program calls it. Theorems on memory ask for less than \<open>2 ^ 63\<close> bytes of DRAM, those on floating point for
  a format of at most 52 fraction bits, both of which the program satisfies.

  \<^bold>\<open>Not modelled.\<close> The file system is a parameter (what reading a path returns). Left out are the text of
  messages, the layout of the register dump and the echo of the console to standard output, which no state
  depends on; the lossy UTF-8 decoding of \<^verbatim>\<open>Uart::output\<close>, used by tests; \<^verbatim>\<open>Display\<close> implementations;
  failure to allocate; the panic of \<^verbatim>\<open>std::env::args\<close> on an argument that is not UTF-8 (arguments are
  strings here); the panics of a debug build on overflow, except where \<open>Divergences\<close> or \<open>Memory\<close> name
  them. Symbol names of an executable are bytes. The tests, guest programs, scripts and the RTL notes are
  not part of the program.
\<close>

end
